(* ===== verification/UvPrelude.thy ===== *)
theory UvPrelude
  imports "HOL-Library.Word" "HOL-Library.Monad_Syntax"
begin

text \<open>
  What every component of the development shares: the machine types of the C++ code, the
  memory operations it applies to raw arrays and to \<open>std::string\<close> storage, and one combinator
  for its \<open>while (true)\<close> loops.

  Conventions. A function that may have no defined continuation returns an \<open>option\<close>:
  \<open>None\<close> stands for undefined behaviour (an access outside an array, a null pointer that is
  dereferenced), for an exception that nothing catches, and for a loop that never ends. The
  \<open>int\<close> status codes of the source (0 and -1) are ordinary results.
\<close>

named_theorems uv_arith \<open>machine arithmetic read as arithmetic of natural numbers\<close>

section \<open>Machine types\<close>

type_synonym uint8 = "8 word"
type_synonym uint16 = "16 word"
type_synonym uint32 = "32 word"
type_synonym uint64 = "64 word"

text \<open>The conversion \<open>(int) n\<close> of a size: the low 32 bits, read as two's complement.\<close>

definition c_int :: "nat \<Rightarrow> int" where
  "c_int n = sint (word_of_nat n :: 32 word)"

lemma c_int_small [simp]: "n < 2 ^ 31 \<Longrightarrow> c_int n = int n"
  by (simp add: c_int_def signed_of_nat signed_take_bit_int_eq_self)

lemma unat_word_of_nat64 [simp]: "n < 2 ^ 64 \<Longrightarrow> unat (word_of_nat n :: uint64) = n"
  by (simp add: unat_of_nat take_bit_nat_eq_self)

lemma unat_word_of_nat16 [simp]: "n < 2 ^ 16 \<Longrightarrow> unat (word_of_nat n :: uint16) = n"
  by (simp add: unat_of_nat take_bit_nat_eq_self)

lemma unat64_bound [simp]: "unat (x :: uint64) < 2 ^ 64"
  using unsigned_less [of x] by simp

lemma unat16_bound [simp]: "unat (x :: uint16) < 2 ^ 16"
  using unsigned_less [of x] by simp

lemma unat32_bound [simp]: "unat (x :: uint32) < 2 ^ 32"
  using unsigned_less [of x] by simp

lemma unat_add64 [uv_arith]:
  "unat (x :: uint64) + unat y < 2 ^ 64 \<Longrightarrow> unat (x + y) = unat x + unat y"
  by (simp add: unat_word_ariths)

lemma unat_sum64:
  "a + b < 2 ^ 64 \<Longrightarrow> unat (word_of_nat a + word_of_nat b :: uint64) = a + b"
  using unat_word_of_nat64 [of "a + b"] by simp

lemma unat_sub64 [uv_arith]:
  "unat (y :: uint64) \<le> unat x \<Longrightarrow> unat (x - y) = unat x - unat y"
  by (simp add: unat_sub word_le_nat_alt)

lemma unat_widen [simp]:
  "unat (ucast (x :: uint16) :: uint32) = unat x"
  "unat (ucast (x :: uint16) :: uint64) = unat x"
  "unat (ucast (y :: uint32) :: uint64) = unat y"
  using unat16_bound [of x] unat32_bound [of y]
  by (simp_all add: unsigned_ucast_eq take_bit_nat_eq_self)

lemmas le64 [uv_arith] = word_le_nat_alt [where 'a = 64]
lemmas less64 [uv_arith] = word_less_nat_alt [where 'a = 64]

section \<open>Raw memory\<close>

text \<open>\<open>std::copy (xs, xs + n, buf + at)\<close>: undefined when the target leaves the array.\<close>

definition copy_to :: "'a list \<Rightarrow> nat \<Rightarrow> 'a list \<Rightarrow> 'a list option" where
  "copy_to buf at xs =
     (if at + length xs \<le> length buf
      then Some (take at buf @ xs @ drop (at + length xs) buf) else None)"

text \<open>The bytes \<open>buf + at .. buf + at + n\<close>: undefined when the range leaves the array.\<close>

definition copy_from :: "'a list \<Rightarrow> nat \<Rightarrow> nat \<Rightarrow> 'a list option" where
  "copy_from buf at n = (if at + n \<le> length buf then Some (take n (drop at buf)) else None)"

text \<open>\<open>std::string::resize (n)\<close>: cut, or padded with zero characters.\<close>

definition resize :: "nat \<Rightarrow> 'a::zero list \<Rightarrow> 'a list" where
  "resize n xs = take n xs @ replicate (n - length xs) 0"

text \<open>\<open>xs[i]\<close> of a vector or string: undefined past the end.\<close>

definition index_at :: "'a list \<Rightarrow> nat \<Rightarrow> 'a option" where
  "index_at xs i = (if i < length xs then Some (xs ! i) else None)"

lemma copy_to_Some [simp]:
  "at + length xs \<le> length buf \<Longrightarrow>
    copy_to buf at xs = Some (take at buf @ xs @ drop (at + length xs) buf)"
  by (simp add: copy_to_def)

lemma copy_to_None [simp]: "length buf < at + length xs \<Longrightarrow> copy_to buf at xs = None"
  by (simp add: copy_to_def)

text \<open>Writing on from where an already written part ends.\<close>

lemma copy_after:
  assumes "length xs = n" and "length ys \<le> length zs"
  shows "copy_to (xs @ zs) n ys = Some (xs @ ys @ drop (length ys) zs)"
  using assms by (auto simp: copy_to_def)

lemma copy_to_length: "copy_to buf at xs = Some buf' \<Longrightarrow> length buf' = length buf"
  by (auto simp: copy_to_def split: if_splits)

lemma copy_from_Some [simp]:
  "at + n \<le> length buf \<Longrightarrow> copy_from buf at n = Some (take n (drop at buf))"
  by (simp add: copy_from_def)

lemma resize_grow [simp]: "resize (length xs + n) xs = xs @ replicate n 0"
  by (simp add: resize_def)

lemma length_resize [simp]: "length (resize n xs) = n"
  by (simp add: resize_def)

lemma take_resize: "n \<le> length xs \<Longrightarrow> resize n xs = take n xs"
  by (simp add: resize_def)

lemma index_at_0 [simp]: "index_at (x # xs) 0 = Some x" "index_at [] i = None"
  by (simp_all add: index_at_def)

section \<open>Streams\<close>

text \<open>TCP delivers what is written in pieces: any way to cut a list into parts that are not empty.\<close>

definition cuts :: "('a list \<Rightarrow> 'a list list) \<Rightarrow> bool" where
  "cuts f \<longleftrightarrow> (\<forall>xs. concat (f xs) = xs \<and> [] \<notin> set (f xs))"

definition whole :: "'a list \<Rightarrow> 'a list list" where
  "whole xs = (if xs = [] then [] else [xs])"

lemma cuts_whole: "cuts whole"
  by (simp add: cuts_def whole_def)

section \<open>Endless loops\<close>

text \<open>
  \<open>while (true) body\<close>. One run of the body either goes on with a new loop state (\<open>Inl\<close>:
  \<open>continue\<close> or the end of the body), leaves the loop with a result (\<open>Inr\<close>: \<open>break\<close> or
  \<open>return\<close>), or is undefined (\<open>None\<close>). The loop's value is \<open>None\<close> also when it never ends.
\<close>

partial_function (option) endless :: "('s \<Rightarrow> ('s + 'r) option) \<Rightarrow> 's \<Rightarrow> 'r option" where
  "endless body s =
     (case body s of
        None \<Rightarrow> None
      | Some x \<Rightarrow> (case x of Inl s' \<Rightarrow> endless body s' | Inr r \<Rightarrow> Some r))"

declare endless.simps [code]

lemma endless_stop: "body s = Some (Inr r) \<Longrightarrow> endless body s = Some r"
  by (subst endless.simps) simp

lemma endless_again: "body s = Some (Inl s') \<Longrightarrow> endless body s = endless body s'"
  by (subst endless.simps) simp

lemma endless_fault: "body s = None \<Longrightarrow> endless body s = None"
  by (subst endless.simps) simp

text \<open>A loop that carries more state than another one, but runs alike: \<open>g\<close> and \<open>h\<close> drop the rest.\<close>

lemma endless_imp:
  fixes f :: "'a \<Rightarrow> ('a + 'r) option" and f' :: "'b \<Rightarrow> ('b + 'q) option"
  assumes sim: "\<And>x. map_option (map_sum g h) (f x) = f' (g x)" and "endless f x = Some r"
  shows "endless f' (g x) = Some (h r)"
proof -
  let ?P = "\<lambda>body x r. body = f \<longrightarrow> endless f' (g x) = Some (h r)"
  have "?P f x r"
  proof (rule endless.raw_induct [where P = ?P, OF _ assms(2)], intro impI)
    fix e :: "('a \<Rightarrow> ('a + 'r) option) \<Rightarrow> 'a \<Rightarrow> 'r option" and body x r
    assume IH: "\<And>body x r. e body x = Some r \<Longrightarrow> ?P body x r"
      and step: "(case body x of None \<Rightarrow> None
        | Some y \<Rightarrow> (case y of Inl x' \<Rightarrow> e body x' | Inr r \<Rightarrow> Some r)) = Some r" and "body = f"
    then show "endless f' (g x) = Some (h r)"
      using sim [of x, symmetric] endless_stop [of f' "g x"] endless_again [of f' "g x"]
      by (cases "f x") (auto split: sum.splits)
  qed
  then show ?thesis by simp
qed

lemma endless_only_if:
  fixes f :: "'a \<Rightarrow> ('a + 'r) option" and f' :: "'b \<Rightarrow> ('b + 'q) option"
  assumes sim: "\<And>x. map_option (map_sum g h) (f x) = f' (g x)" and "endless f' (g x) = Some r"
  shows "\<exists>r'. endless f x = Some r'"
proof -
  let ?P = "\<lambda>body y r. body = f' \<longrightarrow> (\<forall>x. y = g x \<longrightarrow> (\<exists>r'. endless f x = Some r'))"
  have "?P f' (g x) r"
  proof (rule endless.raw_induct [where P = ?P, OF _ assms(2)], intro impI allI)
    fix e :: "('b \<Rightarrow> ('b + 'q) option) \<Rightarrow> 'b \<Rightarrow> 'q option" and body y r x
    assume IH: "\<And>body y r. e body y = Some r \<Longrightarrow> ?P body y r"
      and step: "(case body y of None \<Rightarrow> None
        | Some z \<Rightarrow> (case z of Inl y' \<Rightarrow> e body y' | Inr r \<Rightarrow> Some r)) = Some r" and "body = f'" "y = g x"
    then show "\<exists>r'. endless f x = Some r'"
      using sim [of x, symmetric] endless_stop [of f x] endless_again [of f x]
      by (cases "f x"; cases "the (f x)") auto
  qed
  then show ?thesis by simp
qed

lemma endless_projection:
  assumes sim: "\<And>x. map_option (map_sum g h) (f x) = f' (g x)"
  shows "map_option h (endless f x) = endless f' (g x)"
  using endless_imp [of g h f f' x, OF sim] endless_only_if [of g h f f' x, OF sim]
  by (cases "endless f x"; cases "endless f' (g x)") auto

text \<open>Total correctness: an invariant, a measure that every further round decreases.\<close>

lemma endless_total:
  fixes m :: "'s \<Rightarrow> nat"
  assumes start: "I s"
    and round: "\<And>s. I s \<Longrightarrow>
      (\<exists>s'. body s = Some (Inl s') \<and> I s' \<and> m s' < m s) \<or> (\<exists>r. body s = Some (Inr r) \<and> Q r)"
  shows "\<exists>r. endless body s = Some r \<and> Q r"
  using start
proof (induction "m s" arbitrary: s rule: less_induct)
  case less
  show ?case
    using round [OF less.prems] less.hyps endless_again [of body s] endless_stop [of body s]
    by metis
qed

text \<open>The state after \<open>n\<close> rounds, when the loop is still running then.\<close>

fun rounds :: "nat \<Rightarrow> ('s \<Rightarrow> ('s + 'r) option) \<Rightarrow> 's \<Rightarrow> 's option" where
  "rounds 0 body s = Some s"
| "rounds (Suc n) body s =
     (case body s of Some (Inl s') \<Rightarrow> rounds n body s' | _ \<Rightarrow> None)"

text \<open>A set of states that the body never leaves: the loop runs for ever.\<close>

lemma endless_diverges:
  assumes start: "I s" and stay: "\<And>s. I s \<Longrightarrow> \<exists>s'. body s = Some (Inl s') \<and> I s'"
  shows "endless body s = None" and "\<exists>s'. rounds n body s = Some s' \<and> I s'"
proof -
  let ?P = "\<lambda>body s (r :: 'b). (\<forall>s. I s \<longrightarrow> (\<exists>s'. body s = Some (Inl s' :: 'a + 'b) \<and> I s')) \<longrightarrow> \<not> I s"
  have "?P body s r" if "endless body s = Some r" for s r
  proof (rule endless.raw_induct [where P = ?P, OF _ that])
    fix f :: "('a \<Rightarrow> ('a + 'b) option) \<Rightarrow> 'a \<Rightarrow> 'b option" and body s r
    assume IH: "\<And>body s r. f body s = Some r \<Longrightarrow> ?P body s r"
      and step: "(case body s of None \<Rightarrow> None
        | Some x \<Rightarrow> (case x of Inl s' \<Rightarrow> f body s' | Inr r \<Rightarrow> Some r)) = Some r"
    show "?P body s r"
    proof (intro impI notI)
      assume inv: "\<forall>s. I s \<longrightarrow> (\<exists>s'. body s = Some (Inl s') \<and> I s')" and "I s"
      then obtain s' where "body s = Some (Inl s')" and "I s'" by blast
      with step IH [of body s' r] inv show False by simp
    qed
  qed
  with start stay show "endless body s = None" by (metis option.exhaust)
  show "\<exists>s'. rounds n body s = Some s' \<and> I s'"
    using start
  proof (induction n arbitrary: s)
    case (Suc n)
    from stay [OF Suc.prems] Suc.IH show ?case by fastforce
  qed simp
qed

end
