(* ===== verification/PacketBuffer.thy ===== *)
theory PacketBuffer
  imports UvPrelude
begin

text \<open>
  The byte-buffer interface \<open>uv::PacketBuffer\<close> (\<open>uv/include/PacketBuffer.hpp\<close>) and the global
  settings of \<open>uv/include/GlobalConfig.hpp\<close>. The class is abstract: its five virtual operations
  are the fields of a record (the vtable), so that code which holds a \<open>PacketBuffer*\<close> takes the
  record and the object. The locale \<open>packet_buffer\<close> states what the header promises of an
  implementation, over the sequence of bytes the buffer holds; \<open>bounded_packet_buffer\<close> adds the
  failure of \<open>append\<close> on a full buffer.
\<close>

section \<open>Global configuration\<close>

datatype BufferMode = NoBuffer | CycleBufferMode | ListBufferMode

text \<open>The initial values in \<open>uv/GlobalConfig.cpp\<close>: no buffer, and 32 KiB cycle buffers.\<close>

definition BufferModeStatus_init :: BufferMode where
  "BufferModeStatus_init = NoBuffer"

definition CycleBufferSize_init :: uint64 where
  "CycleBufferSize_init = push_bit 5 1024"

section \<open>The virtual operations\<close>

record 'b PacketBuffer =
  append_op :: "uint8 list \<Rightarrow> 'b \<Rightarrow> (int \<times> 'b) option"
  readBufferN_op :: "uint8 list \<Rightarrow> uint64 \<Rightarrow> 'b \<Rightarrow> (int \<times> uint8 list) option"
  clearBufferN_op :: "uint64 \<Rightarrow> 'b \<Rightarrow> int \<times> 'b"
  clear_op :: "'b \<Rightarrow> int \<times> 'b"
  readSize_op :: "'b \<Rightarrow> uint64"

text \<open>
  \<open>readString\<close>, \<open>readPacket\<close> and \<open>readGeneric\<close> have one body: call the parse function that
  \<open>GlobalConfig\<close> holds, or report that there is none. The parse function gets the buffer and
  the object to fill; the third component of the result is what goes to the error log.
\<close>

definition read_with ::
  "('b \<Rightarrow> 'o \<Rightarrow> (int \<times> 'b \<times> 'o) option) option \<Rightarrow> 'b \<Rightarrow> 'o \<Rightarrow> (int \<times> 'b \<times> 'o \<times> string list) option"
where
  "read_with parse b out =
     (case parse of
        Some f \<Rightarrow> (case f b out of
            None \<Rightarrow> None
          | Some (r, b', out') \<Rightarrow> Some (r, b', out', []))
      | None \<Rightarrow> Some (-1, b, out, [''not defined packet parse func.'']))"

section \<open>Sequences of calls\<close>

text \<open>
  A client's calls on one buffer and what they return: status codes, bytes read into an empty
  string, sizes. \<open>queue_call\<close> is the same on the abstract buffer, a queue of at most \<open>cap\<close> bytes.
\<close>

datatype BufferCall =
  AppendCall "uint8 list" | ReadCall uint64 | ClearNCall uint64 | ClearCall | SizeCall

datatype BufferReply = Status int | Bytes int "uint8 list" | Size uint64

fun buffer_call :: "'b PacketBuffer \<Rightarrow> BufferCall \<Rightarrow> 'b \<Rightarrow> (BufferReply \<times> 'b) option" where
  "buffer_call ops (AppendCall xs) b = map_option (\<lambda>(r, b'). (Status r, b')) (append_op ops xs b)"
| "buffer_call ops (ReadCall n) b =
     map_option (\<lambda>(r, xs). (Bytes r xs, b)) (readBufferN_op ops [] n b)"
| "buffer_call ops (ClearNCall n) b = (case clearBufferN_op ops n b of (r, b') \<Rightarrow> Some (Status r, b'))"
| "buffer_call ops ClearCall b = (case clear_op ops b of (r, b') \<Rightarrow> Some (Status r, b'))"
| "buffer_call ops SizeCall b = Some (Size (readSize_op ops b), b)"

fun buffer_calls :: "'b PacketBuffer \<Rightarrow> BufferCall list \<Rightarrow> 'b \<Rightarrow> (BufferReply list \<times> 'b) option" where
  "buffer_calls ops [] b = Some ([], b)"
| "buffer_calls ops (c # cs) b =
     do {
       (r, b) \<leftarrow> buffer_call ops c b;
       (rs, b) \<leftarrow> buffer_calls ops cs b;
       Some (r # rs, b)
     }"

fun queue_call :: "nat \<Rightarrow> BufferCall \<Rightarrow> uint8 list \<Rightarrow> BufferReply \<times> uint8 list" where
  "queue_call cap (AppendCall xs) q =
     (if length q + length xs \<le> cap then (Status 0, q @ xs) else (Status (-1), q))"
| "queue_call cap (ReadCall n) q =
     (if unat n \<le> length q then (Bytes 0 (take (unat n) q), q) else (Bytes (-1) [], q))"
| "queue_call cap (ClearNCall n) q = (Status 0, drop (unat n) q)"
| "queue_call cap ClearCall q = (Status 0, [])"
| "queue_call cap SizeCall q = (Size (word_of_nat (length q)), q)"

fun queue_calls :: "nat \<Rightarrow> BufferCall list \<Rightarrow> uint8 list \<Rightarrow> BufferReply list \<times> uint8 list" where
  "queue_calls cap [] q = ([], q)"
| "queue_calls cap (c # cs) q =
     (case queue_call cap c q of (r, q) \<Rightarrow>
      case queue_calls cap cs q of (rs, q) \<Rightarrow> (r # rs, q))"

text \<open>The calls whose data a machine can hold.\<close>

definition call_ok :: "BufferCall \<Rightarrow> bool" where
  "call_ok c = (case c of AppendCall xs \<Rightarrow> length xs < 2 ^ 64 | _ \<Rightarrow> True)"

section \<open>The contract\<close>

locale packet_buffer =
  fixes ops :: "'b PacketBuffer"
    and contents :: "'b \<Rightarrow> uint8 list"
    and valid :: "'b \<Rightarrow> bool"
    and cap :: nat
  assumes contents_bound: "valid b \<Longrightarrow> length (contents b) \<le> cap"
    and cap_bound: "cap < 2 ^ 64"
    and readSize_law: "valid b \<Longrightarrow> readSize_op ops b = word_of_nat (length (contents b))"
    and append_law: "valid b \<Longrightarrow> length (contents b) + length xs \<le> cap \<Longrightarrow>
      \<exists>b'. append_op ops xs b = Some (0, b') \<and> valid b' \<and> contents b' = contents b @ xs"
    and read_law: "valid b \<Longrightarrow> length data + unat n < 2 ^ 31 \<Longrightarrow> unat n \<le> length (contents b) \<Longrightarrow>
      readBufferN_op ops data n b = Some (0, data @ take (unat n) (contents b))"
    and read_short_law: "valid b \<Longrightarrow> length (contents b) < unat n \<Longrightarrow>
      readBufferN_op ops data n b = Some (-1, data)"
    and clearN_law: "valid b \<Longrightarrow> \<exists>b'. clearBufferN_op ops n b = (0, b') \<and> valid b'
      \<and> contents b' = drop (unat n) (contents b)"
    and clear_law: "valid b \<Longrightarrow> \<exists>b'. clear_op ops b = (0, b') \<and> valid b' \<and> contents b' = []"
begin

lemma unat_readSize: "valid b \<Longrightarrow> unat (readSize_op ops b) = length (contents b)"
  using contents_bound [of b] cap_bound readSize_law [of b] by (simp add: le_less_trans)

text \<open>Filling in pieces is filling at once.\<close>

lemma append_append:
  assumes "valid b" and "length (contents b) + length xs + length ys \<le> cap"
  shows "\<exists>b1 b2. append_op ops xs b = Some (0, b1) \<and> append_op ops ys b1 = Some (0, b2)
    \<and> valid b2 \<and> contents b2 = contents b @ xs @ ys"
  using append_law [of b xs] append_law [of _ ys] assms by fastforce

text \<open>First in, first out: what was appended last is what remains after the rest is consumed.\<close>

lemma append_clearN:
  assumes "valid b" and "length (contents b) + length xs \<le> cap"
  shows "\<exists>b1 b2. append_op ops xs b = Some (0, b1)
    \<and> clearBufferN_op ops (readSize_op ops b) b1 = (0, b2) \<and> valid b2 \<and> contents b2 = xs"
proof -
  from append_law [OF assms] obtain b1
    where b1: "append_op ops xs b = Some (0, b1)" "valid b1" "contents b1 = contents b @ xs"
    by blast
  from clearN_law [OF b1(2), of "readSize_op ops b"] b1(3) unat_readSize [OF assms(1)]
  show ?thesis using b1 by fastforce
qed

text \<open>
  As long as a queue of at most \<open>k\<close> bytes refuses nothing, a buffer with room for \<open>k\<close> answers
  as the queue does.
\<close>

lemma call_refines_fit:
  assumes "valid b" and "k \<le> cap" and "k < 2 ^ 31" and "length (contents b) \<le> k"
    and "fst (queue_call k c (contents b)) \<noteq> Status (-1)"
  shows "\<exists>r b'. buffer_call ops c b = Some (r, b') \<and> valid b' \<and> length (contents b') \<le> k
    \<and> queue_call k c (contents b) = (r, contents b')"
proof (cases c)
  case (AppendCall xs)
  with append_law [OF assms(1), of xs] assms(2,5) show ?thesis
    by (auto split: if_splits)
next
  case (ReadCall n)
  with read_law [OF assms(1), of "[]" n] read_short_law [OF assms(1), of n "[]"] assms show ?thesis
    by (cases "unat n \<le> length (contents b)") auto
next
  case (ClearNCall n)
  with clearN_law [OF assms(1), of n] assms(4) show ?thesis by auto
next
  case ClearCall
  with clear_law [OF assms(1)] show ?thesis by auto
next
  case SizeCall
  with readSize_law [OF assms(1)] assms(1,4) show ?thesis by simp
qed

lemma calls_refine_fit:
  assumes "valid b" and "k \<le> cap" and "k < 2 ^ 31" and "length (contents b) \<le> k"
    and "Status (-1) \<notin> set (fst (queue_calls k cs (contents b)))"
  shows "\<exists>rs b'. buffer_calls ops cs b = Some (rs, b') \<and> valid b'
    \<and> queue_calls k cs (contents b) = (rs, contents b')"
  using assms
proof (induction cs arbitrary: b)
  case Nil
  then show ?case by simp
next
  case (Cons c cs)
  from Cons.prems(5) have "fst (queue_call k c (contents b)) \<noteq> Status (-1)"
    by (auto split: prod.splits)
  from call_refines_fit [OF Cons.prems(1-4) this] obtain r b1
    where c: "buffer_call ops c b = Some (r, b1)" "queue_call k c (contents b) = (r, contents b1)"
      and b1: "valid b1" "length (contents b1) \<le> k" by auto
  from Cons.prems(5) c(2) have "Status (-1) \<notin> set (fst (queue_calls k cs (contents b1)))"
    by (auto split: prod.splits)
  from Cons.IH [OF b1(1) Cons.prems(2,3) b1(2) this] obtain rs b2
    where "buffer_calls ops cs b1 = Some (rs, b2)" "valid b2"
      "queue_calls k cs (contents b1) = (rs, contents b2)" by auto
  with c show ?case by simp
qed

end

locale bounded_packet_buffer = packet_buffer +
  assumes append_full_law: "valid b \<Longrightarrow> cap < length (contents b) + length xs \<Longrightarrow>
    length xs < 2 ^ 64 \<Longrightarrow> append_op ops xs b = Some (-1, b)"
begin

lemma append_total:
  assumes "valid b" and "length xs < 2 ^ 64"
  shows "\<exists>r b'. append_op ops xs b = Some (r, b') \<and> valid b'
    \<and> (r = 0 \<longleftrightarrow> length (contents b) + length xs \<le> cap)
    \<and> contents b' = (if r = 0 then contents b @ xs else contents b)"
proof (cases "length (contents b) + length xs \<le> cap")
  case True
  with append_law [OF assms(1) True] show ?thesis by fastforce
next
  case False
  with append_full_law [OF assms(1) _ assms(2)] assms(1) show ?thesis by fastforce
qed

lemma call_refines:
  assumes "valid b" and "cap < 2 ^ 31" and "call_ok c"
  shows "\<exists>r b'. buffer_call ops c b = Some (r, b') \<and> valid b'
    \<and> queue_call cap c (contents b) = (r, contents b')"
proof (cases c)
  case (AppendCall xs)
  with append_total [OF assms(1), of xs] assms(3) show ?thesis
    by (fastforce simp: call_ok_def append_full_law assms(1))
next
  case (ReadCall n)
  with read_law [OF assms(1), of "[]" n] read_short_law [OF assms(1), of n "[]"]
    contents_bound [OF assms(1)] assms(1,2) show ?thesis
    by (cases "unat n \<le> length (contents b)") auto
next
  case (ClearNCall n)
  with clearN_law [OF assms(1), of n] show ?thesis by auto
next
  case ClearCall
  with clear_law [OF assms(1)] show ?thesis by auto
next
  case SizeCall
  with readSize_law [OF assms(1)] assms(1) show ?thesis by simp
qed

text \<open>Every sequence of calls is defined and answers as the bounded queue does.\<close>

lemma calls_refine:
  assumes "valid b" and "cap < 2 ^ 31" and "\<forall>c\<in>set cs. call_ok c"
  shows "\<exists>rs b'. buffer_calls ops cs b = Some (rs, b') \<and> valid b'
    \<and> queue_calls cap cs (contents b) = (rs, contents b')"
  using assms
proof (induction cs arbitrary: b)
  case Nil
  then show ?case by simp
next
  case (Cons c cs)
  from call_refines [OF Cons.prems(1,2), of c] Cons.prems(3) obtain r b1
    where c: "buffer_call ops c b = Some (r, b1)" "queue_call cap c (contents b) = (r, contents b1)"
      and v: "valid b1" by auto
  from Cons.IH [OF v Cons.prems(2)] Cons.prems(3) obtain rs b2
    where "buffer_calls ops cs b1 = Some (rs, b2)" "valid b2"
      "queue_calls cap cs (contents b1) = (rs, contents b2)" by auto
  with c show ?case by simp
qed

end

end
