(* ===== verification/Packet.thy ===== *)
theory Packet
  imports PacketBuffer "HOL-Library.Sublist"
begin

unbundle bit_operations_syntax

text \<open>
  \<open>uv::Packet\<close> (\<open>uv/Packet.cpp\<close>, \<open>uv/include/Packet.hpp\<close>): a framed message (head byte, 16-bit
  size, data, end byte), its encoding \<open>pack\<close> and the resynchronising reader \<open>readFromBuffer\<close>,
  which works on any \<open>PacketBuffer\<close>. The class's static members (head byte, end byte, byte
  order) are a record of settings, so that the lemmas hold for every choice of them. The reader
  is verified against the contract of the buffer, inside the locale \<open>packet_buffer\<close>.
\<close>

datatype DataMode = BigEndian | LittleEndian

record PacketStatics =
  HeadByte :: uint8
  EndByte :: uint8
  Mode :: DataMode

definition Packet_statics_init :: PacketStatics where
  "Packet_statics_init = \<lparr>HeadByte = 0x7e, EndByte = 0xe7, Mode = LittleEndian\<rparr>"

record Packet =
  pk_buffer :: "uint8 list"
  dataSize :: uint16

definition Packet_init :: Packet where
  "Packet_init = \<lparr>pk_buffer = [], dataSize = 0\<rparr>"

definition PacketMinSize :: uint32 where
  "PacketMinSize = 4"

section \<open>Numbers as bytes\<close>

text \<open>
  \<open>PackNum\<close> writes \<open>sizeof (NumType)\<close> bytes: the loop stores the low byte and shifts, from the
  last byte down in big-endian order and from the first byte up in little-endian order. The
  model returns the bytes in memory order. \<open>UnpackNum\<close> shifts the number left and ors a byte in.
\<close>

fun pack_be :: "nat \<Rightarrow> 'a::len word \<Rightarrow> uint8 list" where
  "pack_be 0 num = []"
| "pack_be (Suc i) num = pack_be i (drop_bit 8 num) @ [ucast (num AND 0xff)]"

fun pack_le :: "nat \<Rightarrow> 'a::len word \<Rightarrow> uint8 list" where
  "pack_le 0 num = []"
| "pack_le (Suc i) num = ucast (num AND 0xff) # pack_le i (drop_bit 8 num)"

definition PackNum :: "DataMode \<Rightarrow> 'a::len word \<Rightarrow> uint8 list" where
  "PackNum mode num =
     (case mode of
        BigEndian \<Rightarrow> pack_be (LENGTH('a) div 8) num
      | LittleEndian \<Rightarrow> pack_le (LENGTH('a) div 8) num)"

fun unpack_bytes :: "uint8 list \<Rightarrow> 'a::len word \<Rightarrow> 'a word" where
  "unpack_bytes [] num = num"
| "unpack_bytes (d # ds) num = unpack_bytes ds (push_bit 8 num OR ucast d)"

definition UnpackNum :: "DataMode \<Rightarrow> uint8 list \<Rightarrow> ('a::len word) option" where
  "UnpackNum mode bytes =
     (case copy_from bytes 0 (LENGTH('a) div 8) of
        None \<Rightarrow> None
      | Some ds \<Rightarrow> (case mode of
            BigEndian \<Rightarrow> Some (unpack_bytes ds 0)
          | LittleEndian \<Rightarrow> Some (unpack_bytes (rev ds) 0)))"

section \<open>Packing\<close>

definition pack :: "PacketStatics \<Rightarrow> uint8 list \<Rightarrow> uint16 \<Rightarrow> Packet \<Rightarrow> Packet option" where
  "pack st data sz p =
     do {
       let buf = resize (unat (ucast sz + PacketMinSize)) (pk_buffer p);
       buf \<leftarrow> copy_to buf 0 [HeadByte st];
       buf \<leftarrow> copy_to buf 1 (PackNum (Mode st) sz);
       src \<leftarrow> copy_from data 0 (unat sz);
       buf \<leftarrow> copy_to buf 3 src;
       buf \<leftarrow> copy_to buf (length buf - 1) [EndByte st];
       Some (p\<lparr>dataSize := sz, pk_buffer := buf\<rparr>)
     }"

text \<open>\<open>getData\<close> points at the byte after the header; the data is the \<open>DataSize\<close> bytes there.\<close>

definition getData :: "Packet \<Rightarrow> uint8 list option" where
  "getData p = copy_from (pk_buffer p) 3 (unat (dataSize p))"

definition DataSize :: "Packet \<Rightarrow> uint16" where
  "DataSize p = dataSize p"

definition Buffer :: "Packet \<Rightarrow> uint8 list" where
  "Buffer p = pk_buffer p"

definition PacketSize :: "Packet \<Rightarrow> uint32" where
  "PacketSize p = word_of_nat (length (pk_buffer p))"

definition swap :: "uint8 list \<Rightarrow> Packet \<Rightarrow> Packet \<times> uint8 list" where
  "swap str p =
     (p\<lparr>pk_buffer := str,
        dataSize := ucast ((word_of_nat (length str) :: uint64) - ucast PacketMinSize)\<rparr>,
      pk_buffer p)"

section \<open>Reading\<close>

text \<open>
  One round of the \<open>while (true)\<close> loop of \<open>readFromBuffer\<close>. The loop state is the buffer and
  the local string \<open>data\<close>, which a \<open>continue\<close> after a wrong head byte clears and a wrong end
  byte does not. \<open>msgsize\<close> is computed in 32 bits and stored in 16.
\<close>

definition readFromBuffer_round ::
  "PacketStatics \<Rightarrow> 'b PacketBuffer \<Rightarrow> 'b \<times> uint8 list \<Rightarrow>
    (('b \<times> uint8 list) + (int \<times> 'b \<times> uint8 list)) option"
where
  "readFromBuffer_round st ops = (\<lambda>(b, data).
     let sz = readSize_op ops b
     in if sz < ucast PacketMinSize then Some (Inr (-1, b, data))
        else
          do {
            (_, data) \<leftarrow> readBufferN_op ops data 3 b;
            h \<leftarrow> index_at data 0;
            if h \<noteq> HeadByte st
            then Some (Inl (snd (clearBufferN_op ops 1 b), []))
            else
              do {
                dataSize \<leftarrow> UnpackNum (Mode st) (drop 1 data);
                let msgsize = (ucast (ucast (dataSize :: uint16) + PacketMinSize) :: uint16);
                if sz < ucast msgsize then Some (Inr (-1, b, data))
                else
                  do {
                    let b = snd (clearBufferN_op ops 3 b);
                    (_, data) \<leftarrow> readBufferN_op ops data (ucast dataSize + 1) b;
                    e \<leftarrow> index_at data (length data - 1);
                    if e = EndByte st
                    then Some (Inr (0, snd (clearBufferN_op ops (ucast dataSize + 1) b), data))
                    else Some (Inl (b, data))
                  }
              }
          })"

definition readFromBuffer ::
  "PacketStatics \<Rightarrow> 'b PacketBuffer \<Rightarrow> 'b \<Rightarrow> Packet \<Rightarrow> (int \<times> 'b \<times> Packet) option"
where
  "readFromBuffer st ops b out =
     (case endless (readFromBuffer_round st ops) (b, []) of
        None \<Rightarrow> None
      | Some (r, b', data) \<Rightarrow>
          Some (r, b', if r = 0 then fst (swap data out) else out))"

section \<open>Byte order\<close>

lemma length_pack_be [simp]: "length (pack_be n num) = n"
  by (induction n num rule: pack_be.induct) auto

lemma length_pack_le [simp]: "length (pack_le n num) = n"
  by (induction n num rule: pack_le.induct) auto

lemma length_PackNum [simp]: "length (PackNum mode (num :: 'a::len word)) = LENGTH('a) div 8"
  by (simp add: PackNum_def split: DataMode.split)

lemma pack_be_rev: "pack_be n num = rev (pack_le n num)"
  by (induction n num rule: pack_be.induct) auto

lemma unpack_bytes_append: "unpack_bytes (xs @ ys) num = unpack_bytes ys (unpack_bytes xs num)"
  by (induction xs arbitrary: num) auto

lemma low_byte: "(ucast (ucast (num AND 0xff :: 'a::len word) :: uint8) :: 'a word) = take_bit 8 num"
proof -
  have "num AND 0xff = take_bit 8 num"
    by (simp add: take_bit_eq_mask mask_eq_exp_minus_1)
  then show ?thesis by (auto intro!: bit_word_eqI simp: bit_simps)
qed

lemma unpack_pack_le:
  "unpack_bytes (rev (pack_le n (num :: 'a::len word))) 0 = take_bit (8 * n) num"
proof (induction n arbitrary: num)
  case (Suc n)
  have "unpack_bytes (rev (pack_le (Suc n) num)) 0
      = push_bit 8 (take_bit (8 * n) (drop_bit 8 num)) OR take_bit 8 num"
    by (simp add: unpack_bytes_append Suc low_byte)
  also have "\<dots> = take_bit (8 * Suc n) num"
    by (rule bit_word_eqI) (auto simp: bit_simps)
  finally show ?case .
qed simp


lemma unpack_pack:
  assumes "8 * (LENGTH('a::len) div 8) = LENGTH('a)"
  shows "UnpackNum mode (PackNum mode (num :: 'a word) @ rest) = Some num"
  using unpack_pack_le [of "LENGTH('a) div 8" num] assms
  by (cases mode) (simp_all add: UnpackNum_def PackNum_def pack_be_rev copy_from_def)

section \<open>Frames\<close>

text \<open>The wire format of the header comment: head, size, data, end.\<close>

definition frame :: "PacketStatics \<Rightarrow> uint8 list \<Rightarrow> uint8 list" where
  "frame st d = HeadByte st # PackNum (Mode st) (word_of_nat (length d) :: uint16) @ d @ [EndByte st]"

lemma length_frame [simp]: "length (frame st d) = length d + 4"
  by (simp add: frame_def)

lemma pack_frame:
  assumes "length d < 2 ^ 16"
  shows "pack st d (word_of_nat (length d)) p
    = Some (p\<lparr>dataSize := word_of_nat (length d), pk_buffer := frame st d\<rparr>)"
proof -
  define n :: uint16 where "n = word_of_nat (length d)"
  define buf where "buf = resize (unat (ucast n + PacketMinSize)) (pk_buffer p)"
  have n: "unat n = length d" using assms by (simp add: n_def)
  then have len: "length buf = length d + 4"
    using assms by (simp add: buf_def PacketMinSize_def unat_word_ariths)
  have 1: "copy_to buf 0 [HeadByte st] = Some ([HeadByte st] @ drop 1 buf)"
    using len copy_after [of "[]" 0 "[HeadByte st]" buf] by simp
  have 2: "copy_to ([HeadByte st] @ drop 1 buf) 1 (PackNum (Mode st) n)
      = Some ((HeadByte st # PackNum (Mode st) n) @ drop 3 buf)"
    using len copy_after [of "[HeadByte st]" 1 "PackNum (Mode st) n" "drop 1 buf"] by simp
  have 3: "copy_to ((HeadByte st # PackNum (Mode st) n) @ drop 3 buf) 3 d
      = Some ((HeadByte st # PackNum (Mode st) n @ d) @ drop (length d + 3) buf)"
    using len copy_after [of "HeadByte st # PackNum (Mode st) n" 3 d "drop 3 buf"] by simp
  have 4: "copy_to ((HeadByte st # PackNum (Mode st) n @ d) @ drop (length d + 3) buf)
      (length d + 3) [EndByte st] = Some (frame st d)"
    using len copy_after [of "HeadByte st # PackNum (Mode st) n @ d" "length d + 3" "[EndByte st]"
        "drop (length d + 3) buf"]
    by (simp add: frame_def n_def)
  show ?thesis
    unfolding pack_def Let_def buf_def [symmetric] n_def [symmetric] 1 Option.bind.bind_lunit 2
    using n len 3 4 by (simp add: copy_from_def frame_def flip: n_def)
qed

section \<open>The reader on a sequence of bytes\<close>

text \<open>
  The reader as a function of the buffered bytes: what one round does to the bytes and to
  \<open>data\<close>, and the loop, which ends because every round that goes on drops a byte.
\<close>

definition size_field :: "PacketStatics \<Rightarrow> uint8 list \<Rightarrow> uint16" where
  "size_field st data = (case UnpackNum (Mode st) (drop 1 data) of Some w \<Rightarrow> w | None \<Rightarrow> 0)"

definition bytes_round ::
  "PacketStatics \<Rightarrow> uint8 list \<times> uint8 list \<Rightarrow>
    (uint8 list \<times> uint8 list) + (int \<times> uint8 list \<times> uint8 list)"
where
  "bytes_round st = (\<lambda>(c, data).
     if length c < 4 then Inr (-1, c, data)
     else
       let data1 = data @ take 3 c; n = unat (size_field st data1); c1 = drop 3 c;
           data2 = (if n + 1 \<le> length c1 then data1 @ take (n + 1) c1 else data1)
       in if hd data1 \<noteq> HeadByte st then Inl (drop 1 c, [])
          else if length c < (n + 4) mod 2 ^ 16 then Inr (-1, c, data1)
          else if last data2 = EndByte st then Inr (0, drop (n + 1) c1, data2)
          else Inl (c1, data2))"

lemma bytes_round_shrinks: "bytes_round st (c, data) = Inl (c', data') \<Longrightarrow> length c' < length c"
  by (auto simp: bytes_round_def Let_def split: if_splits)

function bytes_reader ::
  "PacketStatics \<Rightarrow> uint8 list \<times> uint8 list \<Rightarrow> int \<times> uint8 list \<times> uint8 list" where
  "bytes_reader st s = (case bytes_round st s of Inl s' \<Rightarrow> bytes_reader st s' | Inr r \<Rightarrow> r)"
  by pat_completeness auto
termination
  by (relation "measure (\<lambda>(st, s). length (fst s))") (auto dest: bytes_round_shrinks)

declare bytes_reader.simps [simp del]

lemma bytes_round_suffix:
  "case bytes_round st (c, data) of
     Inl (c', _) \<Rightarrow> suffix c' c
   | Inr (r, c', _) \<Rightarrow> (r = 0 \<or> r = -1) \<and> suffix c' c"
  by (auto simp: bytes_round_def Let_def suffix_drop)

lemma bytes_reader_result:
  "case bytes_reader st (c, data) of (r, c', _) \<Rightarrow> (r = 0 \<or> r = -1) \<and> suffix c' c"
proof (induction "length c" arbitrary: c data rule: less_induct)
  case less
  show ?case
  proof (cases "bytes_round st (c, data)")
    case (Inl s)
    obtain c' data' where s: "s = (c', data')" by (cases s)
    from less [OF bytes_round_shrinks [OF Inl [unfolded s]], of data'] bytes_round_suffix [where st = st and c = c and data = data]
    show ?thesis
      by (auto simp: bytes_reader.simps [of st "(c, data)"] Inl s split: prod.splits
          dest: suffix_order.trans)
  next
    case (Inr r)
    with bytes_round_suffix [where st = st and c = c and data = data] show ?thesis
      by (auto simp: bytes_reader.simps [of st "(c, data)"] split: prod.splits)
  qed
qed

text \<open>
  The bound that keeps \<open>data\<close> below \<open>INT_MAX\<close>: a round takes three bytes from the buffer and
  adds at most \<open>65539\<close> to \<open>data\<close>.
\<close>

definition read_bound :: "uint8 list \<times> uint8 list \<Rightarrow> bool" where
  "read_bound = (\<lambda>(c, data). 65539 * length c + 3 * length data < 3 * 2 ^ 31)"

lemma bytes_round_bound:
  "bytes_round st (c, data) = Inl (c', data') \<Longrightarrow> read_bound (c, data) \<Longrightarrow> read_bound (c', data')"
  using unat16_bound [of "size_field st (data @ take 3 c)"]
  by (auto simp: bytes_round_def read_bound_def Let_def split: if_splits)

lemma UnpackNum_size_field:
  "3 \<le> length data \<Longrightarrow> UnpackNum (Mode st) (drop 1 data) = Some (size_field st data)"
  by (auto simp: size_field_def UnpackNum_def split: DataMode.splits)

text \<open>A reader: a buffer that keeps its contract, and the packet settings in force.\<close>

locale packet_reader = packet_buffer + fixes st :: PacketStatics
begin

lemma round_refines:
  assumes v: "valid b" and bound: "read_bound (contents b, data)"
  shows "\<exists>x. readFromBuffer_round st ops (b, data) = Some x \<and>
    (case x of
       Inl (b', d') \<Rightarrow> valid b' \<and> bytes_round st (contents b, data) = Inl (contents b', d')
     | Inr (r, b', d') \<Rightarrow> valid b' \<and> bytes_round st (contents b, data) = Inr (r, contents b', d'))"
proof (cases "length (contents b) < 4")
  case True
  with v unat_readSize [OF v] show ?thesis
    by (simp add: readFromBuffer_round_def bytes_round_def PacketMinSize_def less64)
next
  case False
  let ?c = "contents b"
  define data1 where "data1 = data @ take 3 ?c"
  define ds where "ds = size_field st data1"
  from False have big: "\<not> readSize_op ops b < ucast PacketMinSize"
    using unat_readSize [OF v] by (simp add: PacketMinSize_def less64)
  have rd: "readBufferN_op ops data 3 b = Some (0, data1)"
    using read_law [OF v, of data 3] False bound by (simp add: read_bound_def data1_def)
  have len1: "length data1 = length data + 3" "data1 \<noteq> []"
    using False by (auto simp: data1_def)
  then have h: "index_at data1 0 = Some (hd data1)"
    by (simp add: index_at_def hd_conv_nth)
  have n: "UnpackNum (Mode st) (drop (Suc 0) data1) = Some ds"
    using UnpackNum_size_field [of data1 st] len1 by (simp add: ds_def)
  have msg: "unat (ucast (ucast ds + PacketMinSize :: uint32) :: uint16)
      = (unat ds + 4) mod 2 ^ 16"
    using unat16_bound [of ds]
    by (simp add: PacketMinSize_def unat_word_ariths unsigned_ucast_eq take_bit_eq_mod)
  have len: "unat (ucast ds + 1 :: uint64) = unat ds + 1"
    using unat16_bound [of ds] by (simp add: uv_arith)
  obtain b1 where b1: "clearBufferN_op ops 3 b = (0, b1)" "valid b1" "contents b1 = drop 3 ?c"
    using clearN_law [OF v, of 3] by auto
  obtain b0 where b0: "clearBufferN_op ops 1 b = (0, b0)" "valid b0" "contents b0 = drop 1 ?c"
    using clearN_law [OF v, of 1] by auto
  obtain b2 where b2: "clearBufferN_op ops (ucast ds + 1) b1 = (0, b2)" "valid b2"
      "contents b2 = drop (unat ds + 1) (drop 3 ?c)"
    using clearN_law [OF b1(2), of "ucast ds + 1"] unfolding b1(3) len by blast
  define data2 where "data2 = (if unat ds + 1 \<le> length (drop 3 ?c)
      then data1 @ take (unat ds + 1) (drop 3 ?c) else data1)"
  have "\<exists>r2. readBufferN_op ops data1 (ucast ds + 1) b1 = Some (r2, data2)"
    using read_law [OF b1(2), of data1 "ucast ds + 1"]
      read_short_law [OF b1(2), of "ucast ds + 1" data1] bound False unat16_bound [of ds]
    by (cases "unat ds + 1 \<le> length (drop 3 ?c)")
      (auto simp: data2_def b1(3) len read_bound_def len1)
  then obtain r2 where rd2: "readBufferN_op ops data1 (ucast ds + 1) b1 = Some (r2, data2)" ..
  have "data2 \<noteq> []" using len1 by (auto simp: data2_def)
  then have e: "index_at data2 (length data2 - Suc 0) = Some (last data2)"
    by (simp add: index_at_def last_conv_nth)
  have "bytes_round st (?c, data) =
      (if hd data1 \<noteq> HeadByte st then Inl (drop 1 ?c, [])
       else if length ?c < (unat ds + 4) mod 2 ^ 16 then Inr (-1, ?c, data1)
       else if last data2 = EndByte st then Inr (0, drop (unat ds + 1) (drop 3 ?c), data2)
       else Inl (drop 3 ?c, data2))"
    using False by (simp add: bytes_round_def Let_def data2_def ds_def data1_def)
  moreover have "readFromBuffer_round st ops (b, data) =
      (if hd data1 \<noteq> HeadByte st then Some (Inl (b0, []))
       else if length ?c < (unat ds + 4) mod 2 ^ 16 then Some (Inr (-1, b, data1))
       else if last data2 = EndByte st then Some (Inr (0, b2, data2))
       else Some (Inl (b1, data2)))"
    using big b0(1) b1(1) b2(1)
    by (simp add: readFromBuffer_round_def Let_def rd h n unat_readSize [OF v] msg rd2 e less64
        del: less_not_sym)
  ultimately show ?thesis
    using v b0 b1 b2 by simp
qed

text \<open>The loop on the buffer computes the loop on the bytes; in particular it ends.\<close>

lemma loop_refines:
  assumes "valid b" and "read_bound (contents b, data)"
  shows "\<exists>r b' d'. endless (readFromBuffer_round st ops) (b, data) = Some (r, b', d')
    \<and> valid b' \<and> bytes_reader st (contents b, data) = (r, contents b', d')"
  using assms
proof (induction "length (contents b)" arbitrary: b data rule: less_induct)
  case less
  from round_refines [OF less.prems] obtain x
    where x: "readFromBuffer_round st ops (b, data) = Some x" and sim: "case x of
       Inl (b', d') \<Rightarrow> valid b' \<and> bytes_round st (contents b, data) = Inl (contents b', d')
     | Inr (r, b', d') \<Rightarrow> valid b' \<and> bytes_round st (contents b, data) = Inr (r, contents b', d')"
    by blast
  show ?case
  proof (cases x)
    case (Inr y)
    with x sim show ?thesis
      by (cases y) (auto simp: endless_stop bytes_reader.simps [of st "(contents b, data)"])
  next
    case (Inl y)
    obtain b' d' where y: "y = (b', d')" by (cases y)
    with sim Inl have s: "valid b'" "bytes_round st (contents b, data) = Inl (contents b', d')"
      by auto
    from less.hyps [OF bytes_round_shrinks [OF s(2)] s(1) bytes_round_bound [OF s(2) less.prems(2)]]
    show ?thesis
      using x s(2) Inl y
      by (simp add: endless_again bytes_reader.simps [of st "(contents b, data)"])
  qed
qed

lemma readFromBuffer_refines:
  assumes "valid b" and "65539 * length (contents b) < 3 * 2 ^ 31"
  shows "\<exists>r b' d. readFromBuffer st ops b out =
      Some (r, b', if r = 0 then fst (swap d out) else out)
    \<and> valid b' \<and> bytes_reader st (contents b, []) = (r, contents b', d)"
  using loop_refines [OF assms(1), of "[]"] assms(2)
  by (auto simp: readFromBuffer_def read_bound_def)

end

section \<open>What the reader finds\<close>

lemma size_field_frame:
  "length d < 2 ^ 16 \<Longrightarrow> size_field st (take 3 (frame st d @ rest)) = word_of_nat (length d)"
proof -
  have "take 3 (frame st d @ rest)
      = HeadByte st # PackNum (Mode st) (word_of_nat (length d) :: uint16) @ []"
    by (simp add: frame_def)
  then show ?thesis
    using unpack_pack [where 'a = 16, of "Mode st" "word_of_nat (length d)" "[]"]
    by (simp add: size_field_def)
qed

lemma hd_frame: "hd (frame st d) = HeadByte st"
  by (simp add: frame_def)

text \<open>A complete frame at the front is read whole.\<close>

lemma bytes_reader_frame:
  assumes "length d < 65532"
  shows "bytes_reader st (frame st d @ rest, []) = (0, rest, frame st d)"
proof -
  let ?n = "word_of_nat (length d) :: uint16"
  have n: "unat ?n = length d" using assms by simp
  have h: "take 3 (frame st d @ rest) = take 3 (frame st d)" by simp
  have parts: "take 3 (frame st d) @ take (length d + 1) (drop 3 (frame st d)) = frame st d"
    by (simp add: take_add [symmetric] add.commute)
  have f: "size_field st (take 3 (frame st d)) = ?n" "hd (take 3 (frame st d)) = HeadByte st"
      "last (frame st d) = EndByte st"
    using size_field_frame [of d st "[]"] assms by (auto simp: frame_def)
  have "bytes_round st (frame st d @ rest, []) = Inr (0, rest, frame st d)"
    using assms f parts by (simp add: bytes_round_def Let_def n)
  then show ?thesis by (simp add: bytes_reader.simps)
qed

text \<open>Bytes that are no head byte are dropped.\<close>

lemma bytes_reader_skip:
  assumes "x \<noteq> HeadByte st" and "4 \<le> length (x # c)"
  shows "bytes_reader st (x # c, []) = bytes_reader st (c, [])"
proof -
  have "bytes_round st (x # c, []) = Inl (c, [])"
    using assms by (simp add: bytes_round_def Let_def take_Cons')
  then show ?thesis by (subst bytes_reader.simps) simp
qed

lemma bytes_reader_junk:
  assumes "HeadByte st \<notin> set junk" and "4 \<le> length c"
  shows "bytes_reader st (junk @ c, []) = bytes_reader st (c, [])"
  using assms by (induction junk) (auto simp: bytes_reader_skip)

text \<open>A frame that has not arrived completely is left in the buffer.\<close>

lemma bytes_reader_incomplete:
  assumes "length d < 65532" and "strict_prefix c (frame st d)"
  shows "\<exists>data. bytes_reader st (c, []) = (-1, c, data)"
proof (cases "length c < 4")
  case True
  then show ?thesis by (subst bytes_reader.simps) (simp add: bytes_round_def)
next
  case False
  from assms(2) obtain zs where zs: "frame st d = c @ zs" "zs \<noteq> []"
    by (auto simp: strict_prefix_def prefix_def)
  then have t: "take 3 c = take 3 (frame st d)" and len: "length c < length d + 4"
    using False length_frame [of st d] by (cases zs; auto simp del: length_frame)+
  have f: "size_field st (take 3 (frame st d)) = word_of_nat (length d)"
      "hd (take 3 (frame st d)) = HeadByte st"
    using size_field_frame [of d st "[]"] assms(1) by (auto simp: frame_def)
  then have "bytes_round st (c, []) = Inr (-1, c, take 3 c)"
    using assms(1) False len by (simp add: bytes_round_def Let_def t)
  then show ?thesis by (simp add: bytes_reader.simps)
qed

end
