(* ===== verification/ListBuffer.thy ===== *)
theory ListBuffer
  imports PacketBuffer
begin

text \<open>
  \<open>uv::ListBuffer\<close> (\<open>uv/ListBuffer.cpp\<close>): the buffer as a \<open>std::list<uint8_t>\<close>, here a list of
  bytes. The loops over single bytes are recursions; each is shown to be the list operation it
  stands for, and the class is shown to satisfy the contract of \<open>PacketBuffer\<close>.
\<close>

record ListBuffer =
  lb_buffer :: "uint8 list"

definition ListBuffer_init :: ListBuffer where
  "ListBuffer_init = \<lparr>lb_buffer = []\<rparr>"

fun push_back_all :: "uint8 list \<Rightarrow> uint8 list \<Rightarrow> uint8 list" where
  "push_back_all [] buf = buf"
| "push_back_all (d # ds) buf = push_back_all ds (buf @ [d])"

definition lb_append :: "uint8 list \<Rightarrow> ListBuffer \<Rightarrow> (int \<times> ListBuffer) option" where
  "lb_append data b = Some (0, b\<lparr>lb_buffer := push_back_all data (lb_buffer b)\<rparr>)"

text \<open>
  The loop of \<open>readBufferN\<close> appends the byte at the iterator and moves the iterator on, \<open>N\<close>
  times; dereferencing the end iterator is undefined.
\<close>

fun read_bytes :: "nat \<Rightarrow> uint8 list \<Rightarrow> uint8 list \<Rightarrow> uint8 list option" where
  "read_bytes 0 it data = Some data"
| "read_bytes (Suc n) [] data = None"
| "read_bytes (Suc n) (x # it) data = read_bytes n it (data @ [x])"

definition lb_readSize :: "ListBuffer \<Rightarrow> uint64" where
  "lb_readSize b = word_of_nat (length (lb_buffer b))"

definition lb_readBufferN ::
  "uint8 list \<Rightarrow> uint64 \<Rightarrow> ListBuffer \<Rightarrow> (int \<times> uint8 list) option" where
  "lb_readBufferN data n b =
     (if n > word_of_nat (length (lb_buffer b)) then Some (-1, data)
      else map_option (Pair 0) (read_bytes (unat n) (lb_buffer b) data))"

fun pop_fronts :: "nat \<Rightarrow> uint8 list \<Rightarrow> uint8 list" where
  "pop_fronts 0 buf = buf"
| "pop_fronts (Suc n) [] = []"
| "pop_fronts (Suc n) (x # buf) = pop_fronts n buf"

definition lb_clearBufferN :: "uint64 \<Rightarrow> ListBuffer \<Rightarrow> int \<times> ListBuffer" where
  "lb_clearBufferN n b = (0, b\<lparr>lb_buffer := pop_fronts (unat n) (lb_buffer b)\<rparr>)"

definition lb_clear :: "ListBuffer \<Rightarrow> int \<times> ListBuffer" where
  "lb_clear b = (0, b\<lparr>lb_buffer := []\<rparr>)"

definition ListBuffer_ops :: "ListBuffer PacketBuffer" where
  "ListBuffer_ops = \<lparr>append_op = lb_append, readBufferN_op = lb_readBufferN,
     clearBufferN_op = lb_clearBufferN, clear_op = lb_clear, readSize_op = lb_readSize\<rparr>"

section \<open>The loops as list operations\<close>

lemma push_back_all_eq [simp]: "push_back_all ds buf = buf @ ds"
  by (induction ds arbitrary: buf) auto

lemma read_bytes_eq [simp]: "n \<le> length it \<Longrightarrow> read_bytes n it data = Some (data @ take n it)"
  by (induction n it data rule: read_bytes.induct) auto

lemma pop_fronts_eq [simp]: "pop_fronts n buf = drop n buf"
  by (induction n buf rule: pop_fronts.induct) auto

lemmas lb_defs = lb_append_def lb_readBufferN_def lb_clearBufferN_def lb_clear_def lb_readSize_def
  ListBuffer_ops_def

section \<open>The contract\<close>

text \<open>A list's size fits its \<open>size_t\<close>.\<close>

definition lb_valid :: "ListBuffer \<Rightarrow> bool" where
  "lb_valid b \<longleftrightarrow> length (lb_buffer b) < 2 ^ 64"

interpretation list_buf: packet_buffer ListBuffer_ops lb_buffer lb_valid "2 ^ 64 - 1"
  by unfold_locales (auto simp: lb_defs lb_valid_def uv_arith)

end
