(* ===== verification/CycleBuffer.thy ===== *)
theory CycleBuffer
  imports PacketBuffer
begin

text \<open>
  \<open>uv::CycleBuffer\<close> (\<open>uv/CycleBuffer.cpp\<close>, \<open>uv/include/CycleBuffer.hpp\<close>): a ring buffer over
  an array that is allocated with \<open>GlobalConfig::CycleBufferSize\<close> bytes. The indices are 64-bit
  words and every operation reads the global size again, so the size is an argument \<open>cbs\<close>.
  Array accesses are checked (\<open>copy_to\<close>, \<open>copy_from\<close>), so that the lemmas below show that no
  operation leaves the array. The bytes between the two indices, in reading order, are
  \<open>cb_contents\<close>; the operations are shown to satisfy the contract of \<open>PacketBuffer\<close> with
  capacity \<open>cbs - 1\<close>.
\<close>

record CycleBuffer =
  buffer :: "uint8 list"
  writeIndex :: uint64
  readIndex :: uint64

record SizeInfo =
  si_size :: uint64
  part1 :: uint64
  part2 :: uint64

definition CycleBuffer_init :: "uint64 \<Rightarrow> CycleBuffer" where
  "CycleBuffer_init cbs =
     \<lparr>buffer = replicate (unat cbs) 0, writeIndex = 0, readIndex = 0\<rparr>"

definition usableSize :: "uint64 \<Rightarrow> CycleBuffer \<Rightarrow> uint64" where
  "usableSize cbs b =
     (if writeIndex b < readIndex b then readIndex b - writeIndex b - 1
      else cbs + readIndex b - writeIndex b - 1)"

definition usableSizeInfo :: "uint64 \<Rightarrow> CycleBuffer \<Rightarrow> SizeInfo" where
  "usableSizeInfo cbs b =
     (let p1 = (if writeIndex b < readIndex b then readIndex b - writeIndex b - 1
                else if readIndex b = 0 then cbs - writeIndex b - 1
                else cbs - writeIndex b);
          p2 = (if writeIndex b < readIndex b then 0
                else if readIndex b = 0 then 0
                else readIndex b - 1)
      in \<lparr>si_size = p1 + p2, part1 = p1, part2 = p2\<rparr>)"

definition readSizeInfo :: "uint64 \<Rightarrow> CycleBuffer \<Rightarrow> SizeInfo" where
  "readSizeInfo cbs b =
     (let p1 = (if writeIndex b \<ge> readIndex b then writeIndex b - readIndex b
                else cbs - readIndex b);
          p2 = (if writeIndex b \<ge> readIndex b then 0 else writeIndex b)
      in \<lparr>si_size = p1 + p2, part1 = p1, part2 = p2\<rparr>)"

definition cb_readSize :: "uint64 \<Rightarrow> CycleBuffer \<Rightarrow> uint64" where
  "cb_readSize cbs b = si_size (readSizeInfo cbs b)"

definition addWriteIndex :: "uint64 \<Rightarrow> uint64 \<Rightarrow> CycleBuffer \<Rightarrow> int \<times> CycleBuffer" where
  "addWriteIndex cbs sz b =
     (if sz > cbs then (-1, b)
      else let w = writeIndex b + sz;
               w' = (if w \<ge> cbs then w - cbs else w)
           in (0, b\<lparr>writeIndex := w'\<rparr>))"

definition addReadIndex :: "uint64 \<Rightarrow> uint64 \<Rightarrow> CycleBuffer \<Rightarrow> int \<times> CycleBuffer" where
  "addReadIndex cbs sz b =
     (if sz > cbs then (-1, b)
      else let r = readIndex b + sz;
               r' = (if r \<ge> cbs then r - cbs else r)
           in (0, b\<lparr>readIndex := r'\<rparr>))"

definition cb_append :: "uint64 \<Rightarrow> uint8 list \<Rightarrow> CycleBuffer \<Rightarrow> (int \<times> CycleBuffer) option" where
  "cb_append cbs data b =
     (let sz = word_of_nat (length data); info = usableSizeInfo cbs b
      in if si_size info < sz then Some (-1, b)
         else if part1 info \<ge> sz then
           do {
             buf \<leftarrow> copy_to (buffer b) (unat (writeIndex b)) data;
             Some (0, snd (addWriteIndex cbs sz (b\<lparr>buffer := buf\<rparr>)))
           }
         else
           do {
             buf1 \<leftarrow> copy_to (buffer b) (unat (writeIndex b)) (take (unat (part1 info)) data);
             buf2 \<leftarrow> copy_to buf1 0 (drop (unat (part1 info)) data);
             Some (0, snd (addWriteIndex cbs sz (b\<lparr>buffer := buf2\<rparr>)))
           })"

text \<open>
  \<open>start\<close> is the size of \<open>data\<close> converted to \<open>int\<close>; a negative one makes \<open>out += start\<close> point
  before the string. \<open>start + N\<close> is computed in 64 bits.
\<close>

definition cb_readBufferN ::
  "uint64 \<Rightarrow> uint8 list \<Rightarrow> uint64 \<Rightarrow> CycleBuffer \<Rightarrow> (int \<times> uint8 list) option" where
  "cb_readBufferN cbs data n b =
     (let info = readSizeInfo cbs b
      in if n > cb_readSize cbs b then Some (-1, data)
         else
           let start = c_int (length data);
               data' = resize (unat (word_of_int start + n :: uint64)) data
           in if start < 0 then None
              else if n \<le> part1 info then
                do {
                  xs \<leftarrow> copy_from (buffer b) (unat (readIndex b)) (unat n);
                  out \<leftarrow> copy_to data' (nat start) xs;
                  Some (0, out)
                }
              else
                do {
                  xs \<leftarrow> copy_from (buffer b) (unat (readIndex b)) (unat (cbs - readIndex b));
                  out \<leftarrow> copy_to data' (nat start) xs;
                  ys \<leftarrow> copy_from (buffer b) 0 (unat (n - part1 info));
                  out' \<leftarrow> copy_to out (nat start + unat (part1 info)) ys;
                  Some (0, out')
                })"

definition cb_clearBufferN :: "uint64 \<Rightarrow> uint64 \<Rightarrow> CycleBuffer \<Rightarrow> int \<times> CycleBuffer" where
  "cb_clearBufferN cbs n b =
     (let n' = (if n > cb_readSize cbs b then cb_readSize cbs b else n)
      in (0, snd (addReadIndex cbs n' b)))"

definition cb_clear :: "CycleBuffer \<Rightarrow> int \<times> CycleBuffer" where
  "cb_clear b = (0, b\<lparr>writeIndex := 0, readIndex := 0\<rparr>)"

definition CycleBuffer_ops :: "uint64 \<Rightarrow> CycleBuffer PacketBuffer" where
  "CycleBuffer_ops cbs = \<lparr>append_op = cb_append cbs, readBufferN_op = cb_readBufferN cbs,
     clearBufferN_op = cb_clearBufferN cbs, clear_op = cb_clear, readSize_op = cb_readSize cbs\<rparr>"

section \<open>Invariant and abstraction\<close>

text \<open>
  The array has the size the configuration still says, both indices are inside it, and the size
  leaves room for \<open>index + size\<close> in 64 bits.
\<close>

definition cb_valid :: "uint64 \<Rightarrow> CycleBuffer \<Rightarrow> bool" where
  "cb_valid cbs b \<longleftrightarrow> length (buffer b) = unat cbs \<and> unat cbs < 2 ^ 63
     \<and> writeIndex b < cbs \<and> readIndex b < cbs"

definition ring :: "'a list \<Rightarrow> nat \<Rightarrow> nat \<Rightarrow> 'a list" where
  "ring buf r w = (if r \<le> w then take (w - r) (drop r buf) else drop r buf @ take w buf)"

definition cb_contents :: "CycleBuffer \<Rightarrow> uint8 list" where
  "cb_contents b = ring (buffer b) (unat (readIndex b)) (unat (writeIndex b))"

text \<open>The ring over natural indices: sizes, appending after the write index, dropping.\<close>

lemma length_ring:
  "r < length buf \<Longrightarrow> w < length buf \<Longrightarrow>
    length (ring buf r w) = (if r \<le> w then w - r else length buf - r + w)"
  by (simp add: ring_def)

lemma ring_write_flat:
  assumes "r < length buf" and "w < length buf" and "w + length xs \<le> length buf"
    and "w < r \<longrightarrow> w + length xs < r" and "w + length xs = length buf \<longrightarrow> 0 < r"
  shows "ring (take w buf @ xs @ drop (w + length xs) buf) r
      (if length buf \<le> w + length xs then w + length xs - length buf else w + length xs)
    = ring buf r w @ xs"
proof -
  consider "r \<le> w" "w + length xs < length buf" | "r \<le> w" "w + length xs = length buf" "0 < r"
    | "w < r" "w + length xs < r"
    using assms by linarith
  then show ?thesis
  proof cases
    case 1
    then show ?thesis by (simp add: ring_def drop_take)
  next
    case 2
    then show ?thesis by (simp add: ring_def drop_take)
  next
    case 3
    with assms(1) show ?thesis by (simp add: ring_def)
  qed
qed

lemma ring_write_wrap:
  assumes "r \<le> w" and "w < length buf" and "length buf < w + length xs"
    and "w + length xs - length buf < r"
  shows "ring (drop (length buf - w) xs @ drop (w + length xs - length buf)
        (take w buf @ take (length buf - w) xs)) r (w + length xs - length buf)
    = ring buf r w @ xs"
  using assms by (auto simp: ring_def drop_take min_def)

lemma ring_drop:
  assumes "r < length buf" and "w < length buf" and "n \<le> length (ring buf r w)"
  shows "ring buf (if length buf \<le> r + n then r + n - length buf else r + n) w
    = drop n (ring buf r w)"
  using assms by (auto simp: ring_def drop_take add.commute)

section \<open>Sizes\<close>

lemma cb_validD:
  assumes "cb_valid cbs b"
  shows "length (buffer b) = unat cbs" "unat cbs < 2 ^ 63"
    "unat (writeIndex b) < unat cbs" "unat (readIndex b) < unat cbs"
  using assms by (simp_all add: cb_valid_def uv_arith)

lemma usable_parts:
  assumes "cb_valid cbs b"
  shows "unat (part1 (usableSizeInfo cbs b)) =
      (if unat (writeIndex b) < unat (readIndex b) then unat (readIndex b) - unat (writeIndex b) - 1
       else if unat (readIndex b) = 0 then unat cbs - unat (writeIndex b) - 1
       else unat cbs - unat (writeIndex b))"
    and "unat (part2 (usableSizeInfo cbs b)) =
      (if unat (writeIndex b) < unat (readIndex b) then 0 else unat (readIndex b) - 1)"
  using cb_validD [OF assms]
  by (auto simp: usableSizeInfo_def Let_def uv_arith unat_minus_one unat_eq_zero)

lemma usable_size:
  assumes "cb_valid cbs b"
  shows "unat (si_size (usableSizeInfo cbs b)) = unat cbs - 1 - length (cb_contents b)"
proof -
  have "si_size (usableSizeInfo cbs b) = part1 (usableSizeInfo cbs b) + part2 (usableSizeInfo cbs b)"
    by (simp add: usableSizeInfo_def Let_def)
  then show ?thesis
    using usable_parts [OF assms] cb_validD [OF assms]
    by (auto simp: uv_arith cb_contents_def length_ring split: if_splits)
qed

lemma read_parts:
  assumes "cb_valid cbs b"
  shows "unat (part1 (readSizeInfo cbs b)) =
      (if unat (readIndex b) \<le> unat (writeIndex b) then unat (writeIndex b) - unat (readIndex b)
       else unat cbs - unat (readIndex b))"
    and "unat (part2 (readSizeInfo cbs b)) =
      (if unat (readIndex b) \<le> unat (writeIndex b) then 0 else unat (writeIndex b))"
  using cb_validD [OF assms] by (auto simp: readSizeInfo_def Let_def uv_arith)

lemma unat_cb_readSize:
  assumes "cb_valid cbs b"
  shows "unat (cb_readSize cbs b) = length (cb_contents b)"
proof -
  have "cb_readSize cbs b = part1 (readSizeInfo cbs b) + part2 (readSizeInfo cbs b)"
    by (simp add: cb_readSize_def readSizeInfo_def Let_def)
  then show ?thesis
    using read_parts [OF assms] cb_validD [OF assms]
    by (auto simp: uv_arith cb_contents_def length_ring)
qed

lemma cb_contents_bound: "cb_valid cbs b \<Longrightarrow> length (cb_contents b) \<le> unat cbs - 1"
  using cb_validD [of cbs b] by (auto simp: cb_contents_def length_ring)

text \<open>Moving an index by at most a whole turn.\<close>

lemma wrapped_index:
  assumes "unat cbs < 2 ^ 63" and "unat i < unat cbs" and "unat n \<le> unat cbs"
  shows "unat (if i + n \<ge> cbs then i + n - cbs else (i + n :: uint64)) =
    (if unat cbs \<le> unat i + unat n then unat i + unat n - unat cbs else unat i + unat n)"
  using assms by (simp add: uv_arith)

lemma addWriteIndex_nat:
  assumes "cb_valid cbs b" and "unat sz \<le> unat cbs"
  shows "unat (writeIndex (snd (addWriteIndex cbs sz b))) =
      (if unat cbs \<le> unat (writeIndex b) + unat sz
       then unat (writeIndex b) + unat sz - unat cbs else unat (writeIndex b) + unat sz)"
    and "buffer (snd (addWriteIndex cbs sz b)) = buffer b"
    and "readIndex (snd (addWriteIndex cbs sz b)) = readIndex b"
  using wrapped_index [of cbs "writeIndex b" sz] cb_validD [OF assms(1)] assms(2)
  by (simp_all add: addWriteIndex_def Let_def le64 less64)

lemma addReadIndex_nat:
  assumes "cb_valid cbs b" and "unat sz \<le> unat cbs"
  shows "unat (readIndex (snd (addReadIndex cbs sz b))) =
      (if unat cbs \<le> unat (readIndex b) + unat sz
       then unat (readIndex b) + unat sz - unat cbs else unat (readIndex b) + unat sz)"
    and "buffer (snd (addReadIndex cbs sz b)) = buffer b"
    and "writeIndex (snd (addReadIndex cbs sz b)) = writeIndex b"
  using wrapped_index [of cbs "readIndex b" sz] cb_validD [OF assms(1)] assms(2)
  by (simp_all add: addReadIndex_def Let_def le64 less64)

lemma addIndex_valid:
  assumes "cb_valid cbs b" and "unat sz \<le> unat cbs"
  shows "cb_valid cbs (snd (addWriteIndex cbs sz b))" and "cb_valid cbs (snd (addReadIndex cbs sz b))"
  using addWriteIndex_nat [OF assms] addReadIndex_nat [OF assms] cb_validD [OF assms(1)] assms(2)
  by (auto simp: cb_valid_def less64)

lemma cb_valid_buffer:
  "cb_valid cbs b \<Longrightarrow> length buf = length (buffer b) \<Longrightarrow> cb_valid cbs (b\<lparr>buffer := buf\<rparr>)"
  by (simp add: cb_valid_def)

section \<open>The operations on the contents\<close>

text \<open>
  \<open>append\<close> in the two shapes its write takes: one block after the write index, or a block up to
  the end of the array and the rest at its start.
\<close>

lemma append_flat:
  assumes v: "cb_valid cbs b" and sz: "unat sz = length xs" and "unat sz \<le> unat cbs"
    and "unat (writeIndex b) + length xs \<le> unat cbs"
    and "unat (writeIndex b) < unat (readIndex b) \<longrightarrow>
      unat (writeIndex b) + length xs < unat (readIndex b)"
    and "unat (writeIndex b) + length xs = unat cbs \<longrightarrow> 0 < unat (readIndex b)"
  defines "buf \<equiv> take (unat (writeIndex b)) (buffer b) @ xs
      @ drop (unat (writeIndex b) + length xs) (buffer b)"
  defines "b' \<equiv> snd (addWriteIndex cbs sz (b\<lparr>buffer := buf\<rparr>))"
  shows "copy_to (buffer b) (unat (writeIndex b)) xs = Some buf"
    and "cb_valid cbs b'" and "cb_contents b' = cb_contents b @ xs"
proof -
  note d = cb_validD [OF v]
  show "copy_to (buffer b) (unat (writeIndex b)) xs = Some buf"
    using assms d by (simp add: buf_def)
  have v1: "cb_valid cbs (b\<lparr>buffer := buf\<rparr>)"
    by (rule cb_valid_buffer [OF v]) (use assms d in \<open>simp add: buf_def\<close>)
  show "cb_valid cbs b'"
    unfolding b'_def by (rule addIndex_valid(1) [OF v1 assms(3)])
  show "cb_contents b' = cb_contents b @ xs"
    using addWriteIndex_nat [OF v1 assms(3)] assms(2,4,5,6) d
      ring_write_flat [of "unat (readIndex b)" "buffer b" "unat (writeIndex b)" xs, folded buf_def]
    by (auto simp: cb_contents_def simp flip: b'_def split: if_splits)
qed

lemma append_wrap:
  assumes v: "cb_valid cbs b" and sz: "unat sz = length xs" and "unat sz \<le> unat cbs"
    and n: "n = unat cbs - unat (writeIndex b)" "n < length xs"
    and "unat (readIndex b) \<le> unat (writeIndex b)"
    and "unat (writeIndex b) + length xs - unat cbs < unat (readIndex b)"
  defines "buf \<equiv> drop n xs @ drop (length xs - n)
      (take (unat (writeIndex b)) (buffer b) @ take n xs)"
  defines "b' \<equiv> snd (addWriteIndex cbs sz (b\<lparr>buffer := buf\<rparr>))"
  shows "do { buf1 \<leftarrow> copy_to (buffer b) (unat (writeIndex b)) (take n xs);
      copy_to buf1 0 (drop n xs) } = Some buf"
    and "cb_valid cbs b'" and "cb_contents b' = cb_contents b @ xs"
proof -
  note d = cb_validD [OF v]
  show "do { buf1 \<leftarrow> copy_to (buffer b) (unat (writeIndex b)) (take n xs);
      copy_to buf1 0 (drop n xs) } = Some buf"
    using assms d by (simp add: buf_def)
  have v1: "cb_valid cbs (b\<lparr>buffer := buf\<rparr>)"
    by (rule cb_valid_buffer [OF v]) (use assms d in \<open>simp add: buf_def\<close>)
  show "cb_valid cbs b'"
    unfolding b'_def by (rule addIndex_valid(1) [OF v1 assms(3)])
  show "cb_contents b' = cb_contents b @ xs"
  proof -
    have "length xs - n = unat (writeIndex b) + length xs - length (buffer b)"
      and "n = length (buffer b) - unat (writeIndex b)"
      using n d by auto
    then have "ring buf (unat (readIndex b)) (unat (writeIndex b) + length xs - unat cbs)
        = cb_contents b @ xs"
      using ring_write_wrap [of "unat (readIndex b)" "unat (writeIndex b)" "buffer b" xs]
        assms(6,7) n d by (simp add: buf_def cb_contents_def)
    moreover have "unat (writeIndex b') = unat (writeIndex b) + length xs - unat cbs"
      and "buffer b' = buf" and "readIndex b' = readIndex b"
      using addWriteIndex_nat [OF v1 assms(3)] sz n d by (auto simp: b'_def)
    ultimately show ?thesis by (simp add: cb_contents_def)
  qed
qed

lemma append_room:
  assumes v: "cb_valid cbs b" and room: "length (cb_contents b) + length xs \<le> unat cbs - 1"
  shows "\<exists>b'. cb_append cbs xs b = Some (0, b') \<and> cb_valid cbs b'
    \<and> cb_contents b' = cb_contents b @ xs"
proof -
  note d = cb_validD [OF v] and p = usable_parts [OF v]
  define sz :: uint64 where "sz = word_of_nat (length xs)"
  have sz: "unat sz = length xs" "unat sz \<le> unat cbs"
    using room d by (simp_all add: sz_def)
  have fits: "\<not> si_size (usableSizeInfo cbs b) < sz"
    using room usable_size [OF v] d sz by (simp add: less64)
  have len: "length (cb_contents b) = (if unat (readIndex b) \<le> unat (writeIndex b)
      then unat (writeIndex b) - unat (readIndex b)
      else unat cbs - unat (readIndex b) + unat (writeIndex b))"
    using d by (simp add: cb_contents_def length_ring)
  show ?thesis
  proof (cases "part1 (usableSizeInfo cbs b) \<ge> sz")
    case True
    have "copy_to (buffer b) (unat (writeIndex b)) xs = Some buf \<and> cb_valid cbs b'
        \<and> cb_contents b' = cb_contents b @ xs"
      if "buf = take (unat (writeIndex b)) (buffer b) @ xs
          @ drop (unat (writeIndex b) + length xs) (buffer b)"
        and "b' = snd (addWriteIndex cbs sz (b\<lparr>buffer := buf\<rparr>))" for buf b'
      unfolding that using append_flat [OF v sz] True len room d p sz
      by (auto simp: le64 split: if_splits)
    with fits True show ?thesis
      by (simp add: cb_append_def Let_def flip: sz_def)
  next
    case False
    then have n: "unat (part1 (usableSizeInfo cbs b)) = unat cbs - unat (writeIndex b)"
      using d p sz len room by (auto simp: le64 split: if_splits)
    have r: "unat (readIndex b) \<le> unat (writeIndex b)"
      "unat (writeIndex b) + length xs - unat cbs < unat (readIndex b)"
      "unat cbs - unat (writeIndex b) < length xs"
      using False d p sz len room by (auto simp: le64 split: if_splits)
    show ?thesis
      using append_wrap [OF v sz refl r(3) r(1) r(2)] fits False n
      by (auto simp: cb_append_def Let_def bind_eq_Some_conv simp flip: sz_def)
  qed
qed

lemma append_full:
  assumes v: "cb_valid cbs b" and "unat cbs - 1 < length (cb_contents b) + length xs"
    and "length xs < 2 ^ 64"
  shows "cb_append cbs xs b = Some (-1, b)"
proof -
  have "si_size (usableSizeInfo cbs b) < word_of_nat (length xs)"
    using assms usable_size [OF v] cb_contents_bound [OF v] by (simp add: less64)
  then show ?thesis by (simp add: cb_append_def Let_def)
qed

lemma readBufferN_all:
  assumes v: "cb_valid cbs b" and len: "length data + unat n < 2 ^ 31"
    and n: "unat n \<le> length (cb_contents b)"
  shows "cb_readBufferN cbs data n b = Some (0, data @ take (unat n) (cb_contents b))"
proof -
  note d = cb_validD [OF v] and p = read_parts [OF v]
  have ok: "\<not> cb_readSize cbs b < n"
    using n unat_cb_readSize [OF v] by (simp add: less64)
  have "unat (word_of_int (int (length data)) + n :: uint64) = length data + unat n"
    using len by (simp add: uv_arith)
  then have res: "resize (unat (word_of_int (int (length data)) + n :: uint64)) data
      = data @ replicate (unat n) 0"
    by (metis resize_grow)
  show ?thesis
  proof (cases "n \<le> part1 (readSizeInfo cbs b)")
    case True
    then have "unat (readIndex b) + unat n \<le> length (buffer b)"
      and "take (unat n) (drop (unat (readIndex b)) (buffer b)) = take (unat n) (cb_contents b)"
      using p d by (auto simp: le64 cb_contents_def ring_def min_def split: if_splits)
    with True ok res len n show ?thesis
      by (simp add: cb_readBufferN_def Let_def copy_after)
  next
    case False
    then have turn: "unat (part1 (readSizeInfo cbs b)) = unat cbs - unat (readIndex b)"
      "unat (writeIndex b) < unat (readIndex b)" "unat cbs - unat (readIndex b) < unat n"
      using p d n by (auto simp: le64 cb_contents_def length_ring split: if_splits)
    have "unat (cbs - readIndex b) = unat cbs - unat (readIndex b)"
      and "unat (n - part1 (readSizeInfo cbs b)) = unat n - (unat cbs - unat (readIndex b))"
      using d turn by (simp_all add: unat_sub64)
    moreover have "unat n - (unat cbs - unat (readIndex b)) \<le> unat (writeIndex b)"
      using n d turn by (simp add: cb_contents_def length_ring)
    ultimately show ?thesis
      using False ok res len d turn
      by (simp add: cb_readBufferN_def Let_def cb_contents_def ring_def copy_after)
  qed
qed

lemma readBufferN_short:
  assumes "cb_valid cbs b" and "length (cb_contents b) < unat n"
  shows "cb_readBufferN cbs data n b = Some (-1, data)"
  using assms unat_cb_readSize [OF assms(1)] by (simp add: cb_readBufferN_def Let_def less64)

lemma clearBufferN_drop:
  assumes v: "cb_valid cbs b"
  shows "\<exists>b'. cb_clearBufferN cbs n b = (0, b') \<and> cb_valid cbs b'
    \<and> cb_contents b' = drop (unat n) (cb_contents b)"
proof -
  define m where "m = (if n > cb_readSize cbs b then cb_readSize cbs b else n)"
  have m: "unat m = min (unat n) (length (cb_contents b))" "unat m \<le> unat cbs"
    using unat_cb_readSize [OF v] cb_contents_bound [OF v] by (auto simp: m_def less64)
  have "cb_contents (snd (addReadIndex cbs m b)) = drop (unat m) (cb_contents b)"
    using addReadIndex_nat [OF v m(2)] cb_validD [OF v] m(1)
      ring_drop [of "unat (readIndex b)" "buffer b" "unat (writeIndex b)" "unat m"]
    by (auto simp: cb_contents_def)
  also have "\<dots> = drop (unat n) (cb_contents b)"
    using m(1) by (auto simp: min_def)
  finally show ?thesis
    using addIndex_valid(2) [OF v m(2)] by (simp add: cb_clearBufferN_def Let_def flip: m_def)
qed

lemma clear_empty:
  assumes "cb_valid cbs b"
  shows "\<exists>b'. cb_clear b = (0, b') \<and> cb_valid cbs b' \<and> cb_contents b' = []"
  using assms cb_validD [OF assms] by (auto simp: cb_clear_def cb_valid_def cb_contents_def ring_def less64)

lemma CycleBuffer_init_valid:
  assumes "0 < unat cbs" and "unat cbs < 2 ^ 63"
  shows "cb_valid cbs (CycleBuffer_init cbs)" and "cb_contents (CycleBuffer_init cbs) = []"
  using assms by (auto simp: cb_valid_def CycleBuffer_init_def cb_contents_def ring_def less64)

section \<open>The contract\<close>

text \<open>
  For every configured size. (A size of 0 leaves no valid buffer; the laws hold of none.)
\<close>

interpretation cycle_buf: bounded_packet_buffer
  "CycleBuffer_ops cbs" cb_contents "cb_valid cbs" "unat cbs - 1" for cbs
proof unfold_locales
  show "unat cbs - 1 < 2 ^ 64"
    using unat64_bound [of cbs] by linarith
next
  show "readSize_op (CycleBuffer_ops cbs) b = word_of_nat (length (cb_contents b))"
    if "cb_valid cbs b" for b
    by (simp add: CycleBuffer_ops_def flip: unat_cb_readSize [OF that])
qed (simp_all add: CycleBuffer_ops_def cb_contents_bound [unfolded One_nat_def] append_room append_full
    readBufferN_all readBufferN_short clearBufferN_drop clear_empty)

section \<open>Properties\<close>

text \<open>Append writes the whole block behind the stored bytes when it fits and otherwise
  returns -1 and changes nothing; it never writes outside the array and keeps the indices in
  range, on every wrap-around.\<close>

theorem cb_append_correct:
  assumes "cb_valid cbs b" and "length xs < 2 ^ 64"
  shows "\<exists>r b'. cb_append cbs xs b = Some (r, b') \<and> cb_valid cbs b' \<and>
    (if length (cb_contents b) + length xs \<le> unat cbs - 1
     then r = 0 \<and> cb_contents b' = cb_contents b @ xs
     else r = -1 \<and> b' = b)"
proof (cases "length (cb_contents b) + length xs \<le> unat cbs - 1")
  case True
  with append_room [OF assms(1) True] show ?thesis by auto
next
  case False
  with append_full [OF assms(1) _ assms(2)] assms(1) show ?thesis by auto
qed

theorem cb_append_correct_witness:
  "cb_append 8 [4, 5, 6] \<lparr>buffer = [0, 0, 0, 0, 0, 1, 2, 3], writeIndex = 0, readIndex = 5\<rparr>
    = Some (0, \<lparr>buffer = [4, 5, 6, 0, 0, 1, 2, 3], writeIndex = 3, readIndex = 5\<rparr>)
  \<and> (\<exists>r b'. cb_append 8 [4, 5, 6]
      \<lparr>buffer = [0, 0, 0, 0, 0, 1, 2, 3], writeIndex = 0, readIndex = 5\<rparr> = Some (r, b')
      \<and> cb_valid 8 b')"
proof -
  have "cb_valid 8 \<lparr>buffer = [0, 0, 0, 0, 0, 1, 2, 3], writeIndex = 0, readIndex = 5\<rparr>"
    by (simp add: cb_valid_def)
  from cb_append_correct [OF this, of "[4, 5, 6]"] show ?thesis
    by (auto simp: cb_append_def usableSizeInfo_def addWriteIndex_def Let_def copy_to_def)
qed

text \<open>C2: from an empty buffer, every sequence of calls on a cycle buffer is defined (no access
  leaves the array) and returns exactly what a byte queue of capacity \<open>CycleBufferSize - 1\<close>
  returns: status codes, bytes read and sizes.\<close>

theorem cb_refines_queue:
  assumes "0 < unat cbs" and "unat cbs \<le> 2 ^ 31" and "\<forall>c\<in>set cs. call_ok c"
  shows "\<exists>b'. buffer_calls (CycleBuffer_ops cbs) cs (CycleBuffer_init cbs)
      = Some (fst (queue_calls (unat cbs - 1) cs []), b')
    \<and> cb_valid cbs b' \<and> cb_contents b' = snd (queue_calls (unat cbs - 1) cs [])"
proof -
  have v: "cb_valid cbs (CycleBuffer_init cbs)" and c: "cb_contents (CycleBuffer_init cbs) = []"
    using CycleBuffer_init_valid [of cbs] assms(1,2) by auto
  have "unat cbs - 1 < 2 ^ 31" using assms(1,2) by linarith
  from cycle_buf.calls_refine [OF v this assms(3)] c show ?thesis by auto
qed

theorem cb_refines_queue_witness:
  "\<exists>b'. buffer_calls (CycleBuffer_ops 4)
      [AppendCall [1, 2], ClearNCall 1, AppendCall [3, 4], AppendCall [5], ReadCall 3]
      (CycleBuffer_init 4)
    = Some ([Status 0, Status 0, Status 0, Status (-1), Bytes 0 [2, 3, 4]], b')"
  using cb_refines_queue [of 4
    "[AppendCall [1, 2], ClearNCall 1, AppendCall [3, 4], AppendCall [5], ReadCall 3]"]
  by (auto simp: call_ok_def)

text \<open>With \<open>CycleBufferSize\<close> set to 0 the free size wraps around to \<open>2 ^ 64 - 1\<close>, so the
  first append of any data writes outside the empty array.\<close>

theorem cb_zero_size_overrun:
  assumes "xs \<noteq> []"
  shows "usableSize 0 (CycleBuffer_init 0) = 2 ^ 64 - 1
    \<and> cb_append 0 xs (CycleBuffer_init 0) = None"
proof -
  have "usableSize 0 (CycleBuffer_init 0) = 2 ^ 64 - 1"
    by (simp add: usableSize_def CycleBuffer_init_def)
  moreover have "(word_of_nat (length xs) :: uint64) \<le> - 1"
    by simp
  then have "cb_append 0 xs (CycleBuffer_init 0) = None"
    using assms by (simp add: cb_append_def usableSizeInfo_def CycleBuffer_init_def Let_def
        copy_to_def not_less)
  ultimately show ?thesis by blast
qed

theorem cb_zero_size_overrun_witness: "cb_append 0 [7] (CycleBuffer_init 0) = None"
  using cb_zero_size_overrun [of "[7]"] by simp

end
