(* ===== verification/EchoServer.thy ===== *)
theory EchoServer
  imports Packet ListBuffer CycleBuffer
begin

text \<open>
  The message handler of the framed echo server (\<open>examples/pingpang/EchoServer.cpp\<close>), the
  documented way to use \<open>PacketBuffer\<close> and \<open>Packet\<close> together: append what arrived, then echo
  packets until \<open>readPacket\<close> fails. The writes are collected in a list. With the contract of
  the buffer the handler is shown to reassemble a stream of frames that arrives in arbitrary
  pieces.
\<close>

record EchoServer =
  cnt :: uint64

definition EchoServer_new :: EchoServer where
  "EchoServer_new = \<lparr>cnt = 0\<rparr>"

definition Cnt :: "EchoServer \<Rightarrow> uint64" where
  "Cnt server = cnt server"

definition clearCnt :: "EchoServer \<Rightarrow> EchoServer" where
  "clearCnt server = server\<lparr>cnt := 0\<rparr>"

definition newMessage_round ::
  "PacketStatics \<Rightarrow> 'b PacketBuffer \<Rightarrow> 'b \<times> Packet \<times> uint8 list list \<Rightarrow>
    ('b \<times> Packet \<times> uint8 list list + 'b \<times> uint8 list list) option"
where
  "newMessage_round st ops = (\<lambda>(b, packet, out).
     do {
       (r, b, packet) \<leftarrow> readFromBuffer st ops b packet;
       if r = 0 then Some (Inl (b, packet, out @ [Buffer packet]))
       else Some (Inr (b, out))
     })"

text \<open>
  \<open>static_cast<int> (size)\<close> of the received size, read again as \<open>uint64_t\<close> by \<open>append\<close>. A piece of
  2 GiB or more, which turns negative here, is left undefined; libuv reads 64 KiB at a time.
\<close>

definition append_received :: "'b PacketBuffer \<Rightarrow> uint8 list \<Rightarrow> 'b \<Rightarrow> 'b option" where
  "append_received ops buf b =
     (let n = c_int (length buf)
      in if n < 0 then None else map_option snd (append_op ops (take (nat n) buf) b))"

definition newMessage ::
  "BufferMode \<Rightarrow> PacketStatics \<Rightarrow> 'b PacketBuffer \<Rightarrow> 'b option \<Rightarrow> uint8 list \<Rightarrow> EchoServer \<Rightarrow>
    ('b option \<times> uint8 list list \<times> EchoServer) option"
where
  "newMessage mode st ops packetbuf buf server =
     (let server = server\<lparr>cnt := cnt server + 1\<rparr>
      in if mode = NoBuffer then Some (packetbuf, [buf], server)
         else
           (case packetbuf of
              None \<Rightarrow> Some (None, [], server)
            | Some b \<Rightarrow>
                do {
                  b \<leftarrow> append_received ops buf b;
                  (b, out) \<leftarrow> endless (newMessage_round st ops) (b, Packet_init, []);
                  Some (Some b, out, server)
                }))"

text \<open>The handler called once for every piece that arrives; all writes in order.\<close>

fun newMessages ::
  "BufferMode \<Rightarrow> PacketStatics \<Rightarrow> 'b PacketBuffer \<Rightarrow> 'b option \<Rightarrow> uint8 list list \<Rightarrow> EchoServer \<Rightarrow>
    ('b option \<times> uint8 list list \<times> EchoServer) option"
where
  "newMessages mode st ops pb [] server = Some (pb, [], server)"
| "newMessages mode st ops pb (c # cs) server =
     do {
       (pb, out, server) \<leftarrow> newMessage mode st ops pb c server;
       (pb, outs, server) \<leftarrow> newMessages mode st ops pb cs server;
       Some (pb, out @ outs, server)
     }"

section \<open>Frames cut into pieces\<close>

definition part_frame :: "PacketStatics \<Rightarrow> uint8 list \<Rightarrow> bool" where
  "part_frame st ys \<longleftrightarrow> (\<exists>d. length d < 65532 \<and> strict_prefix ys (frame st d))"

abbreviation frames :: "PacketStatics \<Rightarrow> uint8 list list \<Rightarrow> uint8 list" where
  "frames st ds \<equiv> concat (map (frame st) ds)"

lemma frame_not_Nil [simp]: "frame st d \<noteq> []"
  by (simp add: frame_def)

lemma part_frame_Nil [simp]: "part_frame st []"
  unfolding part_frame_def strict_prefix_def by (rule exI [of _ "[]"]) (simp add: frame_def)

lemma frames_Nil_iff: "frames st ds = [] \<longleftrightarrow> ds = []"
  by (cases ds) auto

text \<open>A piece of the stream ends inside a frame or between two.\<close>

lemma split_frames:
  assumes "prefix p (frames st ds)" and "\<forall>d\<in>set ds. length d < 65532"
  shows "\<exists>ds1 ds2 ys. ds = ds1 @ ds2 \<and> p = frames st ds1 @ ys \<and>
    (ys = [] \<or> (\<exists>d ds'. ds2 = d # ds' \<and> strict_prefix ys (frame st d)))"
  using assms
proof (induction ds arbitrary: p)
  case Nil
  then show ?case by simp
next
  case (Cons d ds)
  show ?case
  proof (cases "prefix (frame st d) p")
    case True
    then obtain q where q: "p = frame st d @ q" by (auto simp: prefix_def)
    with Cons.prems(1) have "prefix q (frames st ds)" by simp
    moreover from Cons.prems(2) have "\<forall>d\<in>set ds. length d < 65532" by simp
    ultimately obtain ds1 ds2 ys where
      "ds = ds1 @ ds2" "q = frames st ds1 @ ys"
      "ys = [] \<or> (\<exists>d ds'. ds2 = d # ds' \<and> strict_prefix ys (frame st d))"
      using Cons.IH by blast
    with q show ?thesis
      by (intro exI [of _ "d # ds1"] exI [of _ ds2] exI [of _ ys]) simp
  next
    case False
    with Cons.prems(1) have "strict_prefix p (frame st d)"
      by (auto simp: prefix_append strict_prefix_def)
    then show ?thesis
      by (intro exI [of _ "[]"] exI [of _ "d # ds"] exI [of _ p]) auto
  qed
qed

text \<open>The handler's connection: it has a buffer, so the buffer mode is not \<open>NoBuffer\<close>.\<close>

locale framed_connection = packet_reader + fixes mode :: BufferMode
  assumes buffered: "mode \<noteq> NoBuffer"
begin

lemma newMessage_round_frame:
  assumes "valid b" and "contents b = frame st d @ rest" and "length d < 65532"
    and "65539 * length (contents b) < 3 * 2 ^ 31"
  shows "\<exists>b' p'. newMessage_round st ops (b, p, out) = Some (Inl (b', p', out @ [frame st d]))
    \<and> valid b' \<and> contents b' = rest"
  using readFromBuffer_refines [OF assms(1,4), of p] bytes_reader_frame [OF assms(3), of st rest]
  by (auto simp: newMessage_round_def assms(2) swap_def Buffer_def)

lemma newMessage_round_pending:
  assumes "valid b" and "part_frame st (contents b)"
    and "65539 * length (contents b) < 3 * 2 ^ 31"
  shows "\<exists>b'. newMessage_round st ops (b, p, out) = Some (Inr (b', out))
    \<and> valid b' \<and> contents b' = contents b"
proof -
  from assms(2) obtain d data where "bytes_reader st (contents b, []) = (-1, contents b, data)"
    using bytes_reader_incomplete [of _ "contents b" st] by (auto simp: part_frame_def)
  with readFromBuffer_refines [OF assms(1,3), of p] show ?thesis
    by (auto simp: newMessage_round_def)
qed

lemma drain:
  assumes "valid b" and "contents b = frames st ds @ ys" and "part_frame st ys"
    and "\<forall>d\<in>set ds. length d < 65532" and "65539 * length (contents b) < 3 * 2 ^ 31"
  shows "\<exists>b'. endless (newMessage_round st ops) (b, p, out) = Some (b', out @ map (frame st) ds)
    \<and> valid b' \<and> contents b' = ys"
  using assms
proof (induction ds arbitrary: b p out)
  case Nil
  with newMessage_round_pending [of b p out] show ?case
    by (auto simp: endless_stop)
next
  case (Cons d ds)
  from newMessage_round_frame [of b d "frames st ds @ ys" p out] Cons.prems
  obtain b' p' where round: "newMessage_round st ops (b, p, out) = Some (Inl (b', p', out @ [frame st d]))"
    and "valid b'" "contents b' = frames st ds @ ys"
    by auto
  with Cons.IH [of b' p' "out @ [frame st d]"] Cons.prems show ?case
    by (auto simp: endless_again round)
qed

text \<open>One piece: the complete frames come out, the rest stays.\<close>

lemma newMessage_frames:
  assumes "valid b" and "contents b @ c = frames st ds @ ys" and "part_frame st ys"
    and "\<forall>d\<in>set ds. length d < 65532" and "length (contents b) + length c \<le> cap"
    and "65539 * (length (contents b) + length c) < 3 * 2 ^ 31"
  shows "\<exists>b'. newMessage mode st ops (Some b) c server
      = Some (Some b', map (frame st) ds, server\<lparr>cnt := cnt server + 1\<rparr>)
    \<and> valid b' \<and> contents b' = ys"
proof -
  from append_law [OF assms(1,5)] obtain b1
    where b1: "append_op ops c b = Some (0, b1)" "valid b1" "contents b1 = contents b @ c" by blast
  have "append_received ops c b = Some b1"
    using assms(6) b1(1) by (simp add: append_received_def)
  moreover obtain b' where
    "endless (newMessage_round st ops) (b1, Packet_init, []) = Some (b', map (frame st) ds)"
    "valid b'" "contents b' = ys"
    using drain [OF b1(2) _ assms(3,4), of Packet_init "[]"] assms(2,6)
    by (auto simp: b1(3) simp flip: length_append)
  ultimately show ?thesis
    using buffered by (simp add: newMessage_def)
qed

text \<open>
  The whole stream. What is pending is shorter than a frame, so it is enough that one frame and
  one piece fit the buffer together.
\<close>

lemma newMessages_frames:
  assumes "valid b" and "contents b @ concat cs = frames st ds"
    and "contents b = [] \<or> (\<exists>d ds'. ds = d # ds' \<and> strict_prefix (contents b) (frame st d))"
    and "\<forall>d\<in>set ds. length d < 65532"
    and "\<forall>c\<in>set cs. \<forall>d\<in>set ds. length c + length d + 3 \<le> min cap 98299"
  shows "\<exists>b' server'. newMessages mode st ops (Some b) cs server
      = Some (Some b', map (frame st) ds, server') \<and> valid b' \<and> contents b' = []"
  using assms
proof (induction cs arbitrary: b ds server)
  case Nil
  have "ds = []"
  proof (cases ds)
    case (Cons d ds')
    with Nil.prems(2,3) have "length (contents b) < length (frame st d)"
      by (auto dest: prefix_length_less)
    moreover from Nil.prems(2) Cons have "length (contents b) = length (frames st (d # ds'))"
      by simp
    ultimately show ?thesis by simp
  qed
  with Nil.prems show ?case by simp
next
  case (Cons c cs)
  from Cons.prems(2) have "prefix (contents b @ c) (frames st ds)"
    by (metis append.assoc concat.simps(2) prefixI)
  from split_frames [OF this Cons.prems(4)] obtain ds1 ds2 ys where split:
    "ds = ds1 @ ds2" "contents b @ c = frames st ds1 @ ys"
    "ys = [] \<or> (\<exists>d ds'. ds2 = d # ds' \<and> strict_prefix ys (frame st d))" by blast
  have small: "length (contents b) + length c \<le> min cap 98299"
  proof (cases ds)
    case Nil
    with Cons.prems(2) show ?thesis by simp
  next
    case (Cons d ds')
    have "length (contents b) < length d + 4"
      using Cons Cons.prems(3) prefix_length_less [of "contents b" "frame st d"] by auto
    with Cons Cons.prems(5) show ?thesis by fastforce
  qed
  have "part_frame st ys"
    using split(1,3) Cons.prems(4) part_frame_Nil [of st] unfolding part_frame_def by auto
  with newMessage_frames [OF Cons.prems(1) split(2), of server] split(1) small Cons.prems(4)
  obtain b' where b': "newMessage mode st ops (Some b) c server
      = Some (Some b', map (frame st) ds1, server\<lparr>cnt := cnt server + 1\<rparr>)"
    "valid b'" "contents b' = ys" by auto
  moreover have "ys @ concat cs = frames st ds2"
  proof -
    have "frames st ds1 @ ys @ concat cs = (contents b @ c) @ concat cs"
      by (simp only: split(2) append_assoc)
    with Cons.prems(2) split(1) show ?thesis by simp
  qed
  ultimately obtain b2 server2 where
    "newMessages mode st ops (Some b') cs (server\<lparr>cnt := cnt server + 1\<rparr>)
      = Some (Some b2, map (frame st) ds2, server2)" "valid b2" "contents b2 = []"
    using Cons.IH [of b' ds2 "server\<lparr>cnt := cnt server + 1\<rparr>"] split(1,3) Cons.prems(4,5)
    by auto
  with b' split(1) show ?case by auto
qed

end

section \<open>The two buffers\<close>

interpretation cycle_echo: framed_connection
  "CycleBuffer_ops cbs" cb_contents "cb_valid cbs" "unat cbs - 1" st CycleBufferMode for cbs st
  by unfold_locales simp

interpretation list_echo: framed_connection
  ListBuffer_ops lb_buffer lb_valid "2 ^ 64 - 1" st ListBufferMode for st
  by unfold_locales simp

section \<open>Properties\<close>

text \<open>\<open>PackNum\<close> and \<open>UnpackNum\<close> are inverse for every unsigned type of whole bytes, in both
  byte orders.\<close>

theorem PackNum_roundtrip:
  assumes "8 * (LENGTH('a::len) div 8) = LENGTH('a)"
  shows "UnpackNum mode (PackNum mode (num :: 'a word) @ rest) = Some num"
  using unpack_pack [OF assms] .

theorem PackNum_roundtrip_witness:
  "UnpackNum BigEndian (PackNum BigEndian (0x1234 :: uint16) @ [9]) = Some (0x1234 :: uint16)
    \<and> PackNum BigEndian (0x1234 :: uint16) = [0x12, 0x34]"
proof
  show "UnpackNum BigEndian (PackNum BigEndian (0x1234 :: uint16) @ [9]) = Some (0x1234 :: uint16)"
    by (rule PackNum_roundtrip) simp
  show "PackNum BigEndian (0x1234 :: uint16) = [0x12, 0x34]"
    by code_simp
qed

text \<open>A packed message can be read back from its packet, whatever the packet held before: the
  data, its size and the packet's size are those of the message, for every message that a 16-bit
  size can describe.\<close>

theorem pack_roundtrip:
  assumes "length d < 2 ^ 16"
  shows "\<exists>p'. pack st d (word_of_nat (length d)) p = Some p' \<and> getData p' = Some d
    \<and> unat (DataSize p') = length d \<and> unat (PacketSize p') = length d + 4
    \<and> hd (Buffer p') = HeadByte st \<and> last (Buffer p') = EndByte st"
proof -
  have "drop 3 (frame st d) = d @ [EndByte st]" by (simp add: frame_def)
  then show ?thesis
    using assms by (simp add: pack_frame getData_def DataSize_def PacketSize_def Buffer_def
        copy_from_def unat_of_nat take_bit_nat_eq_self hd_frame)
      (simp add: frame_def)
qed

theorem pack_roundtrip_witness:
  "\<exists>p'. pack Packet_statics_init [1, 2] (word_of_nat (length [1, 2 :: uint8])) Packet_init = Some p'
    \<and> getData p' = Some [1, 2]"
  using pack_roundtrip [of "[1, 2]" Packet_statics_init Packet_init] by auto

text \<open>C28: reading a packet from a cycle buffer always returns: 0 or -1, with no access outside the
  buffer or the packet, consuming a prefix of the stored bytes.\<close>

theorem readFromBuffer_total:
  assumes "cb_valid cbs b" and "unat cbs \<le> 98299"
  shows "\<exists>r b' out'. readFromBuffer st (CycleBuffer_ops cbs) b out = Some (r, b', out')
    \<and> (r = 0 \<or> r = -1) \<and> cb_valid cbs b' \<and> suffix (cb_contents b') (cb_contents b)"
proof -
  have "65539 * length (cb_contents b) < 3 * 2 ^ 31"
    using cb_contents_bound [OF assms(1)] assms(2) by simp
  from cycle_echo.readFromBuffer_refines [OF assms(1) this, of st out] show ?thesis
    using bytes_reader_result [where st = st and c = "cb_contents b" and data = "[]"] by (fastforce split: prod.splits)
qed

theorem readFromBuffer_total_witness:
  "\<exists>r b' out'. readFromBuffer Packet_statics_init (CycleBuffer_ops 32768) (CycleBuffer_init 32768)
      Packet_init = Some (r, b', out') \<and> (r = 0 \<or> r = -1)"
proof -
  have "cb_valid 32768 (CycleBuffer_init 32768)"
    by (rule CycleBuffer_init_valid) simp_all
  from readFromBuffer_total [OF this, of Packet_statics_init Packet_init] show ?thesis
    by auto
qed

text \<open>C1: a stream of frames that reaches the echo server in arbitrary pieces comes back frame by
  frame, in order and complete, and nothing is left in the buffer, provided a piece and a frame
  fit the cycle buffer together.\<close>

theorem cycle_stream_reassembly:
  assumes "0 < unat cbs" and "unat cbs \<le> 98300"
    and "concat cs = concat (map (frame st) ds)" and "\<forall>d\<in>set ds. length d < 65532"
    and "\<forall>c\<in>set cs. \<forall>d\<in>set ds. length c + length d + 3 \<le> unat cbs - 1"
  shows "\<exists>b' server'. newMessages CycleBufferMode st (CycleBuffer_ops cbs)
      (Some (CycleBuffer_init cbs)) cs server
    = Some (Some b', map (frame st) ds, server') \<and> cb_contents b' = []"
proof -
  have v: "cb_valid cbs (CycleBuffer_init cbs)" and c: "cb_contents (CycleBuffer_init cbs) = []"
    using CycleBuffer_init_valid [of cbs] assms(1,2) by auto
  have "\<forall>c\<in>set cs. \<forall>d\<in>set ds. length c + length d + 3 \<le> min (unat cbs - 1) 98299"
    using assms(2,5) by fastforce
  from cycle_echo.newMessages_frames [OF v _ _ assms(4) this, where st = st and server = server] c assms(3)
  show ?thesis by auto
qed

theorem cycle_stream_reassembly_witness:
  "\<exists>b' server'. newMessages CycleBufferMode Packet_statics_init (CycleBuffer_ops 16)
      (Some (CycleBuffer_init 16)) [[0x7e, 1], [0, 65, 0xe7, 0x7e], [2, 0, 66, 67], [0xe7]] \<lparr>cnt = 0\<rparr>
    = Some (Some b', [[0x7e, 1, 0, 65, 0xe7], [0x7e, 2, 0, 66, 67, 0xe7]], server')
      \<and> cb_contents b' = []"
proof -
  have frames: "frame Packet_statics_init [65] = [0x7e, 1, 0, 65, 0xe7]"
    "frame Packet_statics_init [66, 67] = [0x7e, 2, 0, 66, 67, 0xe7]"
    by code_simp+
  show ?thesis
    using cycle_stream_reassembly [of 16 "[[0x7e, 1], [0, 65, 0xe7, 0x7e], [2, 0, 66, 67], [0xe7]]"
        Packet_statics_init "[[65], [66, 67]]" "\<lparr>cnt = 0\<rparr>"]
    by (simp add: frames)
qed

text \<open>C30: the two buffer classes are interchangeable for the packet reader: on the same stored bytes
  they return the same code and the same packet and keep the same bytes.\<close>

theorem readFromBuffer_buffers_agree:
  assumes "cb_valid cbs cb" and "lb_valid lb" and "cb_contents cb = lb_buffer lb"
    and "unat cbs \<le> 98300"
  shows "\<exists>r out' cb' lb'. readFromBuffer st (CycleBuffer_ops cbs) cb out = Some (r, cb', out')
    \<and> readFromBuffer st ListBuffer_ops lb out = Some (r, lb', out')
    \<and> cb_contents cb' = lb_buffer lb'"
proof -
  have bound: "65539 * length (cb_contents cb) < 3 * 2 ^ 31"
    using cb_contents_bound [OF assms(1)] assms(4) by simp
  from cycle_echo.readFromBuffer_refines [OF assms(1) bound, of st out]
    list_echo.readFromBuffer_refines [OF assms(2) bound [unfolded assms(3)], of st out] assms(3)
  show ?thesis by auto
qed

theorem readFromBuffer_buffers_agree_witness:
  "\<exists>r out' cb' lb'. readFromBuffer Packet_statics_init (CycleBuffer_ops 8) (CycleBuffer_init 8)
        Packet_init = Some (r, cb', out')
    \<and> readFromBuffer Packet_statics_init ListBuffer_ops ListBuffer_init Packet_init
        = Some (r, lb', out')"
proof -
  have "cb_valid 8 (CycleBuffer_init 8)" "cb_contents (CycleBuffer_init 8) = lb_buffer ListBuffer_init"
    using CycleBuffer_init_valid [of 8] by (simp_all add: ListBuffer_init_def)
  from readFromBuffer_buffers_agree [OF this(1) _ this(2), of Packet_statics_init Packet_init]
  show ?thesis by (fastforce simp: lb_valid_def ListBuffer_init_def)
qed

text \<open>C31: bytes that are no head byte are skipped, and the first complete frame after them is
  delivered with the data it carries and removed from the buffer.\<close>

theorem readFromBuffer_resync:
  assumes "cb_valid cbs b" and "unat cbs \<le> 98300"
    and "cb_contents b = junk @ frame st d @ rest" and "HeadByte st \<notin> set junk"
    and "length d < 65532"
  shows "\<exists>b' out'. readFromBuffer st (CycleBuffer_ops cbs) b out = Some (0, b', out')
    \<and> cb_valid cbs b' \<and> cb_contents b' = rest \<and> Buffer out' = frame st d \<and> getData out' = Some d"
proof -
  have bound: "65539 * length (cb_contents b) < 3 * 2 ^ 31"
    using cb_contents_bound [OF assms(1)] assms(2) by simp
  have "bytes_reader st (cb_contents b, []) = (0, rest, frame st d)"
    using assms(3,4,5) by (simp add: bytes_reader_junk bytes_reader_frame)
  moreover have "getData (fst (swap (frame st d) out)) = Some d"
  proof -
    have "unat (ucast (word_of_nat (length d + 4) - ucast PacketMinSize :: uint64) :: uint16)
        = length d"
      using assms(5) by (simp add: PacketMinSize_def unsigned_ucast_eq unat_of_nat
          take_bit_nat_eq_self)
    moreover have "drop 3 (frame st d) = d @ [EndByte st]" by (simp add: frame_def)
    ultimately show ?thesis by (simp add: getData_def swap_def copy_from_def)
  qed
  ultimately show ?thesis
    using cycle_echo.readFromBuffer_refines [OF assms(1) bound, of st out]
    by (auto simp: Buffer_def swap_def)
qed

lemma size_field_append: "3 \<le> length x \<Longrightarrow> size_field st (x @ y) = size_field st x"
  by (simp add: size_field_def UnpackNum_def copy_from_def)

text \<open>The reader on a header that it keeps: each round takes three bytes and reads a body's length further.\<close>

lemma kept_header_round:
  assumes "3 \<le> length (data @ take 3 c)" and "hd (data @ take 3 c) = HeadByte st"
    and "size_field st (data @ take 3 c) = word_of_nat n" and "n < 65532" and "n + 4 \<le> length c"
  shows "bytes_round st (c, data) = (if c ! (n + 3) = EndByte st then Inr (0, drop (n + 4) c, data @ take (n + 4) c)
    else Inl (drop 3 c, data @ take (n + 4) c))"
proof -
  have n: "unat (word_of_nat n :: uint16) = n" using assms(4) by simp
  have parts: "(data @ take 3 c) @ take (n + 1) (drop 3 c) = data @ take (n + 4) c"
    using take_add [of 3 "n + 1" c] by (simp add: add.commute)
  have "take (n + 4) c = take (n + 3) c @ [c ! (n + 3)]"
    using take_Suc_conv_app_nth [of "n + 3" c] assms(5) by (simp add: add.commute [of n 4])
  then have "last (data @ take (n + 4) c) = c ! (n + 3)" by simp
  then show ?thesis
    using assms n arg_cong [OF add.commute [of 4 n], of "\<lambda>m. drop m c"]
    by (simp only: bytes_round_def Let_def split n parts) auto
qed

lemma kept_header_reader:
  assumes "3 \<le> length (data @ take 3 c)" and "hd (data @ take 3 c) = HeadByte st"
    and "size_field st (data @ take 3 c) = word_of_nat n" and "n < 65532" and "n + 4 + 3 * k \<le> length c"
    and "\<forall>i<k. c ! (n + 3 + 3 * i) \<noteq> EndByte st" and "c ! (n + 3 + 3 * k) = EndByte st"
  shows "bytes_reader st (c, data)
    = (0, drop (n + 4 + 3 * k) c, data @ concat (map (\<lambda>i. take (n + 4) (drop (3 * i) c)) [0..<Suc k]))"
  using assms
proof (induction k arbitrary: c data)
  case 0
  then show ?case using kept_header_round [OF 0(1-4)] by (subst bytes_reader.simps) simp
next
  case (Suc k)
  let ?c = "drop 3 c" and ?d = "data @ take (n + 4) c" and ?h = "data @ take 3 c"
  have d: "?d = ?h @ take (n + 1) ?c" using take_add [of 3 "n + 1" c] by (simp add: add.commute)
  have "?h \<noteq> []" using Suc.prems(1) by auto
  then have "hd (?d @ take 3 ?c) = HeadByte st" "size_field st (?d @ take 3 ?c) = word_of_nat n"
    "3 \<le> length (?d @ take 3 ?c)"
  proof -
    show "hd (?d @ take 3 ?c) = HeadByte st" unfolding d using Suc.prems(2) \<open>?h \<noteq> []\<close> by (metis append_assoc hd_append2)
    show "size_field st (?d @ take 3 ?c) = word_of_nat n"
      unfolding d append_assoc [of ?h] by (simp only: size_field_append [OF Suc.prems(1)] Suc.prems(3))
    show "3 \<le> length (?d @ take 3 ?c)" unfolding d using Suc.prems(1) by simp
  qed
  moreover have at: "?c ! (n + 3 + 3 * i) = c ! (n + 3 + 3 * Suc i)" for i
    using Suc.prems(5) by (subst nth_drop) (simp_all add: algebra_simps)
  then have "\<forall>i<k. ?c ! (n + 3 + 3 * i) \<noteq> EndByte st" "?c ! (n + 3 + 3 * k) = EndByte st" "n + 4 + 3 * k \<le> length ?c"
    unfolding at using Suc.prems(5-7) by auto
  ultimately have "bytes_reader st (?c, ?d) = (0, drop (n + 4 + 3 * k) ?c,
      ?d @ concat (map (\<lambda>i. take (n + 4) (drop (3 * i) ?c)) [0..<Suc k]))"
    using Suc.prems(4) by (intro Suc.IH) simp_all
  moreover have "bytes_reader st (c, data) = bytes_reader st (?c, ?d)"
    using kept_header_round [OF Suc.prems(1-4)] Suc.prems(5,6) by (subst bytes_reader.simps) fastforce
  moreover have "map (\<lambda>i. take (n + 4) (drop (3 * i) c)) [0..<Suc (Suc k)]
      = take (n + 4) c # map (\<lambda>i. take (n + 4) (drop (3 * i) ?c)) [0..<Suc k]"
    by (subst upt_conv_Cons) (simp_all add: map_Suc_upt [symmetric] comp_def add.commute del: upt_Suc map_Suc_upt)
  ultimately show ?case by (simp add: add.commute del: upt_Suc)
qed

text \<open>C39: a frame whose end byte is damaged does not only get lost: \<open>data\<close> is not cleared, so the reader goes
  on with the old header, three bytes further in every round. For every frame of less than 65532 bytes with a
  wrong end byte and every intact frame behind it whose data have a length of 3 n + 2 and whose bytes at the
  places 3 i + 2 before the last are no end bytes (these are the places where the reader looks), in a cycle
  buffer of at most 98300 bytes and whatever follows: the reader returns 0 with a packet that nobody sent,
  made of the damaged frame and of pieces of the buffer that overlap, and the intact frame has gone from the
  buffer.\<close>

theorem readFromBuffer_stale_header:
  assumes "cb_valid cbs b" and "unat cbs \<le> 98300" and "length d < 65532" and "x \<noteq> EndByte st"
    and "cb_contents b = butlast (frame st d) @ [x] @ frame st e @ rest"
    and "length e mod 3 = 2" and "\<forall>i. 3 * i + 2 < length e + 3 \<longrightarrow> frame st e ! (3 * i + 2) \<noteq> EndByte st"
  shows "\<exists>b' out'. readFromBuffer st (CycleBuffer_ops cbs) b out = Some (0, b', out') \<and> cb_contents b' = rest
    \<and> Buffer out' = concat (map (\<lambda>i. take (length d + 4) (drop (3 * i) (cb_contents b))) [0..<length e div 3 + 3])
    \<and> length (Buffer out') > length (frame st d) + length (frame st e)"
proof -
  let ?c = "cb_contents b" and ?n = "length d" and ?k = "length e div 3 + 2"
  have e: "length e = 3 * (length e div 3) + 2" using assms(6) div_mult_mod_eq [of "length e" 3] by simp
  have len: "length ?c = ?n + 4 + (length e + 4) + length rest" using assms(5) by simp
  have front: "take 3 ?c = take 3 (frame st d)" using assms(5) by (simp add: take_butlast)
  have h: "3 \<le> length ([] @ take 3 ?c)" "hd ([] @ take 3 ?c) = HeadByte st" "size_field st ([] @ take 3 ?c) = word_of_nat ?n"
    using len assms(3) size_field_frame [of d st "[]"] unfolding append_Nil front by (simp_all add: hd_frame)
  have at: "?c ! (?n + 3) = x" "\<And>i. i < length e + 4 \<Longrightarrow> ?c ! (?n + 4 + i) = frame st e ! i"
    unfolding assms(5) by (simp_all add: nth_append)
  have "?c ! (?n + 3 + 3 * i) \<noteq> EndByte st" if "i < ?k" for i
  proof (cases i)
    case (Suc j)
    then have "?n + 3 + 3 * i = ?n + 4 + (3 * j + 2)" "3 * j + 2 < length e + 3" using that e by simp_all
    with at(2) [of "3 * j + 2"] assms(7) show ?thesis by simp
  qed (use at(1) assms(4) in simp)
  moreover have "?n + 3 + 3 * ?k = ?n + 4 + (length e + 3)" using e by simp
  then have "?c ! (?n + 3 + 3 * ?k) = EndByte st"
    using at(2) [of "length e + 3"] by (simp only: \<open>?n + 3 + 3 * ?k = _\<close>) (simp add: frame_def nth_append)
  ultimately have "bytes_reader st (?c, []) = (0, drop (?n + 4 + 3 * ?k) ?c,
      [] @ concat (map (\<lambda>i. take (?n + 4) (drop (3 * i) ?c)) [0..<Suc ?k]))"
    using len e assms(3) by (intro kept_header_reader [OF h]) simp_all
  moreover have "drop (?n + 4 + 3 * ?k) ?c = rest"
  proof -
    have "?n + 4 + 3 * ?k = length (butlast (frame st d) @ [x] @ frame st e)" using e by simp
    moreover have "?c = (butlast (frame st d) @ [x] @ frame st e) @ rest" using assms(5) by simp
    ultimately show ?thesis by (metis append_eq_conv_conj)
  qed
  moreover have "Suc ?k = length e div 3 + 3" by simp
  ultimately have read: "bytes_reader st (?c, []) = (0, rest,
      concat (map (\<lambda>i. take (?n + 4) (drop (3 * i) ?c)) [0..<length e div 3 + 3]))" by (simp only: append_Nil)
  have "65539 * length ?c < 3 * 2 ^ 31" using cb_contents_bound [OF assms(1)] assms(2) by simp
  from cycle_echo.readFromBuffer_refines [OF assms(1) this, of st out] read obtain b' where
    b': "readFromBuffer st (CycleBuffer_ops cbs) b out = Some (0, b',
      fst (swap (concat (map (\<lambda>i. take (?n + 4) (drop (3 * i) ?c)) [0..<length e div 3 + 3])) out))"
    "cb_contents b' = rest" by auto
  have "length (concat (map (\<lambda>i. take (?n + 4) (drop (3 * i) ?c)) [0..<length e div 3 + 3]))
      = (\<Sum>i\<leftarrow>[0..<length e div 3 + 3]. ?n + 4)"
    unfolding length_concat map_map comp_def
    by (intro arg_cong [of _ _ sum_list] map_cong) (use len e in auto)
  also have "\<dots> = (length e div 3 + 3) * (?n + 4)" by (simp add: sum_list_triv)
  finally have "length (concat (map (\<lambda>i. take (?n + 4) (drop (3 * i) ?c)) [0..<length e div 3 + 3]))
      = (length e div 3 + 3) * (?n + 4)" .
  moreover have "?n + 4 + (length e + 4) < (length e div 3 + 3) * (?n + 4)" using e by (simp add: algebra_simps)
  ultimately show ?thesis using b' by (auto simp: Buffer_def swap_def)
qed

text \<open>An intact frame of the two bytes E7 42 behind a damaged one.\<close>

theorem readFromBuffer_stale_header_witness:
  "\<exists>b' out'. readFromBuffer Packet_statics_init (CycleBuffer_ops 16)
      (CycleBuffer_init 16\<lparr>buffer := [0x7e, 2, 0, 1, 2, 0, 0x7e, 2, 0, 0xe7, 0x42, 0xe7, 0, 0, 0, 0],
        writeIndex := 12\<rparr>) Packet_init = Some (0, b', out')
    \<and> cb_contents b' = [] \<and> 12 < length (Buffer out')"
proof -
  let ?b = "CycleBuffer_init 16\<lparr>buffer := [0x7e, 2, 0, 1, 2, 0, 0x7e, 2, 0, 0xe7, 0x42, 0xe7, 0, 0, 0, 0],
        writeIndex := 12\<rparr>"
  have "cb_valid 16 ?b" by (simp add: cb_valid_def CycleBuffer_init_def)
  moreover have "cb_contents ?b = butlast (frame Packet_statics_init [1, 2]) @ [0] @ frame Packet_statics_init [0xe7, 0x42] @ []"
    by code_simp
  moreover have "frame Packet_statics_init [0xe7, 0x42] ! 2 \<noteq> EndByte Packet_statics_init" by code_simp
  then have "3 * i + 2 < length [0xe7, 0x42 :: uint8] + 3 \<longrightarrow>
      frame Packet_statics_init [0xe7, 0x42] ! (3 * i + 2) \<noteq> EndByte Packet_statics_init" for i
    by (cases i) (simp_all add: numeral_2_eq_2)
  moreover have "(0 :: uint8) \<noteq> EndByte Packet_statics_init" by (simp add: Packet_statics_init_def)
  ultimately show ?thesis
    using readFromBuffer_stale_header [of 16 ?b "[1, 2]" 0 Packet_statics_init "[0xe7, 0x42]" "[]" Packet_init]
    by fastforce
qed

text \<open>C40: the 16-bit message size wraps for frames of 65532 to 65535 data bytes: when such a frame
  has arrived only in part, its header is thrown away instead of waiting for the rest.\<close>

theorem readFromBuffer_size_wrap:
  assumes "65532 \<le> length d" and "length d < 2 ^ 16" and "4 \<le> k" and "k < length d + 4"
    and "lb_buffer b = take k (frame Packet_statics_init d)"
  shows "\<exists>r b' out'. readFromBuffer Packet_statics_init ListBuffer_ops b out = Some (r, b', out')
    \<and> suffix (lb_buffer b') (drop 3 (lb_buffer b))"
proof -
  let ?st = Packet_statics_init and ?c = "lb_buffer b"
  let ?n = "word_of_nat (length d) :: uint16"
  have len: "length ?c = k" using assms(4,5) by simp
  have c3: "take 3 ?c = HeadByte ?st # PackNum (Mode ?st) ?n"
    using assms(3) by (simp add: assms(5) min_def frame_def)
  have n: "unat ?n = length d" "size_field ?st (take 3 ?c) = ?n"
    using assms(2) unpack_pack [where 'a = 16, of "Mode ?st" ?n "[]"]
    by (simp_all add: c3 size_field_def)
  have "?n \<in> {0xfffc, 0xfffd, 0xfffe, 0xffff}"
  proof -
    have "unat ?n \<in> {65532, 65533, 65534, 65535}" using n(1) assms(1,2) by auto
    then show ?thesis by (auto simp: word_unat_eq_iff)
  qed
  then have "last (PackNum LittleEndian ?n) = 0xff"
    by (elim insertE; simp) (code_simp+)
  moreover have "PackNum LittleEndian ?n \<noteq> []"
    using length_PackNum [of LittleEndian ?n] by fastforce
  ultimately have last: "last (take 3 ?c) \<noteq> EndByte ?st"
    unfolding c3 by (simp add: Packet_statics_init_def)
  have hd: "hd ?c = HeadByte ?st"
    using arg_cong [OF c3, of hd] by simp
  have m: "(length d + 4) mod 65536 = length d - 65532"
  proof -
    obtain i where "length d = 65532 + i" "i < 4"
      using assms(1,2) by (auto simp: le_iff_add)
    then show ?thesis by simp
  qed
  have "bytes_round ?st (?c, []) = Inl (drop 3 ?c, take 3 ?c)"
    using assms(2,3,4) len last by (auto simp: bytes_round_def Let_def n m hd)
  then have "bytes_reader ?st (?c, []) = bytes_reader ?st (drop 3 ?c, take 3 ?c)"
    by (subst bytes_reader.simps) simp
  moreover have "lb_valid b" "65539 * length ?c < 3 * 2 ^ 31"
    using len assms(2,4) by (simp_all add: lb_valid_def)
  ultimately show ?thesis
    using list_echo.readFromBuffer_refines [of b ?st out]
      bytes_reader_result [where st = ?st and c = "drop 3 ?c" and data = "take 3 ?c"]
    by fastforce
qed

theorem readFromBuffer_resync_witness:
  "\<exists>b' out'. readFromBuffer Packet_statics_init (CycleBuffer_ops 16)
      (CycleBuffer_init 16\<lparr>buffer := [1, 2, 0x7e, 1, 0, 65, 0xe7, 0x7e, 0, 0, 0, 0, 0, 0, 0, 0],
        writeIndex := 8\<rparr>) Packet_init = Some (0, b', out')
    \<and> cb_contents b' = [0x7e] \<and> getData out' = Some [65]"
proof -
  let ?b = "CycleBuffer_init 16\<lparr>buffer := [1, 2, 0x7e, 1, 0, 65, 0xe7, 0x7e, 0, 0, 0, 0, 0, 0, 0, 0],
        writeIndex := 8\<rparr>"
  have "cb_valid 16 ?b" by (simp add: cb_valid_def CycleBuffer_init_def)
  moreover have "cb_contents ?b = [1, 2] @ frame Packet_statics_init [65] @ [0x7e]"
    by code_simp
  moreover have "HeadByte Packet_statics_init \<notin> set [1, 2]"
    by (simp add: Packet_statics_init_def)
  ultimately show ?thesis
    using readFromBuffer_resync [of 16 ?b "[1, 2]" Packet_statics_init "[65]" "[0x7e]" Packet_init]
    by auto
qed

theorem readFromBuffer_size_wrap_witness:
  "\<exists>r b' out'. readFromBuffer Packet_statics_init ListBuffer_ops
      \<lparr>lb_buffer = take 4 (frame Packet_statics_init (replicate 65532 0))\<rparr> Packet_init
      = Some (r, b', out')
    \<and> length (lb_buffer b') \<le> 1"
  using readFromBuffer_size_wrap [of "replicate 65532 0" 4
      "\<lparr>lb_buffer = take 4 (frame Packet_statics_init (replicate 65532 0))\<rparr>" Packet_init]
  by (auto dest!: suffix_length_le)

end
