(* ===== verification/Libuv.thy ===== *)
theory Libuv
  imports UvPrelude
begin

text \<open>
  The libuv functions the event side of the program calls. libuv is not part of the repository:
  it is a parameter, a record of functions on an abstract world \<open>'w\<close> (the loop with its handles
  and the operating system behind it). A call that only has an effect maps a world to a world; a
  call whose result the code reads returns it as well; the C callbacks that a call registers are
  the entry points of the handlers that the components model. The locale \<open>libuv\<close> states the
  documented behaviour of closing that the code relies on.
\<close>

section \<open>The interface\<close>

type_synonym handle = nat

text \<open>The addresses of \<open>sockaddr_in\<close> and \<open>sockaddr_in6\<close>: address bytes and the port as stored.\<close>

datatype Sockaddr = In4 "uint8 list" uint16 | In6 "uint8 list" uint16

text \<open>Loops, like handles, are named by numbers.\<close>

record 'w Libuv =
  uv_default_loop :: nat
  uv_loop_init :: "nat \<Rightarrow> 'w \<Rightarrow> 'w"
  uv_loop_close :: "nat \<Rightarrow> 'w \<Rightarrow> int \<times> 'w"
  uv_stop :: "nat \<Rightarrow> 'w \<Rightarrow> 'w"
  uv_is_active :: "handle \<Rightarrow> 'w \<Rightarrow> bool"
  uv_is_closing :: "handle \<Rightarrow> 'w \<Rightarrow> bool"
  uv_close :: "handle \<Rightarrow> 'w \<Rightarrow> 'w"
  uv_timer_init :: "handle \<Rightarrow> 'w \<Rightarrow> 'w"
  uv_timer_start :: "handle \<Rightarrow> uint64 \<Rightarrow> uint64 \<Rightarrow> 'w \<Rightarrow> 'w"
  uv_timer_stop :: "handle \<Rightarrow> 'w \<Rightarrow> 'w"
  uv_timer_set_repeat :: "handle \<Rightarrow> uint64 \<Rightarrow> 'w \<Rightarrow> 'w"
  uv_idle_init :: "handle \<Rightarrow> 'w \<Rightarrow> 'w"
  uv_idle_start :: "handle \<Rightarrow> 'w \<Rightarrow> 'w"
  uv_idle_stop :: "handle \<Rightarrow> 'w \<Rightarrow> 'w"
  uv_signal_init :: "handle \<Rightarrow> 'w \<Rightarrow> 'w"
  uv_signal_start :: "handle \<Rightarrow> int \<Rightarrow> 'w \<Rightarrow> 'w"
  uv_async_init :: "handle \<Rightarrow> 'w \<Rightarrow> 'w"
  uv_async_send :: "handle \<Rightarrow> 'w \<Rightarrow> 'w"
  uv_tcp_init :: "handle \<Rightarrow> 'w \<Rightarrow> 'w"
  uv_tcp_nodelay :: "handle \<Rightarrow> 'w \<Rightarrow> 'w"
  uv_tcp_bind :: "handle \<Rightarrow> Sockaddr \<Rightarrow> 'w \<Rightarrow> int \<times> 'w"
  uv_listen :: "handle \<Rightarrow> int \<Rightarrow> 'w \<Rightarrow> int \<times> 'w"
  uv_accept :: "handle \<Rightarrow> handle \<Rightarrow> 'w \<Rightarrow> int \<times> 'w"
  uv_tcp_connect :: "handle \<Rightarrow> Sockaddr \<Rightarrow> 'w \<Rightarrow> 'w"
  uv_tcp_getpeername :: "handle \<Rightarrow> 'w \<Rightarrow> Sockaddr"
  uv_read_start :: "handle \<Rightarrow> 'w \<Rightarrow> 'w"
  uv_read_stop :: "handle \<Rightarrow> 'w \<Rightarrow> 'w"
  uv_write :: "handle \<Rightarrow> uint8 list \<Rightarrow> 'w \<Rightarrow> int \<times> 'w"
  uv_shutdown :: "handle \<Rightarrow> 'w \<Rightarrow> 'w"
  uv_udp_init :: "handle \<Rightarrow> 'w \<Rightarrow> 'w"
  uv_udp_bind :: "handle \<Rightarrow> Sockaddr \<Rightarrow> 'w \<Rightarrow> int \<times> 'w"
  uv_udp_recv_start :: "handle \<Rightarrow> 'w \<Rightarrow> int \<times> 'w"
  uv_udp_recv_stop :: "handle \<Rightarrow> 'w \<Rightarrow> 'w"
  uv_udp_send :: "handle \<Rightarrow> uint8 list \<Rightarrow> Sockaddr \<Rightarrow> 'w \<Rightarrow> int \<times> 'w"
  uv_getaddrinfo :: "handle \<Rightarrow> string \<Rightarrow> string \<Rightarrow> 'w \<Rightarrow> int \<times> 'w"
  uv_strerror :: "int \<Rightarrow> string"
  uv_err_name :: "int \<Rightarrow> string"

section \<open>Documented behaviour of closing\<close>

text \<open>
  After \<open>uv_close\<close> a handle is closing and stays so under every other call, up to a new
  initialisation; no other call and no closing of another handle starts the closing of a handle.
\<close>

locale libuv =
  fixes uv :: "'w Libuv"
  assumes close_closing: "uv_is_closing uv h (uv_close uv k w) \<longleftrightarrow> h = k \<or> uv_is_closing uv h w"
    and async_init_closing: "uv_is_closing uv h (uv_async_init uv k w) \<longleftrightarrow> h \<noteq> k \<and> uv_is_closing uv h w"
    and async_send_closing: "uv_is_closing uv h (uv_async_send uv k w) \<longleftrightarrow> uv_is_closing uv h w"
    and stop_closing: "uv_is_closing uv h (uv_stop uv n w) \<longleftrightarrow> uv_is_closing uv h w"
    and timer_init_closing: "uv_is_closing uv h (uv_timer_init uv k w) \<longleftrightarrow> h \<noteq> k \<and> uv_is_closing uv h w"
    and timer_start_closing: "uv_is_closing uv h (uv_timer_start uv k t r w) \<longleftrightarrow> uv_is_closing uv h w"
    and timer_stop_closing: "uv_is_closing uv h (uv_timer_stop uv k w) \<longleftrightarrow> uv_is_closing uv h w"
    and read_stop_closing: "uv_is_closing uv h (uv_read_stop uv k w) \<longleftrightarrow> uv_is_closing uv h w"
    and recv_stop_closing: "uv_is_closing uv h (uv_udp_recv_stop uv k w) \<longleftrightarrow> uv_is_closing uv h w"
    and read_start_closing: "uv_is_closing uv h (uv_read_start uv k w) \<longleftrightarrow> uv_is_closing uv h w"
    and shutdown_closing: "uv_is_closing uv h (uv_shutdown uv k w) \<longleftrightarrow> uv_is_closing uv h w"
    and tcp_init_closing: "uv_is_closing uv h (uv_tcp_init uv k w) \<longleftrightarrow> h \<noteq> k \<and> uv_is_closing uv h w"
    and nodelay_closing: "uv_is_closing uv h (uv_tcp_nodelay uv k w) \<longleftrightarrow> uv_is_closing uv h w"
    and connect_closing: "uv_is_closing uv h (uv_tcp_connect uv k a w) \<longleftrightarrow> uv_is_closing uv h w"
    and write_closing: "uv_is_closing uv h (snd (uv_write uv k d w)) \<longleftrightarrow> uv_is_closing uv h w"
begin

lemmas closing = close_closing async_init_closing async_send_closing stop_closing timer_init_closing
  timer_start_closing timer_stop_closing read_stop_closing recv_stop_closing
  read_start_closing shutdown_closing tcp_init_closing nodelay_closing connect_closing write_closing

end

section \<open>A simulated libuv\<close>

text \<open>
  A concrete instance for examples: the sets of active and of closing handles, the peers' addresses
  and a record of the calls. Every request is accepted.
\<close>

datatype UvCall =
  UvClose handle | UvTimerStart handle uint64 uint64 | UvTimerStop handle | UvTimerRepeat handle uint64
| UvStop nat | UvAsyncSend handle | UvListen handle | UvReadStart handle | UvReadStop handle
| UvWrite handle "uint8 list" | UvShutdown handle | UvConnect handle Sockaddr | UvSend handle "uint8 list"

record Sim =
  sim_active :: "handle list"
  sim_closing :: "handle list"
  sim_peer :: "(handle \<times> Sockaddr) list"
  sim_calls :: "UvCall list"

definition sim_start :: "handle \<Rightarrow> UvCall \<Rightarrow> Sim \<Rightarrow> Sim" where
  "sim_start h c w = w\<lparr>sim_active := h # sim_active w, sim_calls := sim_calls w @ [c]\<rparr>"

definition sim_stop :: "handle \<Rightarrow> UvCall \<Rightarrow> Sim \<Rightarrow> Sim" where
  "sim_stop h c w = w\<lparr>sim_active := removeAll h (sim_active w), sim_calls := sim_calls w @ [c]\<rparr>"

definition sim_log :: "UvCall \<Rightarrow> Sim \<Rightarrow> Sim" where
  "sim_log c w = w\<lparr>sim_calls := sim_calls w @ [c]\<rparr>"

definition sim_uv :: "Sim Libuv" where
  "sim_uv =
    \<lparr>uv_default_loop = 0,
     uv_loop_init = (\<lambda>n w. w),
     uv_loop_close = (\<lambda>n w. (if sim_active w = [] then 0 else -16, w)),
     uv_stop = (\<lambda>n. sim_log (UvStop n)),
     uv_is_active = (\<lambda>h w. h \<in> set (sim_active w)),
     uv_is_closing = (\<lambda>h w. h \<in> set (sim_closing w)),
     uv_close = (\<lambda>h w. w\<lparr>sim_active := removeAll h (sim_active w),
       sim_closing := h # sim_closing w, sim_calls := sim_calls w @ [UvClose h]\<rparr>),
     uv_timer_init = (\<lambda>h w. w\<lparr>sim_closing := removeAll h (sim_closing w)\<rparr>),
     uv_timer_start = (\<lambda>h t r. sim_start h (UvTimerStart h t r)),
     uv_timer_stop = (\<lambda>h. sim_stop h (UvTimerStop h)),
     uv_timer_set_repeat = (\<lambda>h r. sim_log (UvTimerRepeat h r)),
     uv_idle_init = (\<lambda>h w. w),
     uv_idle_start = (\<lambda>h w. w\<lparr>sim_active := h # sim_active w\<rparr>),
     uv_idle_stop = (\<lambda>h w. w\<lparr>sim_active := removeAll h (sim_active w)\<rparr>),
     uv_signal_init = (\<lambda>h w. w),
     uv_signal_start = (\<lambda>h sig w. w\<lparr>sim_active := h # sim_active w\<rparr>),
     uv_async_init = (\<lambda>h w. w\<lparr>sim_active := h # sim_active w,
       sim_closing := removeAll h (sim_closing w)\<rparr>),
     uv_async_send = (\<lambda>h. sim_log (UvAsyncSend h)),
     uv_tcp_init = (\<lambda>h w. w\<lparr>sim_closing := removeAll h (sim_closing w)\<rparr>),
     uv_tcp_nodelay = (\<lambda>h w. w),
     uv_tcp_bind = (\<lambda>h a w. (0, w)),
     uv_listen = (\<lambda>h n w. (0, sim_start h (UvListen h) w)),
     uv_accept = (\<lambda>s c w. (0, w)),
     uv_tcp_connect = (\<lambda>h a. sim_log (UvConnect h a)),
     uv_tcp_getpeername = (\<lambda>h w. case map_of (sim_peer w) h of Some a \<Rightarrow> a
       | None \<Rightarrow> In4 [127, 0, 0, 1] (word_of_nat h)),
     uv_read_start = (\<lambda>h. sim_start h (UvReadStart h)),
     uv_read_stop = (\<lambda>h. sim_stop h (UvReadStop h)),
     uv_write = (\<lambda>h d w. (0, sim_log (UvWrite h d) w)),
     uv_shutdown = (\<lambda>h. sim_log (UvShutdown h)),
     uv_udp_init = (\<lambda>h w. w),
     uv_udp_bind = (\<lambda>h a w. (0, w)),
     uv_udp_recv_start = (\<lambda>h w. (0, sim_start h (UvReadStart h) w)),
     uv_udp_recv_stop = (\<lambda>h. sim_stop h (UvReadStop h)),
     uv_udp_send = (\<lambda>h d a w. (0, sim_log (UvSend h d) w)),
     uv_getaddrinfo = (\<lambda>h n s w. (0, w)),
     uv_strerror = (\<lambda>n. ''error''),
     uv_err_name = (\<lambda>n. ''EERR'')\<rparr>"

definition sim_init :: Sim where
  "sim_init = \<lparr>sim_active = [], sim_closing = [], sim_peer = [], sim_calls = []\<rparr>"

interpretation sim: libuv sim_uv
  by unfold_locales (auto simp: sim_uv_def sim_stop_def sim_start_def sim_log_def)

section \<open>The close protocol\<close>

text \<open>
  Every class that owns a handle has the same \<open>close (callback)\<close>: store the callback; when the
  handle is not closing, request \<open>uv_close\<close>, whose completion runs the stored callback; when it is
  closing already, run the callback at once. \<open>cls\<close> is the operation, with the callbacks that it
  runs itself; \<open>closed\<close> is what libuv's close callback runs later. A callback that is null is
  \<open>None\<close>.
\<close>

locale close_protocol =
  fixes closing :: "'s \<Rightarrow> 'w \<Rightarrow> bool"
    and cls :: "'cb option \<Rightarrow> 's \<Rightarrow> 'w \<Rightarrow> ('s \<times> 'w \<times> 'cb list) option"
    and closed :: "'s \<Rightarrow> 'cb list"
  assumes close_first: "\<not> closing s w \<Longrightarrow>
      \<exists>s' w'. cls (Some cb) s w = Some (s', w', []) \<and> closing s' w' \<and> closed s' = [cb]"
    and close_again: "closing s w \<Longrightarrow>
      \<exists>s' w'. cls (Some cb) s w = Some (s', w', [cb]) \<and> closing s' w' \<and> closed s' = [cb]"
begin

text \<open>One close request: the callback runs once, when libuv reports the handle closed.\<close>

lemma close_once:
  assumes "\<not> closing s w"
  shows "\<exists>s' w'. cls (Some cb) s w = Some (s', w', []) \<and> closed s' = [cb]"
  using close_first [OF assms] by blast

text \<open>
  Two close requests before libuv has reported the first as complete: the first callback never
  runs and the second runs twice, once at once and once when libuv reports the handle closed.
\<close>

lemma close_twice:
  assumes "\<not> closing s w"
  shows "\<exists>s1 w1 s2 w2. cls (Some cb1) s w = Some (s1, w1, [])
    \<and> cls (Some cb2) s1 w1 = Some (s2, w2, [cb2]) \<and> closed s2 = [cb2]"
proof -
  from close_first [OF assms] obtain s1 w1
    where "cls (Some cb1) s w = Some (s1, w1, [])" "closing s1 w1" by blast
  with close_again [of s1 w1 cb2] show ?thesis by blast
qed

end

end
