(* ===== verification/StdLib.thy ===== *)
theory StdLib
  imports UvPrelude "HOL-Library.Char_ord" "HOL-Library.List_Lexorder"
begin

text \<open>
  What the program uses of the C++ standard library: \<open>std::string::find\<close> and \<open>substr\<close>,
  \<open>std::to_string\<close>, \<open>std::stoi\<close> and \<open>std::map\<close>. A \<open>std::string\<close> is a list of characters; a
  position that \<open>find\<close> does not find (\<open>npos\<close>) is \<open>None\<close>; an exception is \<open>None\<close>. A \<open>std::map\<close> is
  the list of its pairs in the order of the keys.
\<close>

section \<open>Searching\<close>

fun find_sub :: "'a list \<Rightarrow> 'a list \<Rightarrow> nat option" where
  "find_sub pat [] = (if pat = [] then Some 0 else None)"
| "find_sub pat (x # xs) =
     (if take (length pat) (x # xs) = pat then Some 0 else map_option Suc (find_sub pat xs))"

definition std_find :: "'a list \<Rightarrow> 'a list \<Rightarrow> nat \<Rightarrow> nat option" where
  "std_find str pat pos =
     (if pos \<le> length str then map_option ((+) pos) (find_sub pat (drop pos str)) else None)"

text \<open>\<open>std::string (str, pos, n)\<close> and \<open>substr\<close>: throws when \<open>pos\<close> is past the end.\<close>

definition substr :: "'a list \<Rightarrow> nat \<Rightarrow> nat \<Rightarrow> 'a list option" where
  "substr str pos n = (if pos \<le> length str then Some (take n (drop pos str)) else None)"

definition substr_from :: "'a list \<Rightarrow> nat \<Rightarrow> 'a list option" where
  "substr_from str pos = (if pos \<le> length str then Some (drop pos str) else None)"

lemma substr_Some [simp]: "pos \<le> length str \<Longrightarrow> substr str pos n = Some (take n (drop pos str))"
  by (simp add: substr_def)

lemma substr_from_Some [simp]: "pos \<le> length str \<Longrightarrow> substr_from str pos = Some (drop pos str)"
  by (simp add: substr_from_def)

lemma find_sub_skip:
  "c \<notin> set xs \<Longrightarrow> find_sub (c # p) (xs @ ys) = map_option ((+) (length xs)) (find_sub (c # p) ys)"
  by (induction xs; cases "find_sub (c # p) ys") auto

lemma find_sub_here [simp]: "find_sub pat (pat @ ys) = Some 0"
  by (cases "pat @ ys") (auto simp: append_eq_Cons_conv)

lemma find_sub_prefix: "take (length pat) xs = pat \<Longrightarrow> find_sub pat xs = Some 0"
  by (metis append_take_drop_id find_sub_here)

lemma find_sub_absent: "c \<notin> set xs \<Longrightarrow> find_sub (c # p) xs = None"
  using find_sub_skip [of c xs p "[]"] by simp

lemma find_sub_bound: "find_sub pat xs = Some i \<Longrightarrow> i + length pat \<le> length xs"
proof (induction xs arbitrary: i)
  case (Cons x xs)
  then show ?case
    by (auto simp: min_def split: if_splits dest: arg_cong [where f = length])
qed (simp split: if_splits)

lemma find_sub_match: "find_sub pat xs = Some i \<Longrightarrow> take (length pat) (drop i xs) = pat"
  by (induction xs arbitrary: i) (auto split: if_splits)

lemma find_sub_first: "find_sub pat xs = Some i \<Longrightarrow> j < i \<Longrightarrow> take (length pat) (drop j xs) \<noteq> pat"
proof (induction xs arbitrary: i j)
  case (Cons x xs)
  then show ?case by (cases j) (auto split: if_splits)
qed (simp split: if_splits)

lemma find_sub_None: "find_sub pat xs = None \<Longrightarrow> take (length pat) (drop j xs) \<noteq> pat"
proof (induction xs arbitrary: j)
  case (Cons x xs)
  then show ?case by (cases j) (auto split: if_splits)
qed (simp split: if_splits)

lemma std_find_bound: "std_find str pat pos = Some i \<Longrightarrow> pos \<le> i \<and> i + length pat \<le> length str"
  by (auto simp: std_find_def split: if_splits dest: find_sub_bound)

lemma std_find_0 [simp]: "std_find str pat 0 = find_sub pat str"
  by (cases "find_sub pat str") (simp_all add: std_find_def)

text \<open>Searching in a string that is known up to the start position.\<close>

lemma std_find_app:
  "length xs = pos \<Longrightarrow> std_find (xs @ ys) pat pos = map_option ((+) pos) (find_sub pat ys)"
  by (auto simp: std_find_def)

section \<open>Numbers\<close>

definition digit_char :: "nat \<Rightarrow> char" where
  "digit_char n = ''0123456789abcdef'' ! (n mod 16)"

text \<open>The digits of a number, most significant first; \<open>std::to_string\<close> is base 10.\<close>

function to_base :: "nat \<Rightarrow> nat \<Rightarrow> string" where
  "to_base b n = (if n < b \<or> b < 2 then [digit_char n] else to_base b (n div b) @ [digit_char (n mod b)])"
  by auto
termination
  by (relation "measure snd") auto

declare to_base.simps [simp del]

definition std_to_string :: "int \<Rightarrow> string" where
  "std_to_string i = (if i < 0 then CHR ''-'' # to_base 10 (nat (- i)) else to_base 10 (nat i))"

definition isspace :: "char \<Rightarrow> bool" where
  "isspace c \<longleftrightarrow> c = CHR '' '' \<or> (9 \<le> (of_char c :: nat) \<and> (of_char c :: nat) \<le> 13)"

definition digit_val :: "nat \<Rightarrow> char \<Rightarrow> nat option" where
  "digit_val b c =
     (let n = of_char c;
          v = (if 48 \<le> n \<and> n \<le> 57 then n - 48
               else if 65 \<le> n \<and> n \<le> 90 then n - 55
               else if 97 \<le> n \<and> n \<le> 122 then n - 87 else 99)
      in if v < b then Some v else None)"

fun read_digits :: "nat \<Rightarrow> nat \<Rightarrow> string \<Rightarrow> nat" where
  "read_digits b acc [] = acc"
| "read_digits b acc (c # s) =
     (case digit_val b c of Some d \<Rightarrow> read_digits b (acc * b + d) s | None \<Rightarrow> acc)"

definition starts_digit :: "nat \<Rightarrow> string \<Rightarrow> bool" where
  "starts_digit b s = (case s of [] \<Rightarrow> False | c # _ \<Rightarrow> digit_val b c \<noteq> None)"

text \<open>\<open>std::stoi (s, nullptr, b)\<close>: white space, a sign, for base 16 an optional \<open>0x\<close>, digits; what
  follows is ignored. No digits and a value outside \<open>int\<close> are exceptions.\<close>

definition skip_0x :: "nat \<Rightarrow> string \<Rightarrow> string" where
  "skip_0x b s =
     (if b = 16 \<and> (take 2 s = ''0x'' \<or> take 2 s = ''0X'') \<and> starts_digit b (drop 2 s) then drop 2 s else s)"

definition stoi :: "nat \<Rightarrow> string \<Rightarrow> int option" where
  "stoi b s =
     (let s = dropWhile isspace s;
          neg = (take 1 s = ''-'');
          s = (if neg \<or> take 1 s = ''+'' then drop 1 s else s);
          s = skip_0x b s;
          v = int (read_digits b 0 s);
          i = (if neg then - v else v)
      in if starts_digit b s \<and> - (2 ^ 31) \<le> i \<and> i < 2 ^ 31 then Some i else None)"

lemma digit_cases:
  assumes "(n :: nat) < 16"
  obtains "n = 0" | "n = 1" | "n = 2" | "n = 3" | "n = 4" | "n = 5" | "n = 6" | "n = 7"
  | "n = 8" | "n = 9" | "n = 10" | "n = 11" | "n = 12" | "n = 13" | "n = 14" | "n = 15"
proof -
  have "n \<in> {..<16}" using assms by simp
  also have "{..<16} = {0, 1, 2, 3, 4, 5, 6, 7, 8, 9, 10, 11, 12, 13, 14, 15 :: nat}"
    by (auto simp: lessThan_nat_numeral)
  finally show ?thesis using that by auto
qed

lemma digit_val_char:
  assumes "n < 16"
  shows "digit_val b (digit_char n) = (if n < b then Some n else None)"
  using assms by (cases rule: digit_cases) (simp_all add: digit_val_def digit_char_def Let_def)

lemma digit_char_plain:
  assumes "n < 16"
  shows "\<not> isspace (digit_char n)" and "digit_char n \<notin> {CHR ''-'', CHR ''+'', CHR ''x'', CHR ''X''}"
  using assms by (cases rule: digit_cases; simp add: isspace_def digit_char_def)+

lemma to_base_digits:
  "1 < b \<Longrightarrow> b \<le> 16 \<Longrightarrow> c \<in> set (to_base b n) \<Longrightarrow> \<exists>d < b. c = digit_char d"
proof (induction b n rule: to_base.induct)
  case (1 b n)
  have "n mod b < b" using 1 by simp
  then have "\<exists>d < b. digit_char (n mod b) = digit_char d" by blast
  with 1 show ?case
    by (subst (asm) (2) to_base.simps) (auto split: if_splits)
qed

lemma to_base_nonempty [simp]: "to_base b n \<noteq> []"
  by (subst to_base.simps) simp

lemma read_digits_append:
  "\<forall>c\<in>set s. digit_val b c \<noteq> None \<Longrightarrow> read_digits b acc (s @ r) = read_digits b (read_digits b acc s) r"
  by (induction b acc s rule: read_digits.induct) (auto split: option.split)

lemma to_base_all_digits:
  "1 < b \<Longrightarrow> b \<le> 16 \<Longrightarrow> \<forall>c\<in>set (to_base b n). digit_val b c \<noteq> None"
  using to_base_digits [of b _ n] by (fastforce simp: digit_val_char)

lemma read_to_base:
  "1 < b \<Longrightarrow> b \<le> 16 \<Longrightarrow> read_digits b 0 (to_base b n) = n"
proof (induction b n rule: to_base.induct)
  case (1 b n)
  show ?case
  proof (cases "n < b")
    case True
    then show ?thesis using 1 by (subst to_base.simps) (simp add: digit_val_char)
  next
    case False
    have "n mod b < b" using 1 by simp
    moreover from this have "n mod b < 16" using 1 by linarith
    ultimately show ?thesis
      using 1 False to_base_all_digits [of b "n div b"]
      by (subst to_base.simps) (simp add: read_digits_append digit_val_char)
  qed
qed

lemma read_digits_stop: "\<not> starts_digit b r \<Longrightarrow> read_digits b acc r = acc"
  by (cases r) (auto simp: starts_digit_def)

lemma stoi_to_base:
  assumes b: "1 < b" "b \<le> 16" and "n < 2 ^ 31" and r: "\<not> starts_digit b r"
    and x: "take 1 r \<notin> {''x'', ''X''}" and ws: "\<forall>c\<in>set ws. isspace c"
  shows "stoi b (ws @ to_base b n @ r) = Some (int n)"
proof -
  obtain c s where cs: "to_base b n = c # s" by (cases "to_base b n") auto
  obtain d where d: "d < b" "c = digit_char d" using to_base_digits [OF b, of c n] cs by auto
  have "dropWhile isspace (ws @ to_base b n @ r) = to_base b n @ r"
    using ws d b digit_char_plain(1) [of d] by (simp add: dropWhile_append2 cs)
  moreover have "take 1 (to_base b n @ r) \<notin> {''-'', ''+''}"
    using d b digit_char_plain(2) [of d] by (simp add: cs)
  moreover have "skip_0x b (to_base b n @ r) = to_base b n @ r"
  proof -
    have "take 2 (to_base b n @ r) \<notin> {''0x'', ''0X''}"
    proof (cases s)
      case (Cons c' s')
      then obtain d' where "d' < b" "c' = digit_char d'" using to_base_digits [OF b, of c' n] cs by auto
      then show ?thesis
        using b digit_char_plain(2) [of d'] by (auto simp: cs Cons numeral_2_eq_2)
    next
      case Nil
      then show ?thesis
        using x by (auto simp: cs numeral_2_eq_2)
    qed
    then show ?thesis by (simp add: skip_0x_def)
  qed
  moreover have "starts_digit b (to_base b n @ r)"
    using d b by (simp add: cs starts_digit_def digit_val_char)
  moreover have "read_digits b 0 (to_base b n @ r) = n"
    using to_base_all_digits [OF b, of n] read_to_base [OF b, of n] read_digits_stop [OF r]
    by (simp add: read_digits_append)
  ultimately show ?thesis using \<open>n < 2 ^ 31\<close> by (simp add: stoi_def Let_def)
qed

section \<open>Maps\<close>

fun map_set :: "'k::linorder \<Rightarrow> 'v \<Rightarrow> ('k \<times> 'v) list \<Rightarrow> ('k \<times> 'v) list" where
  "map_set k v [] = [(k, v)]"
| "map_set k v ((k', v') # m) =
     (if k < k' then (k, v) # (k', v') # m
      else if k = k' then (k, v) # m
      else (k', v') # map_set k v m)"

definition map_get :: "('k \<times> 'v) list \<Rightarrow> 'k \<Rightarrow> 'v option" where
  "map_get m k = map_of m k"

text \<open>\<open>insert\<close> keeps the value of a key that is present; \<open>erase\<close> removes a key.\<close>

definition map_insert :: "'k::linorder \<Rightarrow> 'v \<Rightarrow> ('k \<times> 'v) list \<Rightarrow> ('k \<times> 'v) list" where
  "map_insert k v m = (if map_get m k = None then map_set k v m else m)"

definition map_erase :: "'k \<Rightarrow> ('k \<times> 'v) list \<Rightarrow> ('k \<times> 'v) list" where
  "map_erase k m = filter (\<lambda>(k', _). k' \<noteq> k) m"

definition std_map :: "('k::linorder \<times> 'v) list \<Rightarrow> bool" where
  "std_map m = sorted_wrt (<) (map fst m)"

lemma std_map_Nil [simp]: "std_map []"
  by (simp add: std_map_def)

lemma map_get_set [simp]: "map_get (map_set k v m) k' = (if k' = k then Some v else map_get m k')"
  by (induction k v m rule: map_set.induct) (auto simp: map_get_def)

lemma set_map_set: "fst ` set (map_set k v m) = insert k (fst ` set m)"
  by (induction k v m rule: map_set.induct) auto

lemma std_map_set [simp]: "std_map m \<Longrightarrow> std_map (map_set k v m)"
proof (induction k v m rule: map_set.induct)
  case (2 k v k' v' m)
  then show ?case
    using set_map_set [of k v m] by (auto simp: std_map_def not_less)
qed (simp add: std_map_def)

lemma std_map_insert [simp]: "std_map m \<Longrightarrow> std_map (map_insert k v m)"
  by (simp add: map_insert_def)

lemma std_map_erase [simp]: "std_map m \<Longrightarrow> std_map (map_erase k m)"
  by (induction m) (auto simp: std_map_def map_erase_def)

lemma map_get_insert:
  "map_get (map_insert k v m) k' = (if k' = k \<and> map_get m k = None then Some v else map_get m k')"
  by (simp add: map_insert_def)

lemma map_get_erase [simp]: "map_get (map_erase k m) k' = (if k' = k then None else map_get m k')"
  by (induction m) (auto simp: map_get_def map_erase_def)

text \<open>Filling a map in the order of the keys appends.\<close>

lemma map_set_last:
  "\<forall>k'\<in>fst ` set m. k' < k \<Longrightarrow> map_set k v m = m @ [(k, v)]"
  by (induction k v m rule: map_set.induct) auto

lemma std_map_snoc: "std_map (m @ [(k, v)]) \<Longrightarrow> map_set k v m = m @ [(k, v)]"
  by (rule map_set_last) (auto simp: std_map_def sorted_wrt_append)

lemma std_map_append1: "std_map (m @ m') \<Longrightarrow> std_map m"
  by (simp add: std_map_def sorted_wrt_append)

lemma fold_map_set:
  "std_map (m @ ps) \<Longrightarrow> fold (\<lambda>(k, v). map_set k v) ps m = m @ ps"
proof (induction ps arbitrary: m)
  case (Cons p ps)
  obtain k v where p: "p = (k, v)" by (cases p)
  have "map_set k v m = m @ [(k, v)]"
    using Cons.prems std_map_append1 [of "m @ [(k, v)]" ps] by (intro std_map_snoc) (simp add: p)
  with Cons p show ?case by simp
qed simp

section \<open>Bytes and characters\<close>

definition string_of :: "uint8 list \<Rightarrow> string" where
  "string_of bs = map (\<lambda>b. char_of (unat b)) bs"

definition bytes_of :: "string \<Rightarrow> uint8 list" where
  "bytes_of s = map of_char s"

lemma string_of_bytes_of [simp]: "string_of (bytes_of s) = s"
proof -
  have "unat (of_char c :: uint8) = of_char c" for c
    using unat_of_nat [of "of_char c :: nat", where 'a = 8] by (simp add: of_nat_of_char)
  then have "char_of (unat (of_char c :: uint8)) = c" for c by simp
  then show ?thesis by (simp add: string_of_def bytes_of_def comp_def)
qed

lemma string_of_append [simp]: "string_of (xs @ ys) = string_of xs @ string_of ys"
  by (simp add: string_of_def)

lemma string_of_take: "string_of (take n xs) = take n (string_of xs)"
  by (simp add: string_of_def take_map)

lemma length_bytes_of [simp]: "length (bytes_of s) = length s"
  by (simp add: bytes_of_def)

lemma length_string_of [simp]: "length (string_of bs) = length bs"
  by (simp add: string_of_def)

end
