(* ===== verification/LogWriter.thy ===== *)
theory LogWriter
  imports StdLib
begin

text \<open>
  The log writer (\<open>uv/LogWriter.cpp\<close>). The singleton is a record; what a call writes is a list of
  outputs, at most one per call: to the registered callback or to the standard output. The enum
  \<open>Level\<close> is the \<open>int\<close> it converts to. The overloads for \<open>const std::string&&\<close> only forward.
\<close>

section \<open>State\<close>

datatype Level = Debug | Info | Warn | Error | Fatal | LevelSize

fun level_int :: "Level \<Rightarrow> int" where
  "level_int Debug = 0"
| "level_int Info = 1"
| "level_int Warn = 2"
| "level_int Error = 3"
| "level_int Fatal = 4"
| "level_int LevelSize = 5"

text \<open>The order of an enum is that of its values.\<close>

instantiation Level :: linorder
begin

definition less_eq_Level :: "Level \<Rightarrow> Level \<Rightarrow> bool" where
  "less_eq_Level a b \<longleftrightarrow> level_int a \<le> level_int b"

definition less_Level :: "Level \<Rightarrow> Level \<Rightarrow> bool" where
  "less_Level a b \<longleftrightarrow> level_int a < level_int b"

instance
proof
  fix a b :: Level
  show "a \<le> b \<Longrightarrow> b \<le> a \<Longrightarrow> a = b"
    by (cases a; cases b) (simp_all add: less_eq_Level_def)
qed (auto simp: less_eq_Level_def less_Level_def)

end

record LogWriter =
  log_callback :: bool
  log_level :: int
  levelStr :: "string list"
  nullLevel :: string

datatype LogOutput = ToCallback int string | ToStdOut string

text \<open>The constructor: five names, at the index of their level.\<close>

definition LogWriter_init :: LogWriter where
  "LogWriter_init =
     \<lparr>log_callback = False, log_level = 0,
      levelStr =
        (((((replicate (nat (level_int LevelSize)) '''')
          [nat (level_int Debug) := ''Debug''])
          [nat (level_int Info) := ''Info''])
          [nat (level_int Warn) := ''Warn''])
          [nat (level_int Error) := ''Error''])
          [nat (level_int Fatal) := ''Fatal''],
      nullLevel = ''NullLevel''\<rparr>"

section \<open>Operations\<close>

definition registerInterface :: "bool \<Rightarrow> LogWriter \<Rightarrow> LogWriter" where
  "registerInterface callback l = l\<lparr>log_callback := callback\<rparr>"

definition setLevel :: "int \<Rightarrow> LogWriter \<Rightarrow> LogWriter" where
  "setLevel level l = l\<lparr>log_level := level\<rparr>"

definition getLevel :: "LogWriter \<Rightarrow> int" where
  "getLevel l = log_level l"

text \<open>\<open>level == levelStr_.size ()\<close> passes the test and reads past the vector.\<close>

definition getLevelName :: "int \<Rightarrow> LogWriter \<Rightarrow> string option" where
  "getLevelName level l =
     (if 0 \<le> level \<and> level \<le> c_int (length (levelStr l))
      then index_at (levelStr l) (nat level) else Some (nullLevel l))"

definition log_write :: "Level \<Rightarrow> string \<Rightarrow> LogWriter \<Rightarrow> LogOutput list option" where
  "log_write level data l =
     (if level \<le> Error \<and> log_level l \<le> level_int level \<and> Debug \<le> level
      then
        if log_callback l then Some [ToCallback (level_int level) data]
        else map_option (\<lambda>name. [ToStdOut (name @ '' :'' @ data)]) (getLevelName (level_int level) l)
      else Some [])"

definition log_fatal :: "string \<Rightarrow> LogWriter \<Rightarrow> LogOutput list option" where
  "log_fatal = log_write Fatal"

definition log_warn :: "string \<Rightarrow> LogWriter \<Rightarrow> LogOutput list option" where
  "log_warn = log_write Warn"

definition log_error :: "string \<Rightarrow> LogWriter \<Rightarrow> LogOutput list option" where
  "log_error = log_write Error"

definition log_info :: "string \<Rightarrow> LogWriter \<Rightarrow> LogOutput list option" where
  "log_info = log_write Info"

definition log_debug :: "string \<Rightarrow> LogWriter \<Rightarrow> LogOutput list option" where
  "log_debug = log_write Debug"

text \<open>\<open>ToHex\<close>: \<open>" 0x%x "\<close> for every byte, the value in base 16.\<close>

fun ToHex :: "string \<Rightarrow> uint8 list \<Rightarrow> string" where
  "ToHex message [] = message"
| "ToHex message (b # data) = ToHex (message @ '' 0x'' @ to_base 16 (unat b) @ '' '') data"

section \<open>Lemmas\<close>

lemma levelStr_init:
  "levelStr LogWriter_init = [''Debug'', ''Info'', ''Warn'', ''Error'', ''Fatal'']"
  by (simp add: LogWriter_init_def numeral_eq_Suc)

text \<open>Writing never leaves the table of names, whatever the level, as long as it has five names.\<close>

lemma log_write_total:
  assumes "length (levelStr l) = 5"
  shows "\<exists>out. log_write level data l = Some out \<and> length out \<le> 1"
  using assms by (cases level) (auto simp: log_write_def less_eq_Level_def getLevelName_def index_at_def)

end
