(* ===== verification/Watchers.thy ===== *)
theory Watchers
  imports Libuv LogWriter
begin

text \<open>
  The three small handle owners: \<open>Timer\<close> (\<open>uv/Timer.cpp\<close>), \<open>Idle\<close> (\<open>uv/Idle.cpp\<close>) and \<open>Signal\<close>
  (\<open>uv/Signal.cpp\<close>). A callback is a value of an arbitrary type; an operation returns the list of
  the callbacks it runs, in order. Running a null \<open>std::function\<close> throws, which is \<open>None\<close>. The
  handle that \<open>new\<close> allocates is an argument of the constructor.
\<close>

section \<open>Timer\<close>

record 'cb Timer =
  started :: bool
  timer_handle :: handle
  timeout :: uint64
  repeat_ms :: uint64
  timer_callback :: "'cb option"
  timer_closeComplete :: "'cb option"

definition Timer_new ::
  "'w Libuv \<Rightarrow> handle \<Rightarrow> uint64 \<Rightarrow> uint64 \<Rightarrow> 'cb option \<Rightarrow> 'w \<Rightarrow> 'cb Timer \<times> 'w"
where
  "Timer_new uv h tmo rpt callback w =
     (\<lparr>started = False, timer_handle = h, timeout = tmo, repeat_ms = rpt,
       timer_callback = callback, timer_closeComplete = None\<rparr>,
      uv_timer_init uv h w)"

definition timer_start :: "'w Libuv \<Rightarrow> 'cb Timer \<Rightarrow> 'w \<Rightarrow> 'cb Timer \<times> 'w" where
  "timer_start uv t w =
     (if \<not> started t
      then (t\<lparr>started := True\<rparr>, uv_timer_start uv (timer_handle t) (timeout t) (repeat_ms t) w)
      else (t, w))"

text \<open>\<open>if (callback) callback (this)\<close>.\<close>

definition run_if :: "'cb option \<Rightarrow> 'cb list" where
  "run_if callback = (case callback of Some cb \<Rightarrow> [cb] | None \<Rightarrow> [])"

definition timer_closed :: "'cb Timer \<Rightarrow> 'cb list" where
  "timer_closed t = run_if (timer_closeComplete t)"

definition timer_close ::
  "'w Libuv \<Rightarrow> 'cb option \<Rightarrow> 'cb Timer \<Rightarrow> 'w \<Rightarrow> ('cb Timer \<times> 'w \<times> 'cb list) option"
where
  "timer_close uv callback t w =
     (let t = t\<lparr>timer_closeComplete := callback\<rparr>;
          h = timer_handle t;
          w = (if uv_is_active uv h w then uv_timer_stop uv h w else w)
      in if \<not> uv_is_closing uv h w then Some (t, uv_close uv h w, [])
         else Some (t, w, timer_closed t))"

definition setTimerRepeat :: "'w Libuv \<Rightarrow> uint64 \<Rightarrow> 'cb Timer \<Rightarrow> 'w \<Rightarrow> 'cb Timer \<times> 'w" where
  "setTimerRepeat uv ms t w = (t\<lparr>repeat_ms := ms\<rparr>, uv_timer_set_repeat uv (timer_handle t) ms w)"

definition onTimeOut :: "'cb Timer \<Rightarrow> 'cb list" where
  "onTimeOut t = run_if (timer_callback t)"

section \<open>Idle\<close>

record 'cb Idle =
  idle_handle :: handle
  idle_callback :: "'cb option"

definition Idle_new :: "'w Libuv \<Rightarrow> handle \<Rightarrow> 'w \<Rightarrow> 'cb Idle \<times> 'w" where
  "Idle_new uv h w =
     (\<lparr>idle_handle = h, idle_callback = None\<rparr>, uv_idle_start uv h (uv_idle_init uv h w))"

text \<open>The destructor stops the handle and deletes it, without \<open>uv_close\<close>.\<close>

definition Idle_delete :: "'w Libuv \<Rightarrow> 'cb Idle \<Rightarrow> 'w \<Rightarrow> 'w" where
  "Idle_delete uv i w = uv_idle_stop uv (idle_handle i) w"

definition idle_setCallback :: "'cb option \<Rightarrow> 'cb Idle \<Rightarrow> 'cb Idle" where
  "idle_setCallback callback i = i\<lparr>idle_callback := callback\<rparr>"

definition idle_onCallback :: "'cb Idle \<Rightarrow> 'cb list" where
  "idle_onCallback i = run_if (idle_callback i)"

section \<open>Signal\<close>

record 'cb Signal =
  signal_handle :: handle
  signal_callback :: "'cb option"
  signal_closeCallback :: "'cb option"

definition Signal_new ::
  "'w Libuv \<Rightarrow> handle \<Rightarrow> int \<Rightarrow> 'cb option \<Rightarrow> 'w \<Rightarrow> 'cb Signal \<times> 'w"
where
  "Signal_new uv h sig cb w =
     (\<lparr>signal_handle = h, signal_callback = cb, signal_closeCallback = None\<rparr>,
      uv_signal_start uv h sig (uv_signal_init uv h w))"

definition signal_closed :: "'cb Signal \<Rightarrow> 'cb list" where
  "signal_closed s = run_if (signal_closeCallback s)"

text \<open>Here the callback of a handle that is closing is run without a test for null.\<close>

definition signal_close ::
  "'w Libuv \<Rightarrow> 'cb option \<Rightarrow> 'cb Signal \<Rightarrow> 'w \<Rightarrow> ('cb Signal \<times> 'w \<times> 'cb list) option"
where
  "signal_close uv callback s w =
     (let s = s\<lparr>signal_closeCallback := callback\<rparr>
      in if \<not> uv_is_closing uv (signal_handle s) w
         then Some (s, uv_close uv (signal_handle s) w, [])
         else map_option (\<lambda>cb. (s, w, [cb])) (signal_closeCallback s))"

definition signal_setHandle :: "'cb option \<Rightarrow> 'cb Signal \<Rightarrow> 'cb Signal" where
  "signal_setHandle cb s = s\<lparr>signal_callback := cb\<rparr>"

text \<open>\<open>onSignal\<close>: run the handle, or log the signal number.\<close>

definition signal_handle_run :: "'cb Signal \<Rightarrow> 'cb list \<times> bool" where
  "signal_handle_run s = (case signal_callback s of Some cb \<Rightarrow> ([cb], True) | None \<Rightarrow> ([], False))"

definition onSignal ::
  "'cb Signal \<Rightarrow> int \<Rightarrow> LogWriter \<Rightarrow> ('cb list \<times> LogOutput list) option"
where
  "onSignal s signum l =
     (case signal_handle_run s of (cbs, handled) \<Rightarrow>
        if \<not> handled
        then map_option (Pair cbs) (log_warn (''non defined signal handle :'' @ std_to_string signum) l)
        else Some (cbs, []))"

section \<open>The close protocol\<close>

text \<open>Both \<open>close\<close> operations follow the protocol, on whatever libuv.\<close>

sublocale libuv \<subseteq> timer: close_protocol
  "\<lambda>t. uv_is_closing uv (timer_handle t)" "timer_close uv" timer_closed
  by unfold_locales (auto simp: timer_close_def timer_closed_def run_if_def Let_def closing)

sublocale libuv \<subseteq> signal: close_protocol
  "\<lambda>s. uv_is_closing uv (signal_handle s)" "signal_close uv" signal_closed
  by unfold_locales (auto simp: signal_close_def signal_closed_def run_if_def Let_def closing)

end
