(* ===== verification/SocketAddr.thy ===== *)
theory SocketAddr
  imports Libuv StdLib
begin

text \<open>
  Socket addresses (\<open>uv/SocketAddr.cpp\<close>). The conversions between address structures and text are
  the system's: they are parameters. The two \<open>sockaddr\<close> members are one field, since only the one
  that \<open>ipv_\<close> names is used; a \<open>sockaddr\<close> read as the wrong family is undefined.
\<close>

unbundle bit_operations_syntax

datatype IPV = Ipv4 | Ipv6

text \<open>\<open>inet_ntop\<close> may return a null pointer, from which a \<open>std::string\<close> cannot be made.\<close>

record Inet =
  uv_ip4_addr :: "string \<Rightarrow> uint16 \<Rightarrow> Sockaddr"
  uv_ip6_addr :: "string \<Rightarrow> uint16 \<Rightarrow> Sockaddr"
  inet_ntoa :: "uint8 list \<Rightarrow> string"
  inet_ntop :: "uint8 list \<Rightarrow> string option"
  htons :: "uint16 \<Rightarrow> uint16"

record SocketAddr =
  ip :: string
  port :: uint16
  ipv :: IPV
  sockaddr :: Sockaddr

definition GetIpAndPort :: "Inet \<Rightarrow> Sockaddr \<Rightarrow> IPV \<Rightarrow> (uint16 \<times> string) option" where
  "GetIpAndPort inet addr ver =
     (case ver of
        Ipv6 \<Rightarrow>
          (case addr of
             In6 bytes p \<Rightarrow> map_option (Pair (htons inet p)) (inet_ntop inet bytes)
           | In4 _ _ \<Rightarrow> None)
      | Ipv4 \<Rightarrow>
          (case addr of
             In4 bytes p \<Rightarrow> Some (htons inet p, inet_ntoa inet bytes)
           | In6 _ _ \<Rightarrow> None))"

text \<open>The constructor from text, and the one from an address structure.\<close>

definition SocketAddr_new :: "Inet \<Rightarrow> string \<Rightarrow> uint16 \<Rightarrow> IPV \<Rightarrow> SocketAddr" where
  "SocketAddr_new inet str p ver =
     \<lparr>ip = str, port = p, ipv = ver,
      sockaddr = (if ver = Ipv6 then uv_ip6_addr inet str p else uv_ip4_addr inet str p)\<rparr>"

definition SocketAddr_of :: "Inet \<Rightarrow> Sockaddr \<Rightarrow> IPV \<Rightarrow> SocketAddr option" where
  "SocketAddr_of inet addr ver =
     map_option (\<lambda>(p, str). \<lparr>ip = str, port = p, ipv = ver, sockaddr = addr\<rparr>)
       (GetIpAndPort inet addr ver)"

definition Addr :: "SocketAddr \<Rightarrow> Sockaddr" where
  "Addr a = sockaddr a"

definition toStr :: "SocketAddr \<Rightarrow> string" where
  "toStr a = ip a @ '':'' @ std_to_string (int (unat (port a)))"

definition Ipv :: "SocketAddr \<Rightarrow> IPV" where
  "Ipv a = ipv a"

definition AddrToStr :: "Inet \<Rightarrow> 'w Libuv \<Rightarrow> handle \<Rightarrow> IPV \<Rightarrow> 'w \<Rightarrow> string option" where
  "AddrToStr inet uv client ver w =
     map_option (\<lambda>(p, str). str @ '':'' @ std_to_string (int (unat p)))
       (GetIpAndPort inet (uv_tcp_getpeername uv client w) ver)"

text \<open>A concrete instance for examples: dotted decimals and network byte order.\<close>

definition sim_inet :: Inet where
  "sim_inet =
     \<lparr>uv_ip4_addr = (\<lambda>s p. In4 [127, 0, 0, 1] (push_bit 8 p OR drop_bit 8 p)),
      uv_ip6_addr = (\<lambda>s p. In6 (replicate 15 0 @ [1]) (push_bit 8 p OR drop_bit 8 p)),
      inet_ntoa = (\<lambda>bs. concat (map (\<lambda>b. std_to_string (int (unat b)) @ ''.'') (butlast bs))
        @ std_to_string (int (unat (last bs)))),
      inet_ntop = (\<lambda>bs. Some ''::1''),
      htons = (\<lambda>p. push_bit 8 p OR drop_bit 8 p)\<rparr>"

text \<open>What the key of a connection is when the system's conversions are those of the constructor.\<close>

lemma AddrToStr_toStr:
  assumes "SocketAddr_of inet (uv_tcp_getpeername uv h w) ver = Some a"
  shows "AddrToStr inet uv h ver w = Some (toStr a)"
  using assms by (auto simp: SocketAddr_of_def AddrToStr_def toStr_def)

end
