(* ===== verification/TcpConnection.thy ===== *)
theory TcpConnection
  imports Watchers SocketAddr ListBuffer CycleBuffer
begin

text \<open>
  A TCP connection (\<open>uv/TcpConnection.cpp\<close>), used by server and client alike. Callbacks are values
  of a type \<open>'cb\<close> of the owner; an operation returns the connection, the world and the actions it
  performs: callbacks run with their arguments and messages to the log, in order. The connection
  is its object's content; who owns the object and when it dies is the owner's matter.
\<close>

section \<open>State\<close>

record WriteInfo =
  wi_status :: int
  wi_buf :: "uint8 list"

definition Disconnected :: int where
  "Disconnected = -1"

datatype 'cb Act =
  RunMessage 'cb "uint8 list" | RunClose 'cb string | RunWritten 'cb WriteInfo | LogAct Level string

datatype ConnBuffer = NoBuf | ListBuf ListBuffer | CycleBuf CycleBuffer

record 'cb TcpConnection =
  name :: string
  connected :: bool
  conn_handle :: handle
  conn_data :: "uint8 list"
  conn_buffer :: ConnBuffer
  wrapper :: "nat option"
  onMessageCallback :: "'cb option"
  onConnectCloseCallback :: "'cb option"
  closeCompleteCallback :: "'cb option"

definition TcpConnection_new ::
  "'w Libuv \<Rightarrow> BufferMode \<Rightarrow> uint64 \<Rightarrow> string \<Rightarrow> handle \<Rightarrow> bool \<Rightarrow> 'w \<Rightarrow> 'cb TcpConnection \<times> 'w"
where
  "TcpConnection_new uv mode cbs nm client isConnected w =
     (\<lparr>name = nm, connected = isConnected, conn_handle = client, conn_data = [],
       conn_buffer = (case mode of
         ListBufferMode \<Rightarrow> ListBuf ListBuffer_init
       | CycleBufferMode \<Rightarrow> CycleBuf (CycleBuffer_init cbs)
       | NoBuffer \<Rightarrow> NoBuf),
       wrapper = None, onMessageCallback = None, onConnectCloseCallback = None,
       closeCompleteCallback = None\<rparr>,
      uv_read_start uv client w)"

section \<open>Operations\<close>

definition conn_onMessage :: "uint8 list \<Rightarrow> 'cb TcpConnection \<Rightarrow> 'cb Act list" where
  "conn_onMessage buf c =
     (case onMessageCallback c of Some f \<Rightarrow> [RunMessage f buf] | None \<Rightarrow> [])"

definition onSocketClose :: "'cb TcpConnection \<Rightarrow> 'cb Act list" where
  "onSocketClose c =
     (case onConnectCloseCallback c of Some f \<Rightarrow> [RunClose f (name c)] | None \<Rightarrow> [])"

text \<open>The callbacks of \<open>CloseComplete\<close> get the connection's name.\<close>

definition CloseComplete :: "'cb TcpConnection \<Rightarrow> 'cb list" where
  "CloseComplete c = run_if (closeCompleteCallback c)"

definition conn_close ::
  "'w Libuv \<Rightarrow> 'cb option \<Rightarrow> 'cb TcpConnection \<Rightarrow> 'w \<Rightarrow> ('cb TcpConnection \<times> 'w \<times> 'cb list) option"
where
  "conn_close uv callback c w =
     (let c = c\<lparr>onMessageCallback := None, onConnectCloseCallback := None,
            closeCompleteCallback := None\<rparr>;
          c = c\<lparr>closeCompleteCallback := callback\<rparr>;
          h = conn_handle c;
          w = (if uv_is_active uv h w then uv_read_stop uv h w else w)
      in if \<not> uv_is_closing uv h w then Some (c, uv_close uv h w, [])
         else Some (c, w, CloseComplete c))"

text \<open>
  \<open>write\<close>: the result, the actions at once, and the write request that libuv now holds with its
  callback. \<open>write_done\<close> is the callback of that request. The C++ passes libuv a pointer and libuv reads the
  bytes when the socket takes them; the model takes them at the call, which is the same for a caller that
  leaves them alone until the callback of the write. Several callers do not.
\<close>

definition conn_write ::
  "'w Libuv \<Rightarrow> uint8 list \<Rightarrow> 'cb option \<Rightarrow> 'cb TcpConnection \<Rightarrow> 'w \<Rightarrow>
    int \<times> 'w \<times> 'cb Act list \<times> ('cb option \<times> uint8 list) option"
where
  "conn_write uv buf callback c w =
     (if connected c
      then
        (case uv_write uv (conn_handle c) buf w of (rst, w) \<Rightarrow>
           if rst \<noteq> 0
           then (rst, w,
             LogAct Error (''write data error:'' @ std_to_string rst)
               # (case callback of Some f \<Rightarrow> [RunWritten f \<lparr>wi_status = rst, wi_buf = buf\<rparr>] | None \<Rightarrow> []),
             None)
           else (rst, w, [], Some (callback, buf)))
      else
        (-1, w,
         (case callback of Some f \<Rightarrow> [RunWritten f \<lparr>wi_status = Disconnected, wi_buf = buf\<rparr>] | None \<Rightarrow> []),
         None))"

definition write_done :: "'cb option \<times> uint8 list \<Rightarrow> int \<Rightarrow> 'cb Act list" where
  "write_done req st =
     (case req of (callback, buf) \<Rightarrow>
        (case callback of Some f \<Rightarrow> [RunWritten f \<lparr>wi_status = st, wi_buf = buf\<rparr>] | None \<Rightarrow> []))"

text \<open>
  The function that \<open>writeInLoop\<close> hands to the loop; \<open>conn\<close> is what locking the weak pointer gives
  when it runs. Without a connection the callback is run without a test for null.
\<close>

definition writeInLoop_task ::
  "'w Libuv \<Rightarrow> uint8 list \<Rightarrow> 'cb option \<Rightarrow> 'cb TcpConnection option \<Rightarrow> 'w \<Rightarrow>
    ('w \<times> 'cb Act list \<times> ('cb option \<times> uint8 list) option) option"
where
  "writeInLoop_task uv buf callback conn w =
     (case conn of
        Some c \<Rightarrow> (case conn_write uv buf callback c w of (_, w, acts, req) \<Rightarrow> Some (w, acts, req))
      | None \<Rightarrow>
          (case callback of
             Some f \<Rightarrow> Some (w, [RunWritten f \<lparr>wi_status = Disconnected, wi_buf = buf\<rparr>], None)
           | None \<Rightarrow> None))"

definition setWrapper :: "nat option \<Rightarrow> 'cb TcpConnection \<Rightarrow> 'cb TcpConnection" where
  "setWrapper w c = c\<lparr>wrapper := w\<rparr>"

text \<open>Locking the weak pointer: the wrapper lives as long as something holds it.\<close>

definition getWrapper :: "nat set \<Rightarrow> 'cb TcpConnection \<Rightarrow> nat option" where
  "getWrapper alive c = (case wrapper c of Some x \<Rightarrow> if x \<in> alive then Some x else None | None \<Rightarrow> None)"

definition conn_setMessageCallback :: "'cb option \<Rightarrow> 'cb TcpConnection \<Rightarrow> 'cb TcpConnection" where
  "conn_setMessageCallback cb c = c\<lparr>onMessageCallback := cb\<rparr>"

definition conn_setConnectCloseCallback :: "'cb option \<Rightarrow> 'cb TcpConnection \<Rightarrow> 'cb TcpConnection" where
  "conn_setConnectCloseCallback cb c = c\<lparr>onConnectCloseCallback := cb\<rparr>"

definition setConnectStatus :: "bool \<Rightarrow> 'cb TcpConnection \<Rightarrow> 'cb TcpConnection" where
  "setConnectStatus st c = c\<lparr>connected := st\<rparr>"

definition isConnected :: "'cb TcpConnection \<Rightarrow> bool" where
  "isConnected c = connected c"

definition Name :: "'cb TcpConnection \<Rightarrow> string" where
  "Name c = name c"

definition resizeData :: "nat \<Rightarrow> 'cb TcpConnection \<Rightarrow> 'cb TcpConnection" where
  "resizeData n c = c\<lparr>conn_data := resize n (conn_data c)\<rparr>"

definition getPacketBuffer :: "'cb TcpConnection \<Rightarrow> ConnBuffer" where
  "getPacketBuffer c = conn_buffer c"

text \<open>The read callback: data, nothing, an error, or the end of the stream; \<open>shutdown_done\<close> is the
  callback of the shutdown request it makes then.\<close>

definition UV_EOF :: int where
  "UV_EOF = -4095"

definition onMesageReceive ::
  "'w Libuv \<Rightarrow> int \<Rightarrow> uint8 list \<Rightarrow> 'cb TcpConnection \<Rightarrow> 'w \<Rightarrow> 'cb TcpConnection \<times> 'w \<times> 'cb Act list"
where
  "onMesageReceive uv nread buf c w =
     (if 0 < nread then (c, w, conn_onMessage (take (nat nread) buf) c)
      else if nread < 0 then
        (let c = setConnectStatus False c;
             acts = [LogAct Error (uv_err_name uv nread)]
         in if nread \<noteq> UV_EOF then (c, w, acts @ onSocketClose c)
            else (c, uv_shutdown uv (conn_handle c) w, acts))
      else (c, w, []))"

definition shutdown_done :: "'cb TcpConnection \<Rightarrow> 'cb Act list" where
  "shutdown_done c = onSocketClose c"

section \<open>The close protocol\<close>

sublocale libuv \<subseteq> conn: close_protocol
  "\<lambda>c. uv_is_closing uv (conn_handle c)" "conn_close uv" CloseComplete
  by unfold_locales (auto simp: conn_close_def CloseComplete_def run_if_def Let_def closing)

section \<open>Properties\<close>

text \<open>The callback of a write is run exactly once with the written bytes: at once, with an error
  status, when the connection is down or libuv refuses the request, and otherwise when libuv
  completes the request; in the first case libuv holds no request.\<close>

theorem write_callback_once:
  "case conn_write uv buf (Some f) c w of (rst, w', acts, req) \<Rightarrow>
     filter (\<lambda>a. \<nexists>l m. a = LogAct l m) acts @ (case req of Some q \<Rightarrow> write_done q st | None \<Rightarrow> [])
       = [RunWritten f \<lparr>wi_status = (if req = None then rst else st), wi_buf = buf\<rparr>]
     \<and> (req = None \<longleftrightarrow> rst \<noteq> 0) \<and> (connected c \<or> rst = Disconnected)"
  by (auto simp: conn_write_def write_done_def Disconnected_def split: prod.split)

end
