(* ===== verification/TcpClient.thy ===== *)
theory TcpClient
  imports TcpConnection
begin

text \<open>
  The client (\<open>uv/TcpClient.cpp\<close>): it makes a socket for every \<open>connect\<close>, owns one connection and
  reports its status to the user. The user's callbacks are values that a parameter interprets as
  functions on the client; \<open>calls\<close> records what was passed to them, in order. A socket is the number
  of its handle. Then an abstract machine of the client's life, which the operations refine.
\<close>

section \<open>State\<close>

datatype ConnectStatus = OnConnectSuccess | OnConnnectFail | OnConnnectClose

text \<open>The callbacks that the client gives to its connection.\<close>

datatype 'u ClientCb = ClientMessageBind | ConnectCloseBind | CloseBind | CloseUser "'u option" | ClientWrite 'u

datatype ClientArg =
  StatusArg ConnectStatus | MessageArg "uint8 list" | WrittenArg WriteInfo | ClosedArg

record ('u, 'w) TcpClient =
  cl_world :: 'w
  socket :: "handle option"
  cl_ipv :: IPV
  cl_noDelay :: bool
  connectCallback :: "'u option"
  cl_onMessageCb :: "'u option"
  connection :: "'u ClientCb TcpConnection option"
  cl_log :: "(Level \<times> string) list"
  calls :: "ClientArg list"

record ('u, 'w) ClientEnv =
  cl_uv :: "'w Libuv"
  cl_inet :: Inet
  cl_mode :: BufferMode
  cl_cycle :: uint64
  cl_user :: "'u \<Rightarrow> ClientArg \<Rightarrow> ('u, 'w) TcpClient \<Rightarrow> ('u, 'w) TcpClient option"

definition TcpClient_new :: "bool \<Rightarrow> 'w \<Rightarrow> ('u, 'w) TcpClient" where
  "TcpClient_new noDelay w =
     \<lparr>cl_world = w, socket = None, cl_ipv = Ipv4, cl_noDelay = noDelay, connectCallback = None,
      cl_onMessageCb = None, connection = None, cl_log = [], calls = []\<rparr>"

definition log_cl :: "Level \<Rightarrow> string \<Rightarrow> ('u, 'w) TcpClient \<Rightarrow> ('u, 'w) TcpClient" where
  "log_cl level msg s = s\<lparr>cl_log := cl_log s @ [(level, msg)]\<rparr>"

definition call_user ::
  "('u, 'w) ClientEnv \<Rightarrow> 'u option \<Rightarrow> ClientArg \<Rightarrow> ('u, 'w) TcpClient \<Rightarrow> ('u, 'w) TcpClient option"
where
  "call_user env cb arg s =
     (case cb of Some f \<Rightarrow> cl_user env f arg (s\<lparr>calls := calls s @ [arg]\<rparr>) | None \<Rightarrow> Some s)"

section \<open>Operations\<close>

definition cl_isTcpNoDelay :: "('u, 'w) TcpClient \<Rightarrow> bool" where
  "cl_isTcpNoDelay s = cl_noDelay s"

definition setTcpNoDelay :: "bool \<Rightarrow> ('u, 'w) TcpClient \<Rightarrow> ('u, 'w) TcpClient" where
  "setTcpNoDelay b s = s\<lparr>cl_noDelay := b\<rparr>"

text \<open>\<open>update\<close> makes a new socket, with handle \<open>h\<close>.\<close>

definition update_socket ::
  "('u, 'w) ClientEnv \<Rightarrow> handle \<Rightarrow> ('u, 'w) TcpClient \<Rightarrow> ('u, 'w) TcpClient"
where
  "update_socket env h s =
     (let w = uv_tcp_init (cl_uv env) h (cl_world s);
          w = (if cl_noDelay s then uv_tcp_nodelay (cl_uv env) h w else w)
      in s\<lparr>socket := Some h, cl_world := w\<rparr>)"

definition cl_connect ::
  "('u, 'w) ClientEnv \<Rightarrow> handle \<Rightarrow> SocketAddr \<Rightarrow> ('u, 'w) TcpClient \<Rightarrow> ('u, 'w) TcpClient"
where
  "cl_connect env h addr s =
     (let s = update_socket env h s
      in s\<lparr>cl_ipv := Ipv addr, cl_world := uv_tcp_connect (cl_uv env) h (Addr addr) (cl_world s)\<rparr>)"

definition runConnectCallback ::
  "('u, 'w) ClientEnv \<Rightarrow> ConnectStatus \<Rightarrow> ('u, 'w) TcpClient \<Rightarrow> ('u, 'w) TcpClient option"
where
  "runConnectCallback env st s = call_user env (connectCallback s) (StatusArg st) s"

definition onConnect ::
  "('u, 'w) ClientEnv \<Rightarrow> bool \<Rightarrow> ('u, 'w) TcpClient \<Rightarrow> ('u, 'w) TcpClient option"
where
  "onConnect env successed s =
     do {
       h \<leftarrow> socket s;
       if successed
       then
         do {
           nm \<leftarrow> AddrToStr (cl_inet env) (cl_uv env) h (cl_ipv s) (cl_world s);
           let (c, w) = TcpConnection_new (cl_uv env) (cl_mode env) (cl_cycle env) nm h True (cl_world s);
           let c = conn_setMessageCallback (Some ClientMessageBind) c;
           let c = conn_setConnectCloseCallback (Some ConnectCloseBind) c;
           runConnectCallback env OnConnectSuccess (s\<lparr>connection := Some c, cl_world := w\<rparr>)
         }
       else
         let w = (if uv_is_active (cl_uv env) h (cl_world s) then uv_read_stop (cl_uv env) h (cl_world s)
                  else cl_world s)
         in Some (s\<lparr>cl_world := (if \<not> uv_is_closing (cl_uv env) h w then uv_close (cl_uv env) h w else w)\<rparr>)
     }"

text \<open>The callback of the connect request.\<close>

definition connect_done ::
  "('u, 'w) ClientEnv \<Rightarrow> int \<Rightarrow> ('u, 'w) TcpClient \<Rightarrow> ('u, 'w) TcpClient option"
where
  "connect_done env st s =
     (if st \<noteq> 0 then onConnect env False (log_cl Error ''connect fail.'' s) else onConnect env True s)"

definition afterConnectFail ::
  "('u, 'w) ClientEnv \<Rightarrow> ('u, 'w) TcpClient \<Rightarrow> ('u, 'w) TcpClient option"
where
  "afterConnectFail env s = runConnectCallback env OnConnnectFail s"

definition cl_onClose ::
  "('u, 'w) ClientEnv \<Rightarrow> ('u, 'w) TcpClient \<Rightarrow> ('u, 'w) TcpClient option"
where
  "cl_onClose env s =
     runConnectCallback env OnConnnectClose
       (log_cl Info ''Close tcp client connection complete.'' s)"

text \<open>The callbacks that \<open>CloseComplete\<close> of the connection runs.\<close>

definition run_closed ::
  "('u, 'w) ClientEnv \<Rightarrow> 'u ClientCb list \<Rightarrow> ('u, 'w) TcpClient \<Rightarrow> ('u, 'w) TcpClient option"
where
  "run_closed env cbs s =
     (case cbs of
        [] \<Rightarrow> Some s
      | cb # _ \<Rightarrow>
          (case cb of
             CloseBind \<Rightarrow> cl_onClose env s
           | CloseUser callback \<Rightarrow> call_user env callback ClosedArg s
           | _ \<Rightarrow> None))"

definition close_conn ::
  "('u, 'w) ClientEnv \<Rightarrow> 'u ClientCb \<Rightarrow> 'u ClientCb TcpConnection \<Rightarrow> ('u, 'w) TcpClient \<Rightarrow>
    ('u, 'w) TcpClient option"
where
  "close_conn env cb c s =
     do {
       (c, w, cbs) \<leftarrow> conn_close (cl_uv env) (Some cb) c (cl_world s);
       run_closed env cbs (s\<lparr>connection := Some c, cl_world := w\<rparr>)
     }"

definition onConnectClose ::
  "('u, 'w) ClientEnv \<Rightarrow> ('u, 'w) TcpClient \<Rightarrow> ('u, 'w) TcpClient option"
where
  "onConnectClose env s =
     (case connection s of Some c \<Rightarrow> close_conn env CloseBind c s | None \<Rightarrow> Some s)"

definition cl_onMessage ::
  "('u, 'w) ClientEnv \<Rightarrow> uint8 list \<Rightarrow> ('u, 'w) TcpClient \<Rightarrow> ('u, 'w) TcpClient option"
where
  "cl_onMessage env buf s = call_user env (cl_onMessageCb s) (MessageArg buf) s"

definition cl_close ::
  "('u, 'w) ClientEnv \<Rightarrow> 'u option \<Rightarrow> ('u, 'w) TcpClient \<Rightarrow> ('u, 'w) TcpClient option"
where
  "cl_close env callback s =
     (case connection s of
        Some c \<Rightarrow> close_conn env (CloseUser callback) c s
      | None \<Rightarrow> call_user env callback ClosedArg s)"

text \<open>The actions of the client's connection.\<close>

definition cl_act ::
  "('u, 'w) ClientEnv \<Rightarrow> 'u ClientCb Act \<Rightarrow> ('u, 'w) TcpClient \<Rightarrow> ('u, 'w) TcpClient option"
where
  "cl_act env act s =
     (case act of
        LogAct l m \<Rightarrow> Some (log_cl l m s)
      | RunMessage cb buf \<Rightarrow> (case cb of ClientMessageBind \<Rightarrow> cl_onMessage env buf s | _ \<Rightarrow> None)
      | RunClose cb nm \<Rightarrow> (case cb of ConnectCloseBind \<Rightarrow> onConnectClose env s | _ \<Rightarrow> None)
      | RunWritten cb info \<Rightarrow>
          (case cb of ClientWrite f \<Rightarrow> call_user env (Some f) (WrittenArg info) s | _ \<Rightarrow> None))"

fun cl_acts ::
  "('u, 'w) ClientEnv \<Rightarrow> 'u ClientCb Act list \<Rightarrow> ('u, 'w) TcpClient \<Rightarrow> ('u, 'w) TcpClient option"
where
  "cl_acts env [] s = Some s"
| "cl_acts env (a # acts) s =
     (case cl_act env a s of Some s \<Rightarrow> cl_acts env acts s | None \<Rightarrow> None)"

text \<open>\<open>write\<close> returns nothing; the second component is the request that libuv holds afterwards.\<close>

definition cl_write ::
  "('u, 'w) ClientEnv \<Rightarrow> uint8 list \<Rightarrow> 'u option \<Rightarrow> ('u, 'w) TcpClient \<Rightarrow>
    (('u, 'w) TcpClient \<times> ('u ClientCb option \<times> uint8 list) option) option"
where
  "cl_write env buf callback s =
     (case connection s of
        Some c \<Rightarrow>
          (case conn_write (cl_uv env) buf (map_option ClientWrite callback) c (cl_world s) of
             (_, w, acts, req) \<Rightarrow>
               map_option (\<lambda>s. (s, req)) (cl_acts env acts (s\<lparr>cl_world := w\<rparr>)))
      | None \<Rightarrow>
          (case callback of
             Some f \<Rightarrow>
               map_option (\<lambda>s. (s, None))
                 (call_user env (Some f) (WrittenArg \<lparr>wi_status = Disconnected, wi_buf = buf\<rparr>)
                   (log_cl Warn ''try write a disconnect connection.'' s))
           | None \<Rightarrow> Some (s, None)))"

text \<open>The data of the function that \<open>writeInLoop\<close> hands to the loop, when there is a connection.\<close>

definition cl_writeInLoop ::
  "('u, 'w) ClientEnv \<Rightarrow> uint8 list \<Rightarrow> 'u option \<Rightarrow> ('u, 'w) TcpClient \<Rightarrow>
    (('u, 'w) TcpClient \<times> (uint8 list \<times> 'u option) option) option"
where
  "cl_writeInLoop env buf callback s =
     (case connection s of
        Some c \<Rightarrow> Some (s, Some (buf, callback))
      | None \<Rightarrow>
          (case callback of
             Some f \<Rightarrow>
               map_option (\<lambda>s. (s, None))
                 (call_user env (Some f) (WrittenArg \<lparr>wi_status = Disconnected, wi_buf = buf\<rparr>)
                   (log_cl Warn ''try write a disconnect connection.'' s))
           | None \<Rightarrow> Some (s, None)))"

definition setConnectStatusCallback :: "'u option \<Rightarrow> ('u, 'w) TcpClient \<Rightarrow> ('u, 'w) TcpClient" where
  "setConnectStatusCallback cb s = s\<lparr>connectCallback := cb\<rparr>"

definition cl_setMessageCallback :: "'u option \<Rightarrow> ('u, 'w) TcpClient \<Rightarrow> ('u, 'w) TcpClient" where
  "cl_setMessageCallback cb s = s\<lparr>cl_onMessageCb := cb\<rparr>"

definition getCurrentBuf :: "('u, 'w) TcpClient \<Rightarrow> ConnBuffer" where
  "getCurrentBuf s = (case connection s of Some c \<Rightarrow> getPacketBuffer c | None \<Rightarrow> NoBuf)"

section \<open>Events\<close>

text \<open>
  What libuv and the user do. A read, the end of a shutdown and the end of closing come for a handle;
  their data pointer is the connection of that handle, or, after a failed connect, the client.
\<close>

datatype 'u ClientEvent =
  ClConnect handle SocketAddr | ClConnected int | ClRead handle int "uint8 list" | ClShutdown handle
| ClClosed handle | ClClose "'u option"

definition conn_of :: "handle \<Rightarrow> ('u, 'w) TcpClient \<Rightarrow> 'u ClientCb TcpConnection option" where
  "conn_of h s =
     (case connection s of Some c \<Rightarrow> if conn_handle c = h then Some c else None | None \<Rightarrow> None)"

definition cl_read ::
  "('u, 'w) ClientEnv \<Rightarrow> handle \<Rightarrow> int \<Rightarrow> uint8 list \<Rightarrow> ('u, 'w) TcpClient \<Rightarrow> ('u, 'w) TcpClient option"
where
  "cl_read env h n buf s =
     do {
       c \<leftarrow> conn_of h s;
       let (c, w, acts) = onMesageReceive (cl_uv env) n buf c (cl_world s);
       cl_acts env acts (s\<lparr>cl_world := w, connection := Some c\<rparr>)
     }"

definition cl_shutdown ::
  "('u, 'w) ClientEnv \<Rightarrow> handle \<Rightarrow> ('u, 'w) TcpClient \<Rightarrow> ('u, 'w) TcpClient option"
where
  "cl_shutdown env h s = do { c \<leftarrow> conn_of h s; cl_acts env (shutdown_done c) s }"

text \<open>A handle without a connection is that of a failed connect.\<close>

definition cl_closed ::
  "('u, 'w) ClientEnv \<Rightarrow> handle \<Rightarrow> ('u, 'w) TcpClient \<Rightarrow> ('u, 'w) TcpClient option"
where
  "cl_closed env h s =
     (case conn_of h s of
        Some c \<Rightarrow> run_closed env (CloseComplete c) s
      | None \<Rightarrow> if socket s = Some h then afterConnectFail env s else None)"

fun cl_event ::
  "('u, 'w) ClientEnv \<Rightarrow> 'u ClientEvent \<Rightarrow> ('u, 'w) TcpClient \<Rightarrow> ('u, 'w) TcpClient option"
where
  "cl_event env (ClConnect h addr) s = Some (cl_connect env h addr s)"
| "cl_event env (ClConnected st) s = connect_done env st s"
| "cl_event env (ClRead h n buf) s = cl_read env h n buf s"
| "cl_event env (ClShutdown h) s = cl_shutdown env h s"
| "cl_event env (ClClosed h) s = cl_closed env h s"
| "cl_event env (ClClose cb) s = cl_close env cb s"

section \<open>An abstract machine\<close>

text \<open>The life of a client, with the callback that its closing will run.\<close>

datatype 'u Phase =
  Idling | Connecting handle | Failing handle | Opened handle | Closing handle "'u ClientCb"

fun report :: "'u ClientCb \<Rightarrow> ClientArg list" where
  "report CloseBind = [StatusArg OnConnnectClose]"
| "report (CloseUser (Some f)) = [ClosedArg]"
| "report _ = []"

text \<open>The next phase and what the user is told; \<open>None\<close> for an event that does not occur.\<close>

fun spec_event :: "'u ClientEvent \<Rightarrow> 'u Phase \<Rightarrow> ('u Phase \<times> ClientArg list) option" where
  "spec_event (ClConnect h _) Idling = Some (Connecting h, [])"
| "spec_event (ClConnected st) (Connecting h) =
     Some (if st = 0 then (Opened h, [StatusArg OnConnectSuccess]) else (Failing h, []))"
| "spec_event (ClRead k n buf) (Opened h) =
     (if k = h
      then Some (if n < 0 \<and> n \<noteq> UV_EOF then Closing h CloseBind else Opened h,
        if 0 < n then [MessageArg (take (nat n) buf)] else [])
      else None)"
| "spec_event (ClShutdown k) (Opened h) = (if k = h then Some (Closing h CloseBind, []) else None)"
| "spec_event (ClShutdown k) (Closing h cb) = (if k = h then Some (Closing h cb, []) else None)"
| "spec_event (ClClosed k) (Failing h) =
     (if k = h then Some (Idling, [StatusArg OnConnnectFail]) else None)"
| "spec_event (ClClosed k) (Closing h cb) = (if k = h then Some (Idling, report cb) else None)"
| "spec_event (ClClose cb) (Opened h) = Some (Closing h (CloseUser cb), [])"
| "spec_event (ClClose cb) (Closing h _) = Some (Closing h (CloseUser cb), report (CloseUser cb))"
| "spec_event (ClClose cb) p = Some (p, report (CloseUser cb))"
| "spec_event _ _ = None"

fun spec_run :: "'u ClientEvent list \<Rightarrow> 'u Phase \<Rightarrow> ('u Phase \<times> ClientArg list) option" where
  "spec_run [] p = Some (p, [])"
| "spec_run (e # es) p =
     (case spec_event e p of
        Some (p, out) \<Rightarrow> map_option (\<lambda>(p, outs). (p, out @ outs)) (spec_run es p)
      | None \<Rightarrow> None)"

abbreviation closing_h :: "('u, 'w) ClientEnv \<Rightarrow> ('u, 'w) TcpClient \<Rightarrow> handle \<Rightarrow> bool" where
  "closing_h env s h \<equiv> uv_is_closing (cl_uv env) h (cl_world s)"

text \<open>A connection of an earlier life: its handle is closing or closed.\<close>

definition past_conn :: "('u, 'w) ClientEnv \<Rightarrow> ('u, 'w) TcpClient \<Rightarrow> handle option \<Rightarrow> bool" where
  "past_conn env s h \<longleftrightarrow>
     (\<forall>c. connection s = Some c \<longrightarrow> closing_h env s (conn_handle c) \<and> Some (conn_handle c) \<noteq> h)"

fun client_rel :: "('u, 'w) ClientEnv \<Rightarrow> 'u Phase \<Rightarrow> ('u, 'w) TcpClient \<Rightarrow> bool" where
  "client_rel env Idling s \<longleftrightarrow> past_conn env s None"
| "client_rel env (Connecting h) s \<longleftrightarrow> socket s = Some h \<and> \<not> closing_h env s h \<and> past_conn env s (Some h)"
| "client_rel env (Failing h) s \<longleftrightarrow> socket s = Some h \<and> closing_h env s h \<and> past_conn env s (Some h)"
| "client_rel env (Opened h) s \<longleftrightarrow> \<not> closing_h env s h
     \<and> (\<exists>c. connection s = Some c \<and> conn_handle c = h \<and> onMessageCallback c = Some ClientMessageBind
          \<and> onConnectCloseCallback c = Some ConnectCloseBind)"
| "client_rel env (Closing h cb) s \<longleftrightarrow> closing_h env s h
     \<and> (\<exists>c. connection s = Some c \<and> conn_handle c = h \<and> onMessageCallback c = None
          \<and> onConnectCloseCallback c = None \<and> closeCompleteCallback c = Some cb)
     \<and> (cb = CloseBind \<or> (\<exists>f. cb = CloseUser f))"

text \<open>New sockets have handles of their own, and the peer's address can be written as text.\<close>

fun cl_enabled :: "('u, 'w) ClientEnv \<Rightarrow> ('u, 'w) TcpClient \<Rightarrow> 'u ClientEvent \<Rightarrow> bool" where
  "cl_enabled env s (ClConnect h addr) \<longleftrightarrow> \<not> closing_h env s h"
| "cl_enabled env s (ClConnected st) \<longleftrightarrow>
     st = 0 \<longrightarrow> (case socket s of
       Some h \<Rightarrow> AddrToStr (cl_inet env) (cl_uv env) h (cl_ipv s) (cl_world s) \<noteq> None | None \<Rightarrow> False)"
| "cl_enabled env s _ \<longleftrightarrow> True"

definition quiet_client :: "('u, 'w) ClientEnv \<Rightarrow> bool" where
  "quiet_client env \<longleftrightarrow> (\<forall>f arg s. \<exists>w. cl_user env f arg s = Some (s\<lparr>cl_world := w\<rparr>)
     \<and> (\<forall>h. uv_is_closing (cl_uv env) h w = closing_h env s h))"

lemma call_user_quiet:
  assumes "quiet_client env"
  obtains w where "call_user env cb arg s
      = Some (s\<lparr>cl_world := w, calls := calls s @ (if cb = None then [] else [arg])\<rparr>)"
    and "\<And>h. uv_is_closing (cl_uv env) h w = closing_h env s h"
proof (cases cb)
  case None
  then show ?thesis using that [of "cl_world s"] by (simp add: call_user_def)
next
  case (Some f)
  obtain w where "cl_user env f arg (s\<lparr>calls := calls s @ [arg]\<rparr>)
      = Some (s\<lparr>calls := calls s @ [arg]\<rparr>\<lparr>cl_world := w\<rparr>)"
    "\<And>h. uv_is_closing (cl_uv env) h w = closing_h env s h"
    using assms [unfolded quiet_client_def, rule_format, of f arg "s\<lparr>calls := calls s @ [arg]\<rparr>"] by auto
  then show ?thesis using that [of w] Some by (simp add: call_user_def)
qed

section \<open>The operations refine the machine\<close>

text \<open>What every event keeps: the user's callbacks.\<close>

abbreviation same_user :: "('u, 'w) TcpClient \<Rightarrow> ('u, 'w) TcpClient \<Rightarrow> bool" where
  "same_user s s' \<equiv> connectCallback s' = connectCallback s \<and> cl_onMessageCb s' = cl_onMessageCb s"

definition follows ::
  "('u, 'w) ClientEnv \<Rightarrow> ('u, 'w) TcpClient option \<Rightarrow> 'u Phase \<Rightarrow> ClientArg list \<Rightarrow> ('u, 'w) TcpClient \<Rightarrow> bool"
where
  "follows env r p out s \<longleftrightarrow>
     (\<exists>s'. r = Some s' \<and> client_rel env p s' \<and> calls s' = calls s @ out \<and> same_user s s')"

lemma past_conn_mono:
  assumes "past_conn env s h" and "connection s' = connection s"
    and "\<And>k. closing_h env s k \<Longrightarrow> closing_h env s' k"
  shows "past_conn env s' h"
  using assms by (simp add: past_conn_def)

text \<open>The relation looks at the world only through the closing handles.\<close>

lemma client_rel_cong:
  assumes "client_rel env p s" and "connection s' = connection s" and "socket s' = socket s"
    and "\<And>k. closing_h env s' k = closing_h env s k"
  shows "client_rel env p s'"
  using assms by (cases p) (auto simp: past_conn_def)

lemma call_user_follows:
  assumes "quiet_client env" and "client_rel env p s"
  shows "follows env (call_user env cb arg s) p (if cb = None then [] else [arg]) s"
proof -
  obtain w where w: "call_user env cb arg s
      = Some (s\<lparr>cl_world := w, calls := calls s @ (if cb = None then [] else [arg])\<rparr>)"
    "\<And>h. uv_is_closing (cl_uv env) h w = closing_h env s h"
    by (rule call_user_quiet [OF assms(1)]) blast
  then show ?thesis
    unfolding follows_def w(1) by (auto intro: client_rel_cong [OF assms(2)])
qed

text \<open>Closing the connection: the first request, and a request when it is closing.\<close>

lemma run_closed_follows:
  assumes "quiet_client env" and "client_rel env p s" and "connectCallback s \<noteq> None"
    and "cb = CloseBind \<or> (\<exists>f. cb = CloseUser f)"
  shows "follows env (run_closed env [cb] s) p (report cb) s"
proof -
  have log: "client_rel env p (log_cl l m s)" for l m
    using assms(2) by (rule client_rel_cong) (simp_all add: log_cl_def)
  from assms(4) show ?thesis
  proof
    assume "cb = CloseBind"
    then show ?thesis
      using call_user_follows [OF assms(1) log [of Info "''Close tcp client connection complete.''"],
          of "connectCallback s" "StatusArg OnConnnectClose"] assms(3)
      by (simp add: run_closed_def cl_onClose_def runConnectCallback_def follows_def log_cl_def)
  next
    assume "\<exists>f. cb = CloseUser f"
    then obtain f where "cb = CloseUser f" ..
    then show ?thesis
      using call_user_follows [OF assms(1,2), of f ClosedArg]
      by (cases f) (simp_all add: run_closed_def)
  qed
qed

lemma close_conn_open:
  assumes "libuv (cl_uv env)" and "connection s = Some c" and "\<not> closing_h env s (conn_handle c)"
    and "cb = CloseBind \<or> (\<exists>f. cb = CloseUser f)"
  shows "follows env (close_conn env cb c s) (Closing (conn_handle c) cb) [] s"
  using assms libuv.closing [OF assms(1)]
  by (auto simp: follows_def close_conn_def conn_close_def run_closed_def Let_def)

lemma close_conn_again:
  assumes "libuv (cl_uv env)" and "quiet_client env" and "connection s = Some c"
    and "closing_h env s (conn_handle c)" and "connectCallback s \<noteq> None"
    and "\<And>s1 c1. connection s1 = Some c1 \<Longrightarrow> conn_handle c1 = conn_handle c \<Longrightarrow> onMessageCallback c1 = None
      \<Longrightarrow> onConnectCloseCallback c1 = None \<Longrightarrow> closeCompleteCallback c1 = Some (CloseUser f)
      \<Longrightarrow> socket s1 = socket s \<Longrightarrow> (\<And>k. closing_h env s1 k = closing_h env s k) \<Longrightarrow> client_rel env p s1"
  shows "follows env (close_conn env (CloseUser f) c s) p (report (CloseUser f)) s"
proof -
  let ?w = "if uv_is_active (cl_uv env) (conn_handle c) (cl_world s)
    then uv_read_stop (cl_uv env) (conn_handle c) (cl_world s) else cl_world s"
  let ?c = "c\<lparr>onMessageCallback := None, onConnectCloseCallback := None,
    closeCompleteCallback := Some (CloseUser f)\<rparr>"
  let ?s = "s\<lparr>connection := Some ?c, cl_world := ?w\<rparr>"
  have "closing_h env ?s k = closing_h env s k" for k using libuv.closing [OF assms(1)] by simp
  then have "client_rel env p ?s" by (intro assms(6) [of _ ?c]) simp_all
  then have "follows env (run_closed env [CloseUser f] ?s) p (report (CloseUser f)) ?s"
    using assms(2,5) by (intro run_closed_follows) simp_all
  moreover have "close_conn env (CloseUser f) c s = run_closed env [CloseUser f] ?s"
    using assms(4) libuv.closing [OF assms(1)]
    by (simp add: close_conn_def conn_close_def CloseComplete_def run_if_def Let_def)
  ultimately show ?thesis by (simp add: follows_def)
qed

lemma connect_follows:
  assumes "libuv (cl_uv env)" and "past_conn env s None" and "\<not> closing_h env s h"
  shows "follows env (Some (cl_connect env h addr s)) (Connecting h) [] s"
  using assms(2,3) libuv.closing [OF assms(1)]
  by (auto simp: follows_def cl_connect_def update_socket_def Let_def past_conn_def)

lemma connected_follows:
  fixes s :: "('u, 'w) TcpClient"
  assumes "libuv (cl_uv env)" and "quiet_client env" and "client_rel env (Connecting h) s"
    and "cl_enabled env s (ClConnected 0)" and "connectCallback s \<noteq> None"
  shows "follows env (connect_done env 0 s) (Opened h) [StatusArg OnConnectSuccess] s"
proof -
  obtain nm where nm: "AddrToStr (cl_inet env) (cl_uv env) h (cl_ipv s) (cl_world s) = Some nm"
    and h: "socket s = Some h" "\<not> closing_h env s h"
    using assms(3,4) by auto
  obtain c0 :: "'u ClientCb TcpConnection" where c0: "TcpConnection_new (cl_uv env) (cl_mode env)
      (cl_cycle env) nm h True (cl_world s) = (c0, uv_read_start (cl_uv env) h (cl_world s))"
    "conn_handle c0 = h"
    by (simp add: TcpConnection_new_def)
  let ?c = "conn_setConnectCloseCallback (Some ConnectCloseBind)
    (conn_setMessageCallback (Some ClientMessageBind) c0)"
  let ?s = "s\<lparr>connection := Some ?c, cl_world := uv_read_start (cl_uv env) h (cl_world s)\<rparr>"
  have "client_rel env (Opened h) ?s"
    using h c0(2) libuv.closing [OF assms(1)]
    by (simp add: conn_setConnectCloseCallback_def conn_setMessageCallback_def)
  from call_user_follows [OF assms(2) this, of "connectCallback s" "StatusArg OnConnectSuccess"]
  show ?thesis
    using assms(5) nm h c0(1)
    by (simp add: connect_done_def onConnect_def runConnectCallback_def follows_def)
qed

lemma failed_follows:
  assumes "libuv (cl_uv env)" and "client_rel env (Connecting h) s" and "st \<noteq> 0"
  shows "follows env (connect_done env st s) (Failing h) [] s"
  using assms(2,3) libuv.closing [OF assms(1)]
  by (auto simp: connect_done_def onConnect_def follows_def past_conn_def log_cl_def Let_def)

lemma read_follows:
  assumes "libuv (cl_uv env)" and "quiet_client env" and "client_rel env (Opened h) s"
    and "cl_onMessageCb s \<noteq> None" and "spec_event (ClRead h n buf) (Opened h) = Some (p', out)"
  shows "follows env (cl_read env h n buf s) p' out s"
proof -
  obtain c where c: "connection s = Some c" "conn_handle c = h"
    "onMessageCallback c = Some ClientMessageBind" "onConnectCloseCallback c = Some ConnectCloseBind"
    and h: "\<not> closing_h env s h"
    using assms(3) by auto
  have same: "s\<lparr>connection := Some c\<rparr> = s" using c(1) by (cases s) simp
  let ?down = "log_cl Error (uv_err_name (cl_uv env) n) (s\<lparr>connection := Some (setConnectStatus False c)\<rparr>)"
  consider (data) "0 < n" | (none) "n = 0" | (eof) "n = UV_EOF" | (err) "n < 0" "n \<noteq> UV_EOF" by linarith
  then show ?thesis
  proof cases
    case data
    then have "cl_read env h n buf s = call_user env (cl_onMessageCb s) (MessageArg (take (nat n) buf)) s"
      by (simp add: c same cl_read_def conn_of_def onMesageReceive_def conn_onMessage_def cl_act_def
          cl_onMessage_def option.case_eq_if)
    moreover have "p' = Opened h" "out = [MessageArg (take (nat n) buf)]" using assms(5) data by auto
    ultimately show ?thesis
      using call_user_follows [OF assms(2,3), of "cl_onMessageCb s" "MessageArg (take (nat n) buf)"]
        assms(4) by simp
  next
    case none
    then have "cl_read env h n buf s = Some s"
      by (simp add: c same cl_read_def conn_of_def onMesageReceive_def)
    with none show ?thesis using assms(3,5) by (auto simp: follows_def)
  next
    case eof
    then have "cl_read env h n buf s = Some (?down\<lparr>cl_world := uv_shutdown (cl_uv env) h (cl_world s)\<rparr>)"
      using c by (simp add: cl_read_def conn_of_def onMesageReceive_def setConnectStatus_def cl_act_def
          UV_EOF_def Let_def log_cl_def)
    with eof show ?thesis
      using assms(5) c h libuv.closing [OF assms(1)]
      by (auto simp: follows_def log_cl_def setConnectStatus_def UV_EOF_def)
  next
    case err
    let ?c = "setConnectStatus False c"
    have "follows env (close_conn env CloseBind ?c ?down) (Closing (conn_handle ?c) CloseBind) [] ?down"
      using h c(2) by (intro close_conn_open [OF assms(1)]) (simp_all add: log_cl_def setConnectStatus_def)
    moreover have "cl_read env h n buf s = close_conn env CloseBind ?c ?down"
      using err c by (auto simp: cl_read_def conn_of_def onMesageReceive_def onSocketClose_def cl_act_def
          setConnectStatus_def onConnectClose_def Let_def log_cl_def split: option.split)
    ultimately show ?thesis
      using err assms(5) c(2) by (auto simp: follows_def log_cl_def setConnectStatus_def)
  qed
qed

lemma shutdown_follows:
  assumes "libuv (cl_uv env)" and "client_rel env p s" and "spec_event (ClShutdown h) p = Some (p', out)"
  shows "follows env (cl_shutdown env h s) p' out s"
proof (cases p)
  case (Opened k)
  then have k: "k = h" "p' = Closing h CloseBind" "out = []"
    using assms(3) by (auto split: if_splits)
  then obtain c where c: "connection s = Some c" "conn_handle c = h" "\<not> closing_h env s h"
    "onConnectCloseCallback c = Some ConnectCloseBind"
    using assms(2) Opened by auto
  have "cl_shutdown env h s = cl_acts env [RunClose ConnectCloseBind (name c)] s"
    by (simp add: cl_shutdown_def conn_of_def shutdown_done_def onSocketClose_def c(1,2,4))
  also have "\<dots> = close_conn env CloseBind c s"
    by (simp add: cl_act_def onConnectClose_def c(1) option.case_eq_if)
  finally have "cl_shutdown env h s = close_conn env CloseBind c s" .
  then show ?thesis using close_conn_open [OF assms(1) c(1), where cb = CloseBind] c k by simp
next
  case (Closing k cb)
  then obtain c where "connection s = Some c" "conn_handle c = h" "onConnectCloseCallback c = None"
    using assms(2,3) by (auto split: if_splits)
  then have "cl_shutdown env h s = Some s"
    by (simp add: cl_shutdown_def conn_of_def shutdown_done_def onSocketClose_def)
  then show ?thesis using Closing assms(2,3) by (auto simp: follows_def split: if_splits)
qed (use assms(3) in simp_all)

lemma closed_follows:
  assumes "quiet_client env" and "client_rel env p s" and "connectCallback s \<noteq> None"
    and "spec_event (ClClosed h) p = Some (p', out)"
  shows "follows env (cl_closed env h s) p' out s"
proof (cases p)
  case (Failing k)
  then have k: "k = h" "p' = Idling" "out = [StatusArg OnConnnectFail]"
    using assms(4) by (auto split: if_splits)
  then have past: "past_conn env s (Some h)" "socket s = Some h" using assms(2) Failing by auto
  then have "client_rel env Idling s" by (simp add: past_conn_def)
  from call_user_follows [OF assms(1) this, of "connectCallback s" "StatusArg OnConnnectFail"]
  show ?thesis
    using past assms(3) k
    by (simp add: cl_closed_def conn_of_def past_conn_def afterConnectFail_def runConnectCallback_def
        split: option.split)
next
  case (Closing k cb)
  then have k: "k = h" "p' = Idling" "out = report cb"
    using assms(4) by (auto split: if_splits)
  then obtain c where c: "connection s = Some c" "conn_handle c = h" "closeCompleteCallback c = Some cb"
    "closing_h env s h" "cb = CloseBind \<or> (\<exists>f. cb = CloseUser f)"
    using assms(2) Closing by auto
  then have "client_rel env Idling s" by (simp add: past_conn_def)
  from run_closed_follows [OF assms(1) this assms(3) c(5)] show ?thesis
    using c(1-3) k by (simp add: cl_closed_def conn_of_def CloseComplete_def run_if_def)
qed (use assms(4) in simp_all)

lemma close_follows:
  assumes "libuv (cl_uv env)" and "quiet_client env" and "client_rel env p s"
    and "connectCallback s \<noteq> None" and "spec_event (ClClose cb) p = Some (p', out)"
  shows "follows env (cl_close env cb s) p' out s"
proof -
  have past: "follows env (cl_close env cb s) p (report (CloseUser cb)) s"
    if "past_conn env s None" and "\<And>s1. past_conn env s1 None \<Longrightarrow> socket s1 = socket s
      \<Longrightarrow> map_option conn_handle (connection s1) = map_option conn_handle (connection s)
      \<Longrightarrow> (\<And>k. closing_h env s1 k = closing_h env s k) \<Longrightarrow> client_rel env p s1"
  proof (cases "connection s")
    case None
    then show ?thesis
      using call_user_follows [OF assms(2,3), of cb ClosedArg] by (cases cb) (simp_all add: cl_close_def)
  next
    case (Some c)
    have "follows env (close_conn env (CloseUser cb) c s) p (report (CloseUser cb)) s"
      using that(1) Some
      by (intro close_conn_again [OF assms(1,2) Some _ assms(4)] that(2)) (auto simp: past_conn_def)
    with Some show ?thesis by (simp add: cl_close_def)
  qed
  show ?thesis
  proof (cases p)
    case (Opened h)
    then obtain c where "connection s = Some c" "conn_handle c = h" "\<not> closing_h env s h"
      using assms(3) by auto
    then show ?thesis
      using close_conn_open [OF assms(1), of s c "CloseUser cb"] assms(5) Opened
      by (auto simp: cl_close_def)
  next
    case (Closing h cb')
    then obtain c where c: "connection s = Some c" "conn_handle c = h" "closing_h env s h"
      using assms(3) by auto
    then have "follows env (close_conn env (CloseUser cb) c s) (Closing h (CloseUser cb)) (report (CloseUser cb)) s"
      by (intro close_conn_again [OF assms(1,2) _ _ assms(4)]) auto
    with Closing c assms(5) show ?thesis by (simp add: cl_close_def)
  next
    case Idling
    then show ?thesis using past assms(3,5) by simp
  next
    case (Connecting h)
    then have "past_conn env s (Some h)" "socket s = Some h" "\<not> closing_h env s h" using assms(3) by auto
    then have "follows env (cl_close env cb s) p (report (CloseUser cb)) s"
      by (intro past) (cases "connection s"; auto simp: past_conn_def Connecting)+
    then show ?thesis using assms(5) Connecting by simp
  next
    case (Failing h)
    then have "past_conn env s (Some h)" "socket s = Some h" "closing_h env s h" using assms(3) by auto
    then have "follows env (cl_close env cb s) p (report (CloseUser cb)) s"
      by (intro past) (cases "connection s"; auto simp: past_conn_def Failing)+
    then show ?thesis using assms(5) Failing by simp
  qed
qed

lemma event_follows:
  assumes "libuv (cl_uv env)" and "quiet_client env" and "client_rel env p s"
    and "connectCallback s \<noteq> None" and "cl_onMessageCb s \<noteq> None"
    and "cl_enabled env s e" and "spec_event e p = Some (p', out)"
  shows "follows env (cl_event env e s) p' out s"
proof (cases e)
  case (ClConnect h addr)
  then have "p = Idling" "p' = Connecting h" "out = []" using assms(7) by (cases p; simp)+
  then show ?thesis using connect_follows [OF assms(1), of s h addr] assms(3,6) ClConnect by simp
next
  case (ClConnected st)
  then obtain h where h: "p = Connecting h" using assms(7) by (cases p) simp_all
  then have "p' = (if st = 0 then Opened h else Failing h)"
    "out = (if st = 0 then [StatusArg OnConnectSuccess] else [])"
    using ClConnected assms(7) by (auto split: if_splits)
  then show ?thesis
    using ClConnected h assms(6) connected_follows [OF assms(1,2) assms(3) [unfolded h] _ assms(4)]
      failed_follows [OF assms(1) assms(3) [unfolded h], of st] by (cases "st = 0") simp_all
next
  case (ClRead h n buf)
  then have p: "p = Opened h" using assms(7) by (cases p) (auto split: if_splits)
  from read_follows [OF assms(1,2) assms(3) [unfolded p] assms(5) assms(7) [unfolded p ClRead]]
  show ?thesis using ClRead by simp
next
  case (ClShutdown h)
  then show ?thesis using shutdown_follows [OF assms(1,3)] assms(7) by simp
next
  case (ClClosed h)
  then show ?thesis using closed_follows [OF assms(2-4)] assms(7) by simp
next
  case (ClClose cb)
  then show ?thesis using close_follows [OF assms(1-4)] assms(7) by simp
qed

section \<open>Runs\<close>

text \<open>A client with both callbacks set, before its first connect.\<close>

inductive client_run ::
  "('u, 'w) ClientEnv \<Rightarrow> ('u, 'w) TcpClient \<Rightarrow> 'u ClientEvent list \<Rightarrow> 'u Phase \<Rightarrow> ClientArg list \<Rightarrow>
    ('u, 'w) TcpClient \<Rightarrow> bool"
  for env s0
where
  client_start: "connectCallback s0 \<noteq> None \<Longrightarrow> cl_onMessageCb s0 \<noteq> None \<Longrightarrow> connection s0 = None \<Longrightarrow>
    calls s0 = [] \<Longrightarrow> client_run env s0 [] Idling [] s0"
| client_step: "client_run env s0 es p outs s \<Longrightarrow> spec_event e p = Some (p', out) \<Longrightarrow>
    cl_enabled env s e \<Longrightarrow> cl_event env e s = Some s' \<Longrightarrow>
    client_run env s0 (es @ [e]) p' (outs @ out) s'"

lemma client_run_ok:
  assumes "client_run env s0 es p outs s" and "libuv (cl_uv env)" and "quiet_client env"
  shows "client_rel env p s \<and> calls s = outs \<and> connectCallback s \<noteq> None \<and> cl_onMessageCb s \<noteq> None"
  using assms(1)
proof induction
  case client_start
  then show ?case by (simp add: past_conn_def)
next
  case (client_step es p outs s e p' out s')
  then have "follows env (cl_event env e s) p' out s"
    using event_follows [OF assms(2,3)] by blast
  with client_step show ?case by (auto simp: follows_def)
qed

lemma spec_run_append:
  "spec_run (es @ es') p = (case spec_run es p of
     Some (p1, o1) \<Rightarrow> map_option (\<lambda>(p2, o2). (p2, o1 @ o2)) (spec_run es' p1) | None \<Rightarrow> None)"
  by (induction es arbitrary: p)
    (auto simp: option.map_comp comp_def case_prod_unfold option.map_ident split: option.splits)

lemma client_run_spec: "client_run env s0 es p outs s \<Longrightarrow> spec_run es Idling = Some (p, outs)"
proof (induction rule: client_run.induct)
  case (client_step es p outs s e p' out s')
  then show ?case by (simp add: spec_run_append)
qed simp

text \<open>The statuses that a user who never closes the client can see.\<close>

fun lifecycle :: "bool \<Rightarrow> ConnectStatus list \<Rightarrow> bool" where
  "lifecycle up [] \<longleftrightarrow> True"
| "lifecycle False (OnConnectSuccess # sts) \<longleftrightarrow> lifecycle True sts"
| "lifecycle False (OnConnnectFail # sts) \<longleftrightarrow> lifecycle False sts"
| "lifecycle True (OnConnnectClose # sts) \<longleftrightarrow> lifecycle False sts"
| "lifecycle _ _ \<longleftrightarrow> False"

fun up_in :: "'u Phase \<Rightarrow> bool" where
  "up_in (Opened h) \<longleftrightarrow> True"
| "up_in (Closing h cb) \<longleftrightarrow> True"
| "up_in _ \<longleftrightarrow> False"

definition statuses :: "ClientArg list \<Rightarrow> ConnectStatus list" where
  "statuses outs = concat (map (\<lambda>a. case a of StatusArg st \<Rightarrow> [st] | _ \<Rightarrow> []) outs)"

lemma spec_lifecycle:
  assumes "spec_run es p = Some (p', outs)" and "\<forall>e \<in> set es. \<forall>cb. e \<noteq> ClClose cb"
    and "\<forall>h cb. p = Closing h cb \<longrightarrow> cb = CloseBind"
  shows "lifecycle (up_in p) (statuses outs)"
  using assms
proof (induction es arbitrary: p outs)
  case Nil
  then show ?case by (simp add: statuses_def)
next
  case (Cons e es)
  obtain p1 out outs1 where e: "spec_event e p = Some (p1, out)" "spec_run es p1 = Some (p', outs1)"
    "outs = out @ outs1"
    using Cons.prems(1) by (auto split: option.splits)
  have "(\<forall>h cb. p1 = Closing h cb \<longrightarrow> cb = CloseBind)
      \<and> (lifecycle (up_in p1) (statuses outs1) \<longrightarrow> lifecycle (up_in p) (statuses (out @ outs1)))"
    using e(1) Cons.prems(2,3)
    by (cases "(e, p)" rule: spec_event.cases) (auto simp: statuses_def split: if_splits)
  with Cons.IH [OF e(2)] Cons.prems(2) e(3) show ?case by simp
qed

section \<open>A client for examples\<close>

definition sim_client_env :: "(unit, Sim) ClientEnv" where
  "sim_client_env = \<lparr>cl_uv = sim_uv, cl_inet = sim_inet, cl_mode = NoBuffer, cl_cycle = 0,
     cl_user = (\<lambda>f arg s. Some s)\<rparr>"

definition sim_client :: "(unit, Sim) TcpClient" where
  "sim_client = cl_setMessageCallback (Some ()) (setConnectStatusCallback (Some ())
     (TcpClient_new True sim_init))"

definition sim_addr :: SocketAddr where
  "sim_addr = SocketAddr_new sim_inet ''127.0.0.1'' 80 Ipv4"

lemma sim_client_env: "libuv (cl_uv sim_client_env)" "quiet_client sim_client_env"
proof -
  show "libuv (cl_uv sim_client_env)" using sim.libuv_axioms by (simp add: sim_client_env_def)
  have "cl_user sim_client_env f arg s = Some (s\<lparr>cl_world := cl_world s\<rparr>)" for f arg s
    by (simp add: sim_client_env_def)
  then show "quiet_client sim_client_env" unfolding quiet_client_def by blast
qed

lemma sim_client_start: "client_run sim_client_env sim_client [] Idling [] sim_client"
  by (rule client_start) (simp_all add: sim_client_def TcpClient_new_def
      cl_setMessageCallback_def setConnectStatusCallback_def)

fun cl_allowed :: "unit ClientEvent list \<Rightarrow> unit Phase \<Rightarrow> (unit, Sim) TcpClient \<Rightarrow> bool" where
  "cl_allowed [] p s \<longleftrightarrow> True"
| "cl_allowed (e # es) p s \<longleftrightarrow> cl_enabled sim_client_env s e
     \<and> (case (spec_event e p, cl_event sim_client_env e s) of
          (Some (p', _), Some s') \<Rightarrow> cl_allowed es p' s' | _ \<Rightarrow> False)"

fun cl_steps :: "unit ClientEvent list \<Rightarrow> (unit, Sim) TcpClient \<Rightarrow> (unit, Sim) TcpClient option" where
  "cl_steps [] s = Some s"
| "cl_steps (e # es) s =
     (case cl_event sim_client_env e s of Some s \<Rightarrow> cl_steps es s | None \<Rightarrow> None)"

lemma cl_allowed_run:
  assumes "client_run sim_client_env s0 es0 p outs s" and "cl_allowed es p s"
  shows "\<exists>p' outs' s'. client_run sim_client_env s0 (es0 @ es) p' (outs @ outs') s'
    \<and> spec_run es p = Some (p', outs') \<and> cl_steps es s = Some s'"
  using assms
proof (induction es arbitrary: es0 p outs s)
  case (Cons e es)
  obtain p1 out s1 where e: "spec_event e p = Some (p1, out)" "cl_event sim_client_env e s = Some s1"
    "cl_enabled sim_client_env s e" "cl_allowed es p1 s1"
    using Cons.prems(2) by (auto split: option.splits)
  from client_step [OF Cons.prems(1) e(1,3,2)] Cons.IH [of "es0 @ [e]" p1 "outs @ out" s1] e(4)
  obtain p' outs' s' where "client_run sim_client_env s0 ((es0 @ [e]) @ es) p' ((outs @ out) @ outs') s'"
    "spec_run es p1 = Some (p', outs')" "cl_steps es s1 = Some s'" by blast
  with e show ?case by auto
qed simp

section \<open>Properties\<close>

text \<open>C5: the client refines its abstract machine: an event that the machine allows in the phase of
  the client never uses a destroyed connection, leaves the client in the machine's next phase, and
  tells the user exactly what the machine says, in that order.\<close>

theorem client_refines:
  assumes "libuv (cl_uv env)" and "quiet_client env" and "client_run env s0 es p outs s"
    and "cl_enabled env s e" and "spec_event e p = Some (p', out)"
  shows "\<exists>s'. cl_event env e s = Some s' \<and> client_run env s0 (es @ [e]) p' (outs @ out) s'
    \<and> client_rel env p' s' \<and> calls s' = calls s @ out"
proof -
  have "follows env (cl_event env e s) p' out s"
    using client_run_ok [OF assms(3,1,2)] event_follows [OF assms(1,2) _ _ _ assms(4,5)] by blast
  then obtain s' where s': "cl_event env e s = Some s'" "client_rel env p' s'" "calls s' = calls s @ out"
    by (auto simp: follows_def)
  with client_step [OF assms(3,5,4) s'(1)] show ?thesis by blast
qed

theorem client_refines_witness:
  "\<exists>s'. cl_event sim_client_env (ClConnect 3 sim_addr) sim_client = Some s'
     \<and> client_rel sim_client_env (Connecting 3) s' \<and> calls s' = []"
proof -
  have "cl_enabled sim_client_env sim_client (ClConnect 3 sim_addr)" "calls sim_client = []" by code_simp+
  with client_refines [OF sim_client_env sim_client_start, of "ClConnect 3 sim_addr" "Connecting 3" "[]"]
  show ?thesis by auto
qed

text \<open>Whatever the network does, a user who does not close the client is told a status history of
  the form: any number of failed connects, then a successful one, then its close, and so on; no
  connect is reported twice and no close without a success before it.\<close>

theorem client_lifecycle:
  assumes "libuv (cl_uv env)" and "quiet_client env" and "client_run env s0 es p outs s"
    and "\<forall>e \<in> set es. \<forall>cb. e \<noteq> ClClose cb"
  shows "lifecycle False (statuses (calls s))"
  using client_run_ok [OF assms(3,1,2)] spec_lifecycle [OF client_run_spec [OF assms(3)] assms(4)] by simp

theorem client_lifecycle_witness:
  "\<exists>s. cl_steps [ClConnect 3 sim_addr, ClConnected (-111), ClClosed 3, ClConnect 4 sim_addr, ClConnected 0,
       ClRead 4 UV_EOF [], ClShutdown 4, ClClosed 4] sim_client = Some s
     \<and> lifecycle False (statuses (calls s))"
proof -
  let ?es = "[ClConnect 3 sim_addr, ClConnected (-111), ClClosed 3, ClConnect 4 sim_addr, ClConnected 0,
    ClRead 4 UV_EOF [], ClShutdown 4, ClClosed 4] :: unit ClientEvent list"
  have "cl_allowed ?es Idling sim_client" by code_simp
  from cl_allowed_run [OF sim_client_start this] obtain p outs s where
    s: "client_run sim_client_env sim_client ?es p outs s" "cl_steps ?es sim_client = Some s" by auto
  from client_lifecycle [OF sim_client_env s(1)] s(2) show ?thesis by auto
qed

text \<open>A second \<open>close\<close> before the first has completed runs the second callback at once and again
  when libuv reports the handle closed, and never the first: a callback that deletes the client, as
  \<open>HttpClient\<close> passes it, deletes it twice.\<close>

theorem client_close_twice:
  assumes "libuv (cl_uv env)" and "quiet_client env" and "client_run env s0 es (Opened h) outs s"
  shows "\<exists>s1 s2 s3. cl_close env (Some f) s = Some s1 \<and> cl_close env (Some g) s1 = Some s2
    \<and> cl_closed env h s2 = Some s3 \<and> calls s1 = calls s \<and> calls s2 = calls s @ [ClosedArg]
    \<and> calls s3 = calls s @ [ClosedArg, ClosedArg]
    \<and> map_option closeCompleteCallback (connection s2) = Some (Some (CloseUser (Some g)))"
proof -
  note ok = event_follows [OF assms(1,2)]
  have s: "client_rel env (Opened h) s" "connectCallback s \<noteq> None" "cl_onMessageCb s \<noteq> None"
    using client_run_ok [OF assms(3,1,2)] by auto
  obtain s1 where s1: "cl_close env (Some f) s = Some s1" "calls s1 = calls s" "same_user s s1"
    "client_rel env (Closing h (CloseUser (Some f))) s1"
    using ok [OF s, of "ClClose (Some f)"] by (auto simp: follows_def)
  then obtain s2 where s2: "cl_close env (Some g) s1 = Some s2" "calls s2 = calls s1 @ [ClosedArg]"
    "same_user s1 s2" "client_rel env (Closing h (CloseUser (Some g))) s2"
    using ok [OF s1(4), of "ClClose (Some g)"] s by (auto simp: follows_def)
  then obtain s3 where "cl_closed env h s2 = Some s3" "calls s3 = calls s2 @ [ClosedArg]"
    using ok [OF s2(4), of "ClClosed h"] s1 s by (auto simp: follows_def)
  with s1 s2 show ?thesis by auto
qed

theorem client_close_twice_witness:
  "\<exists>s s1 s2. cl_steps [ClConnect 3 sim_addr, ClConnected 0] sim_client = Some s
     \<and> cl_close sim_client_env (Some ()) s = Some s1 \<and> cl_close sim_client_env (Some ()) s1 = Some s2
     \<and> calls s2 = calls s @ [ClosedArg]"
proof -
  let ?es = "[ClConnect 3 sim_addr, ClConnected 0] :: unit ClientEvent list"
  have "cl_allowed ?es Idling sim_client" "map_option fst (spec_run ?es Idling) = Some (Opened 3)" by code_simp+
  with cl_allowed_run [OF sim_client_start, of ?es] obtain outs s where
    s: "client_run sim_client_env sim_client ?es (Opened 3) outs s" "cl_steps ?es sim_client = Some s" by auto
  from client_close_twice [OF sim_client_env s(1), of "()" "()"] s(2) show ?thesis by blast
qed

text \<open>\<open>close\<close> while a connect is pending reports the client closed at once, but the connect goes
  on: the user is told of its success afterwards, and the socket stays open.\<close>

theorem client_close_pending:
  assumes "libuv (cl_uv env)" and "quiet_client env" and "client_run env s0 es (Connecting h) outs s"
    and "\<And>s1. cl_close env (Some f) s = Some s1 \<Longrightarrow> cl_enabled env s1 (ClConnected 0)"
  shows "\<exists>s1 s2. cl_close env (Some f) s = Some s1 \<and> connect_done env 0 s1 = Some s2
    \<and> calls s2 = calls s @ [ClosedArg, StatusArg OnConnectSuccess] \<and> \<not> closing_h env s2 h"
proof -
  have s: "client_rel env (Connecting h) s" "connectCallback s \<noteq> None" "cl_onMessageCb s \<noteq> None"
    using client_run_ok [OF assms(3,1,2)] by auto
  obtain s1 where s1: "cl_close env (Some f) s = Some s1" "calls s1 = calls s @ [ClosedArg]"
    "same_user s s1" "client_rel env (Connecting h) s1"
    using event_follows [OF assms(1,2) s, of "ClClose (Some f)"] by (auto simp: follows_def)
  from assms(4) [OF s1(1)] obtain s2 where "connect_done env 0 s1 = Some s2" "client_rel env (Opened h) s2"
    "calls s2 = calls s1 @ [StatusArg OnConnectSuccess]"
    using event_follows [OF assms(1,2) s1(4), of "ClConnected 0"] s s1(3) by (auto simp: follows_def)
  with s1 show ?thesis by auto
qed

theorem client_close_pending_witness:
  "\<exists>s s1 s2. cl_steps [ClConnect 3 sim_addr] sim_client = Some s
     \<and> cl_close sim_client_env (Some ()) s = Some s1 \<and> connect_done sim_client_env 0 s1 = Some s2
     \<and> calls s2 = calls s @ [ClosedArg, StatusArg OnConnectSuccess]"
proof -
  let ?es = "[ClConnect 3 sim_addr] :: unit ClientEvent list"
  have "cl_allowed ?es Idling sim_client" "map_option fst (spec_run ?es Idling) = Some (Connecting 3)" by code_simp+
  with cl_allowed_run [OF sim_client_start, of ?es] obtain outs s where
    s: "client_run sim_client_env sim_client ?es (Connecting 3) outs s" "cl_steps ?es sim_client = Some s" by auto
  have "case cl_steps ?es sim_client of None \<Rightarrow> False | Some s \<Rightarrow>
      (case cl_close sim_client_env (Some ()) s of None \<Rightarrow> False
       | Some s1 \<Rightarrow> cl_enabled sim_client_env s1 (ClConnected 0))"
    by code_simp
  then have "cl_enabled sim_client_env s1 (ClConnected 0)"
    if "cl_close sim_client_env (Some ()) s = Some s1" for s1
    using s(2) that by (auto split: option.splits)
  from client_close_pending [OF sim_client_env s(1) this, of "()"] s(2) show ?thesis by blast
qed

end
