(* ===== verification/EchoClients.thy ===== *)
theory EchoClients
  imports EchoServer TcpClient Watchers
begin

text \<open>
  The client of the pingpang example (\<open>examples/pingpang/Clinet.hpp\<close>): a \<open>TcpClient\<close> that sends a test
  message when it is connected, sends back every packet it gets, and connects again, after a timer,
  when a connect fails or the connection is closed. The clients of the other examples have the same
  methods and differ in three constants, which are a record. A \<open>new\<close> gets its handle as an argument.
\<close>

section \<open>State\<close>

datatype OnMessage = Ignore | EchoRaw | EchoPackets

record ClientKind =
  reconnect_ms :: uint64
  test_data :: "uint8 list"
  on_message :: OnMessage

text \<open>\<open>char data[1024] = "test message"\<close>, and \<open>char data[]\<close> with the terminating zero.\<close>

definition pingpang_kind :: ClientKind where
  "pingpang_kind = \<lparr>reconnect_ms = 1000, test_data = resize 1024 (bytes_of ''test message''),
     on_message = EchoPackets\<rparr>"

definition all_example_kind :: ClientKind where
  "all_example_kind = \<lparr>reconnect_ms = 500, test_data = bytes_of ''test message'' @ [0], on_message = Ignore\<rparr>"

definition cross_thread_kind :: ClientKind where
  "cross_thread_kind = \<lparr>reconnect_ms = 500, test_data = bytes_of ''test message'' @ [0], on_message = EchoRaw\<rparr>"

text \<open>The functions bound to the TCP client, and those given to a timer.\<close>

datatype ClientBind = BindConnect | BindMessage

datatype TimerBind = Reconnect | DeleteTimer

text \<open>\<open>timers\<close> are the timer objects that exist.\<close>

record 'w EchoClient =
  sockAddr :: "SocketAddr option"
  tcp :: "(ClientBind, 'w) TcpClient"
  timers :: "TimerBind Timer list"

definition EchoClient_new :: "bool \<Rightarrow> 'w \<Rightarrow> 'w EchoClient" where
  "EchoClient_new noDelay w =
     \<lparr>sockAddr = None,
      tcp = cl_setMessageCallback (Some BindMessage)
        (setConnectStatusCallback (Some BindConnect) (TcpClient_new noDelay w)),
      timers = []\<rparr>"

section \<open>Operations\<close>

definition connectToServer ::
  "(ClientBind, 'w) ClientEnv \<Rightarrow> handle \<Rightarrow> SocketAddr \<Rightarrow> 'w EchoClient \<Rightarrow> 'w EchoClient"
where
  "connectToServer env h addr c = c\<lparr>sockAddr := Some addr, tcp := cl_connect env h addr (tcp c)\<rparr>"

definition reConnect ::
  "(ClientBind, 'w) ClientEnv \<Rightarrow> ClientKind \<Rightarrow> handle \<Rightarrow> 'w EchoClient \<Rightarrow> 'w EchoClient"
where
  "reConnect env kind th c =
     (case Timer_new (cl_uv env) th (reconnect_ms kind) 0 (Some Reconnect) (cl_world (tcp c)) of
        (timer, w) \<Rightarrow> (case timer_start (cl_uv env) timer w of
           (timer, w) \<Rightarrow> c\<lparr>timers := timer # timers c, tcp := (tcp c)\<lparr>cl_world := w\<rparr>\<rparr>))"

text \<open>What a timer runs when it has expired: connect again, then close and delete the timer.\<close>

definition delete_timer :: "handle \<Rightarrow> 'w EchoClient \<Rightarrow> 'w EchoClient" where
  "delete_timer th c = c\<lparr>timers := filter (\<lambda>t. timer_handle t \<noteq> th) (timers c)\<rparr>"

definition reconnect_fired ::
  "(ClientBind, 'w) ClientEnv \<Rightarrow> handle \<Rightarrow> TimerBind Timer \<Rightarrow> 'w EchoClient \<Rightarrow> 'w EchoClient option"
where
  "reconnect_fired env h timer c =
     do {
       addr \<leftarrow> sockAddr c;
       let c = c\<lparr>tcp := cl_connect env h addr (tcp c)\<rparr>;
       (timer', w, cbs) \<leftarrow> timer_close (cl_uv env) (Some DeleteTimer) timer (cl_world (tcp c));
       let c = c\<lparr>tcp := (tcp c)\<lparr>cl_world := w\<rparr>,
         timers := map (\<lambda>t. if timer_handle t = timer_handle timer then timer' else t) (timers c)\<rparr>;
       Some (if cbs = [] then c else delete_timer (timer_handle timer) c)
     }"

definition sendTestMessage ::
  "(ClientBind, 'w) ClientEnv \<Rightarrow> PacketStatics \<Rightarrow> ClientKind \<Rightarrow> 'w EchoClient \<Rightarrow> 'w EchoClient option"
where
  "sendTestMessage env st kind c =
     (if cl_mode env = NoBuffer
      then map_option (\<lambda>(cl, _). c\<lparr>tcp := cl\<rparr>) (cl_write env (test_data kind) None (tcp c))
      else
        do {
          packet \<leftarrow> pack st (test_data kind) (word_of_nat (length (test_data kind))) Packet_init;
          (cl, _) \<leftarrow> cl_write env (take (unat (PacketSize packet)) (Buffer packet)) None (tcp c);
          Some (c\<lparr>tcp := cl\<rparr>)
        })"

definition ec_onConnect ::
  "(ClientBind, 'w) ClientEnv \<Rightarrow> PacketStatics \<Rightarrow> ClientKind \<Rightarrow> handle \<Rightarrow> ConnectStatus \<Rightarrow> 'w EchoClient \<Rightarrow>
    'w EchoClient option"
where
  "ec_onConnect env st kind th status c =
     (if status \<noteq> OnConnectSuccess then Some (reConnect env kind th c) else sendTestMessage env st kind c)"

text \<open>
  The loop over the buffer of the connection, as in the echo server; the packets read are written in
  order. Writing does not touch the buffer.
\<close>

definition buffer_echo ::
  "'b PacketBuffer \<Rightarrow> PacketStatics \<Rightarrow> uint8 list \<Rightarrow> 'b \<Rightarrow> ('b \<times> uint8 list list) option"
where
  "buffer_echo ops st buf b =
     do {
       b \<leftarrow> append_received ops buf b;
       endless (newMessage_round st ops) (b, Packet_init, [])
     }"

fun conn_echo ::
  "uint64 \<Rightarrow> PacketStatics \<Rightarrow> uint8 list \<Rightarrow> ConnBuffer \<Rightarrow> (ConnBuffer \<times> uint8 list list) option"
where
  "conn_echo cbs st buf (ListBuf b) = map_option (\<lambda>(b, out). (ListBuf b, out)) (buffer_echo ListBuffer_ops st buf b)"
| "conn_echo cbs st buf (CycleBuf b) =
     map_option (\<lambda>(b, out). (CycleBuf b, out)) (buffer_echo (CycleBuffer_ops cbs) st buf b)"
| "conn_echo cbs st buf NoBuf = Some (NoBuf, [])"

fun write_all ::
  "(ClientBind, 'w) ClientEnv \<Rightarrow> uint8 list list \<Rightarrow> (ClientBind, 'w) TcpClient \<Rightarrow> (ClientBind, 'w) TcpClient option"
where
  "write_all env [] cl = Some cl"
| "write_all env (p # ps) cl = do { (cl, _) \<leftarrow> cl_write env p None cl; write_all env ps cl }"

definition set_conn_buffer :: "ConnBuffer \<Rightarrow> ('u, 'w) TcpClient \<Rightarrow> ('u, 'w) TcpClient" where
  "set_conn_buffer pb cl = cl\<lparr>connection := map_option (\<lambda>c. c\<lparr>conn_buffer := pb\<rparr>) (connection cl)\<rparr>"

definition ec_newMessage ::
  "(ClientBind, 'w) ClientEnv \<Rightarrow> PacketStatics \<Rightarrow> ClientKind \<Rightarrow> uint8 list \<Rightarrow> 'w EchoClient \<Rightarrow> 'w EchoClient option"
where
  "ec_newMessage env st kind buf c =
     (case on_message kind of
        Ignore \<Rightarrow> Some c
      | EchoRaw \<Rightarrow> map_option (\<lambda>(cl, _). c\<lparr>tcp := cl\<rparr>) (cl_write env buf None (tcp c))
      | EchoPackets \<Rightarrow>
          if cl_mode env = NoBuffer
          then map_option (\<lambda>(cl, _). c\<lparr>tcp := cl\<rparr>) (cl_write env buf None (tcp c))
          else
            do {
              (pb, out) \<leftarrow> conn_echo (cl_cycle env) st buf (getCurrentBuf (tcp c));
              cl \<leftarrow> write_all env out (set_conn_buffer pb (tcp c));
              Some (c\<lparr>tcp := cl\<rparr>)
            })"

section \<open>Events\<close>

text \<open>What the TCP client passes to its callbacks runs the methods, in order.\<close>

fun ec_calls ::
  "(ClientBind, 'w) ClientEnv \<Rightarrow> PacketStatics \<Rightarrow> ClientKind \<Rightarrow> handle \<Rightarrow> ClientArg list \<Rightarrow> 'w EchoClient \<Rightarrow>
    'w EchoClient option"
where
  "ec_calls env st kind th [] c = Some c"
| "ec_calls env st kind th (StatusArg status # as) c =
     do { c \<leftarrow> ec_onConnect env st kind th status c; ec_calls env st kind th as c }"
| "ec_calls env st kind th (MessageArg buf # as) c =
     do { c \<leftarrow> ec_newMessage env st kind buf c; ec_calls env st kind th as c }"
| "ec_calls env st kind th (_ # as) c = ec_calls env st kind th as c"

definition ec_event ::
  "(ClientBind, 'w) ClientEnv \<Rightarrow> PacketStatics \<Rightarrow> ClientKind \<Rightarrow> handle \<Rightarrow> ClientBind ClientEvent \<Rightarrow> 'w EchoClient \<Rightarrow>
    'w EchoClient option"
where
  "ec_event env st kind th e c =
     do {
       cl \<leftarrow> cl_event env e (tcp c);
       ec_calls env st kind th (drop (length (calls (tcp c))) (calls cl)) (c\<lparr>tcp := cl\<rparr>)
     }"

section \<open>Runs\<close>

text \<open>
  What the loop does with a client that nobody closes. An armed timer has been started and not been
  closed; it fires at most once, since what it runs closes it. New handles are unused ones.
\<close>

definition armed :: "'w EchoClient \<Rightarrow> TimerBind Timer list" where
  "armed c = filter (\<lambda>t. started t \<and> timer_closeComplete t = None) (timers c)"

definition fresh :: "(ClientBind, 'w) ClientEnv \<Rightarrow> 'w EchoClient \<Rightarrow> handle \<Rightarrow> bool" where
  "fresh env c h \<longleftrightarrow> \<not> closing_h env (tcp c) h \<and> h \<notin> timer_handle ` set (timers c)"

fun net_event :: "'u ClientEvent \<Rightarrow> bool" where
  "net_event (ClConnect h addr) \<longleftrightarrow> False"
| "net_event (ClClose cb) \<longleftrightarrow> False"
| "net_event _ \<longleftrightarrow> True"

inductive echo_run ::
  "(ClientBind, 'w) ClientEnv \<Rightarrow> PacketStatics \<Rightarrow> ClientKind \<Rightarrow> ClientBind Phase \<Rightarrow> 'w EchoClient \<Rightarrow> bool"
  for env st kind
where
  echo_start: "\<not> uv_is_closing (cl_uv env) h w \<Longrightarrow>
    echo_run env st kind (Connecting h) (connectToServer env h addr (EchoClient_new noDelay w))"
| echo_net: "echo_run env st kind p c \<Longrightarrow> net_event e \<Longrightarrow> spec_event e p = Some (p', out) \<Longrightarrow>
    cl_enabled env (tcp c) e \<Longrightarrow> fresh env c th \<Longrightarrow>
    (\<And>cl. cl_event env e (tcp c) = Some cl \<Longrightarrow> \<not> closing_h env cl th) \<Longrightarrow>
    ec_event env st kind th e c = Some c' \<Longrightarrow> echo_run env st kind p' c'"
| echo_timer: "echo_run env st kind p c \<Longrightarrow> t \<in> set (armed c) \<Longrightarrow> onTimeOut t = [Reconnect] \<Longrightarrow>
    fresh env c h \<Longrightarrow> reconnect_fired env h t c = Some c' \<Longrightarrow> echo_run env st kind (Connecting h) c'"
| echo_deleted: "echo_run env st kind p c \<Longrightarrow> t \<in> set (timers c) \<Longrightarrow> timer_closed t = [DeleteTimer] \<Longrightarrow>
    echo_run env st kind p (delete_timer (timer_handle t) c)"

text \<open>The reconnect timer is armed exactly while the client is idle.\<close>

definition echo_base :: "(ClientBind, 'w) ClientEnv \<Rightarrow> ClientBind Phase \<Rightarrow> 'w EchoClient \<Rightarrow> bool" where
  "echo_base env p c \<longleftrightarrow> client_rel env p (tcp c)
     \<and> connectCallback (tcp c) = Some BindConnect \<and> cl_onMessageCb (tcp c) = Some BindMessage
     \<and> sockAddr c \<noteq> None \<and> distinct (map timer_handle (timers c))
     \<and> (\<forall>t\<in>set (timers c). timer_callback t = Some Reconnect)
     \<and> (\<forall>h cb. p = Closing h cb \<longrightarrow> cb = CloseBind)"

definition echo_ok :: "(ClientBind, 'w) ClientEnv \<Rightarrow> ClientBind Phase \<Rightarrow> 'w EchoClient \<Rightarrow> bool" where
  "echo_ok env p c \<longleftrightarrow> echo_base env p c \<and> length (armed c) = (if p = Idling then 1 else 0)"

section \<open>Writing keeps the client\<close>

text \<open>A change of the client that its phase, its callbacks and what it told the user do not see.\<close>

definition keeps :: "('u, 'w) ClientEnv \<Rightarrow> ('u, 'w) TcpClient \<Rightarrow> ('u, 'w) TcpClient \<Rightarrow> bool" where
  "keeps env s s' \<longleftrightarrow> (\<forall>p. client_rel env p s \<longrightarrow> client_rel env p s') \<and> same_user s s'
     \<and> (\<forall>h. closing_h env s' h = closing_h env s h)"

lemma keeps_refl [simp]: "keeps env s s"
  by (simp add: keeps_def)

lemma keeps_trans: "keeps env s s' \<Longrightarrow> keeps env s' s'' \<Longrightarrow> keeps env s s''"
  by (simp add: keeps_def)

lemma cl_write_keeps:
  assumes "libuv (cl_uv env)"
  shows "\<exists>s' r. cl_write env buf None s = Some (s', r) \<and> keeps env s s'"
proof (cases "connection s")
  case None
  then show ?thesis by (simp add: cl_write_def)
next
  case (Some c)
  have w: "uv_is_closing (cl_uv env) h (snd (uv_write (cl_uv env) k d (cl_world s))) = closing_h env s h" for h k d
    using libuv.closing [OF assms] by simp
  obtain rst w' where wr: "uv_write (cl_uv env) (conn_handle c) buf (cl_world s) = (rst, w')" by fastforce
  have cl: "uv_is_closing (cl_uv env) h w' = closing_h env s h" for h
    using w [of h "conn_handle c" buf] by (simp add: wr)
  have "keeps env s (s\<lparr>cl_world := w'\<rparr>)" "keeps env s (log_cl l m (s\<lparr>cl_world := w'\<rparr>))" for l m
    unfolding keeps_def using cl by (auto simp: log_cl_def intro: client_rel_cong)
  then show ?thesis
    using Some wr by (auto simp: cl_write_def conn_write_def cl_act_def)
qed

lemma write_all_keeps:
  assumes "libuv (cl_uv env)"
  shows "\<exists>s'. write_all env ps s = Some s' \<and> keeps env s s'"
proof (induction ps arbitrary: s)
  case (Cons p ps)
  obtain s1 r where "cl_write env p None s = Some (s1, r)" "keeps env s s1"
    using cl_write_keeps [OF assms, of p s] by blast
  with Cons.IH [of s1] show ?case using keeps_trans by fastforce
qed simp

lemma set_conn_buffer_keeps: "keeps env s (set_conn_buffer pb s)"
proof -
  have "client_rel env p s \<Longrightarrow> client_rel env p (set_conn_buffer pb s)" for p
    by (cases p) (auto simp: set_conn_buffer_def past_conn_def)
  then show ?thesis by (simp add: keeps_def set_conn_buffer_def)
qed

text \<open>The two methods that only write.\<close>

definition sends :: "(ClientBind, 'w) ClientEnv \<Rightarrow> 'w EchoClient \<Rightarrow> 'w EchoClient \<Rightarrow> bool" where
  "sends env c c' \<longleftrightarrow> (\<exists>cl. c' = c\<lparr>tcp := cl\<rparr> \<and> keeps env (tcp c) cl)"

lemma sendsI: "keeps env (tcp c) cl \<Longrightarrow> sends env c (c\<lparr>tcp := cl\<rparr>)"
  unfolding sends_def by blast

lemma sends_refl: "sends env c c"
  using sendsI [of env c "tcp c"] by simp

lemma sends_methods:
  assumes "libuv (cl_uv env)"
  shows "sendTestMessage env st kind c = Some c' \<Longrightarrow> sends env c c'"
    and "ec_newMessage env st kind buf c = Some c' \<Longrightarrow> sends env c c'"
proof -
  have one: "keeps env (tcp c) cl" if "cl_write env d None (tcp c) = Some (cl, r)" for d cl r
    using that cl_write_keeps [OF assms, of d "tcp c"] by auto
  have buffered: "keeps env (tcp c) cl" if "write_all env out (set_conn_buffer pb (tcp c)) = Some cl" for out pb cl
    using that write_all_keeps [OF assms, of out "set_conn_buffer pb (tcp c)"]
      keeps_trans [OF set_conn_buffer_keeps] by fastforce
  show "sends env c c'" if "sendTestMessage env st kind c = Some c'"
    using that by (auto simp: sendTestMessage_def intro!: sendsI intro: one split: if_splits Option.bind_splits)
  show "sends env c c'" if "ec_newMessage env st kind buf c = Some c'"
    using that
    by (cases "on_message kind")
      (auto simp: ec_newMessage_def intro!: sendsI sends_refl intro: one buffered split: if_splits Option.bind_splits)
qed

section \<open>The invariant\<close>

lemma net_out:
  assumes "net_event e" and "spec_event e p = Some (p', out)" and "\<forall>h cb. p = Closing h cb \<longrightarrow> cb = CloseBind"
  shows "p \<noteq> Idling \<and> (\<forall>h cb. p' = Closing h cb \<longrightarrow> cb = CloseBind)
    \<and> (p' \<noteq> Idling \<and> (out = [] \<or> out = [StatusArg OnConnectSuccess] \<or> (\<exists>buf. out = [MessageArg buf]))
       \<or> p' = Idling \<and> (\<exists>status. status \<noteq> OnConnectSuccess \<and> out = [StatusArg status]))"
  using assms by (cases "(e, p)" rule: spec_event.cases) (auto split: if_splits)

lemma reConnect_ok:
  assumes "libuv (cl_uv env)" and "echo_base env Idling c" and "armed c = []" and "fresh env c th"
  shows "echo_ok env Idling (reConnect env kind th c)"
proof -
  let ?w = "uv_timer_start (cl_uv env) th (reconnect_ms kind) 0 (uv_timer_init (cl_uv env) th (cl_world (tcp c)))"
  let ?t = "\<lparr>started = True, timer_handle = th, timeout = reconnect_ms kind, repeat_ms = 0,
    timer_callback = Some Reconnect, timer_closeComplete = None\<rparr>"
  have r: "reConnect env kind th c = c\<lparr>timers := ?t # timers c, tcp := (tcp c)\<lparr>cl_world := ?w\<rparr>\<rparr>"
    by (simp add: reConnect_def Timer_new_def timer_start_def)
  have "uv_is_closing (cl_uv env) k ?w = closing_h env (tcp c) k" for k
    using assms(4) libuv.closing [OF assms(1)] by (auto simp: fresh_def)
  with assms(2) have "client_rel env Idling ((tcp c)\<lparr>cl_world := ?w\<rparr>)"
    by (simp add: echo_base_def past_conn_def)
  with assms(2-4) show ?thesis by (auto simp: r echo_ok_def echo_base_def armed_def fresh_def)
qed

lemma sends_ok: "echo_ok env p c \<Longrightarrow> sends env c c' \<Longrightarrow> echo_ok env p c'"
  by (auto simp: sends_def keeps_def echo_ok_def echo_base_def armed_def)

lemma timer_close_Some:
  "\<exists>w' cbs. timer_close uv cb t w = Some (t\<lparr>timer_closeComplete := cb\<rparr>, w', cbs)"
  by (auto simp: timer_close_def Let_def)

lemma fired_ok:
  assumes "libuv (cl_uv env)" and "echo_ok env p c" and "t \<in> set (armed c)" and "fresh env c h"
  shows "\<exists>c'. reconnect_fired env h t c = Some c' \<and> echo_ok env (Connecting h) c'"
proof -
  let ?th = "timer_handle t" and ?t = "t\<lparr>timer_closeComplete := Some DeleteTimer\<rparr>"
  have p: "p = Idling" "armed c = [t]"
    using assms(2,3) by (auto simp: echo_ok_def length_Suc_conv split: if_splits)
  obtain addr where addr: "sockAddr c = Some addr" using assms(2) by (auto simp: echo_ok_def echo_base_def)
  define cl where "cl = cl_connect env h addr (tcp c)"
  have "follows env (Some cl) (Connecting h) [] (tcp c)"
    using connect_follows [OF assms(1), of "tcp c" h addr] assms(2,4) p(1)
    by (simp add: cl_def echo_ok_def echo_base_def fresh_def)
  then have cl: "client_rel env (Connecting h) cl" "same_user (tcp c) cl" by (auto simp: follows_def)
  have th: "?th \<noteq> h" "t \<in> set (timers c)" using assms(3,4) by (auto simp: fresh_def armed_def)
  obtain cbs w where close: "timer_close (cl_uv env) (Some DeleteTimer) t (cl_world cl) = Some (?t, w, cbs)"
    using timer_close_Some [of "cl_uv env" "Some DeleteTimer" t "cl_world cl"] by blast
  have w: "uv_is_closing (cl_uv env) k w \<longleftrightarrow> k = ?th \<or> closing_h env cl k" for k
    using close libuv.closing [OF assms(1)] by (auto simp: timer_close_def Let_def split: if_splits)
  have rel: "client_rel env (Connecting h) (cl\<lparr>cl_world := w\<rparr>)"
    using cl(1) w th(1) by (auto simp: past_conn_def)
  let ?ts = "map (\<lambda>x. if timer_handle x = ?th then ?t else x) (timers c)"
  have handles: "map timer_handle ?ts = map timer_handle (timers c)" by simp
  have none: "\<not> (started x \<and> timer_closeComplete x = None)" if "x \<in> set ?ts" for x
  proof -
    have "y = t" if "y \<in> set (timers c)" "started y \<and> timer_closeComplete y = None" for y
    proof -
      have "y \<in> set (armed c)" using that by (simp add: armed_def)
      then show ?thesis by (simp add: p(2))
    qed
    then have "timer_handle x = ?th" if "started x" "timer_closeComplete x = None" "x \<in> set (timers c)"
      using that by blast
    with that show ?thesis by auto
  qed
  have dist: "distinct (map timer_handle ?ts)" "\<forall>x\<in>set ?ts. timer_callback x = Some Reconnect"
    using assms(2) th(2) unfolding handles by (auto simp: echo_ok_def echo_base_def)
  define ts where "ts = (if cbs = [] then ?ts else filter (\<lambda>x. timer_handle x \<noteq> ?th) ?ts)"
  have ts: "set ts \<subseteq> set ?ts" "distinct (map timer_handle ts)"
    using dist(1) by (auto simp: ts_def distinct_map_filter)
  have "reconnect_fired env h t c = Some (c\<lparr>tcp := cl\<lparr>cl_world := w\<rparr>, timers := ts\<rparr>)"
    using addr close by (simp add: reconnect_fired_def cl_def [symmetric] delete_timer_def ts_def Let_def)
  moreover have "armed (c\<lparr>tcp := cl\<lparr>cl_world := w\<rparr>, timers := ts\<rparr>) = []"
    using none ts(1) by (auto simp: armed_def filter_empty_conv)
  ultimately show ?thesis
    using rel cl(2) dist(2) ts assms(2) by (auto simp: echo_ok_def echo_base_def)
qed

lemma deleted_ok:
  assumes "echo_ok env p c" and "t \<in> set (timers c)" and "timer_closed t = [DeleteTimer]"
  shows "echo_ok env p (delete_timer (timer_handle t) c)"
proof -
  have "timer_handle x \<noteq> timer_handle t" if "x \<in> set (timers c)" "timer_closeComplete x = None" for x
  proof
    assume "timer_handle x = timer_handle t"
    then have "x = t" using assms(1,2) that(1) by (auto simp: echo_ok_def echo_base_def distinct_map dest: inj_onD)
    with assms(3) that(2) show False by (simp add: timer_closed_def run_if_def)
  qed
  then have "armed (delete_timer (timer_handle t) c) = armed c"
    by (auto simp: armed_def delete_timer_def intro!: filter_cong)
  with assms(1) show ?thesis
    by (auto simp: echo_ok_def echo_base_def delete_timer_def distinct_map_filter)
qed

lemma net_ok:
  assumes "libuv (cl_uv env)" and "quiet_client env" and "echo_ok env p c"
    and "net_event e" and "spec_event e p = Some (p', out)" and "cl_enabled env (tcp c) e" and "fresh env c th"
    and "\<And>cl. cl_event env e (tcp c) = Some cl \<Longrightarrow> \<not> closing_h env cl th"
    and "ec_event env st kind th e c = Some c'"
  shows "echo_ok env p' c'"
proof -
  have ok: "client_rel env p (tcp c)" "connectCallback (tcp c) \<noteq> None" "cl_onMessageCb (tcp c) \<noteq> None"
    and bind: "\<forall>h cb. p = Closing h cb \<longrightarrow> cb = CloseBind"
    using assms(3) by (auto simp: echo_ok_def echo_base_def)
  obtain cl where cl: "cl_event env e (tcp c) = Some cl" "client_rel env p' cl" "calls cl = calls (tcp c) @ out"
    "same_user (tcp c) cl"
    using event_follows [OF assms(1,2) ok assms(6,5)] by (auto simp: follows_def)
  let ?c = "c\<lparr>tcp := cl\<rparr>"
  have c': "ec_calls env st kind th out ?c = Some c'"
    using assms(9) cl(1,3) by (simp add: ec_event_def)
  note out = net_out [OF assms(4,5) bind]
  have base: "echo_base env p' ?c" "armed ?c = []"
    using assms(3) cl(2,4) out by (auto simp: echo_ok_def echo_base_def armed_def)
  consider "p' \<noteq> Idling" "out = []" | "p' \<noteq> Idling" "out = [StatusArg OnConnectSuccess]"
    | buf where "p' \<noteq> Idling" "out = [MessageArg buf]"
    | status where "p' = Idling" "status \<noteq> OnConnectSuccess" "out = [StatusArg status]"
    using out by blast
  then show ?thesis
  proof cases
    case 1
    with base c' show ?thesis by (simp add: echo_ok_def)
  next
    case 2
    then have "sendTestMessage env st kind ?c = Some c'"
      using c' by (auto simp: ec_onConnect_def split: Option.bind_splits)
    with sends_ok [of env p' ?c c'] sends_methods(1) [OF assms(1)] 2(1) base show ?thesis
      by (simp add: echo_ok_def)
  next
    case 3
    then have "ec_newMessage env st kind buf ?c = Some c'"
      using c' by (auto split: Option.bind_splits)
    with sends_ok [of env p' ?c c'] sends_methods(2) [OF assms(1)] 3(1) base show ?thesis
      by (simp add: echo_ok_def)
  next
    case 4
    then have "c' = reConnect env kind th ?c" using c' by (simp add: ec_onConnect_def)
    moreover have "fresh env ?c th" using assms(7) assms(8) [OF cl(1)] by (simp add: fresh_def)
    ultimately show ?thesis using reConnect_ok [OF assms(1), of ?c th kind] base 4(1) by simp
  qed
qed

text \<open>The invariant in every run.\<close>

lemma echo_run_ok:
  assumes "echo_run env st kind p c" and "libuv (cl_uv env)" and "quiet_client env"
  shows "echo_ok env p c"
  using assms(1)
proof induction
  case (echo_start h w addr noDelay)
  let ?s = "cl_setMessageCallback (Some BindMessage) (setConnectStatusCallback (Some BindConnect)
    (TcpClient_new noDelay w)) :: (ClientBind, 'a) TcpClient"
  have "past_conn env ?s None" "\<not> closing_h env ?s h" "connectCallback ?s = Some BindConnect"
    "cl_onMessageCb ?s = Some BindMessage"
    using echo_start by (simp_all add: past_conn_def cl_setMessageCallback_def setConnectStatusCallback_def TcpClient_new_def)
  with connect_follows [OF assms(2), of ?s h addr]
  show ?case
    by (auto simp: echo_ok_def echo_base_def connectToServer_def EchoClient_new_def armed_def follows_def)
next
  case (echo_net p c e p' out th c')
  then show ?case using net_ok [OF assms(2,3)] by blast
next
  case (echo_timer p c t h c')
  then show ?case using fired_ok [OF assms(2)] by fastforce
next
  case (echo_deleted p c t)
  then show ?case by (intro deleted_ok)
qed

section \<open>Properties\<close>

text \<open>C17: a client that nobody closes always comes back: in every state of every run in which it is idle
  (it is neither connected nor connecting, and no failed or lost connection is still being closed), exactly
  one timer is armed, and when it expires the client
  connects again; in every other state no timer is armed, so that two connects never overlap.\<close>

theorem echo_reconnects:
  assumes "libuv (cl_uv env)" and "quiet_client env" and "echo_run env st kind p c"
  shows "if p = Idling
    then \<exists>t. armed c = [t] \<and> onTimeOut t = [Reconnect] \<and> (\<forall>h. fresh env c h \<longrightarrow>
      (\<exists>c'. reconnect_fired env h t c = Some c' \<and> echo_run env st kind (Connecting h) c' \<and> armed c' = []))
    else armed c = []"
proof (cases "p = Idling")
  case True
  have ok: "echo_ok env Idling c" using echo_run_ok [OF assms(3,1,2)] True by simp
  then obtain t where t: "armed c = [t]" by (auto simp: echo_ok_def length_Suc_conv)
  then have "t \<in> set (timers c)" by (metis armed_def filter_is_subset list.set_intros(1) subsetD)
  with ok have run: "onTimeOut t = [Reconnect]" by (simp add: echo_ok_def echo_base_def onTimeOut_def run_if_def)
  have "\<exists>c'. reconnect_fired env h t c = Some c' \<and> echo_run env st kind (Connecting h) c' \<and> armed c' = []"
    if new: "fresh env c h" for h
  proof -
    obtain c' where c': "reconnect_fired env h t c = Some c'" "echo_ok env (Connecting h) c'"
      using fired_ok [OF assms(1) ok _ new, of t] t by auto
    with echo_timer [OF assms(3) _ run new c'(1)] t show ?thesis by (auto simp: echo_ok_def)
  qed
  with t run True show ?thesis by auto
qed (use echo_run_ok [OF assms(3,1,2)] in \<open>simp add: echo_ok_def\<close>)

definition sim_echo_env :: "(ClientBind, Sim) ClientEnv" where
  "sim_echo_env = \<lparr>cl_uv = sim_uv, cl_inet = sim_inet, cl_mode = NoBuffer, cl_cycle = 0,
     cl_user = (\<lambda>f arg s. Some s)\<rparr>"

abbreviation echo_example :: "Sim EchoClient" where
  "echo_example \<equiv> connectToServer sim_echo_env 3 sim_addr (EchoClient_new True sim_init)"

abbreviation echo_refused :: "Sim EchoClient option" where
  "echo_refused \<equiv> do {
     c \<leftarrow> ec_event sim_echo_env Packet_statics_init pingpang_kind 9 (ClConnected (-111)) echo_example;
     ec_event sim_echo_env Packet_statics_init pingpang_kind 9 (ClClosed 3) c }"

lemma sim_echo_env: "libuv (cl_uv sim_echo_env)" "quiet_client sim_echo_env"
proof -
  show "libuv (cl_uv sim_echo_env)" using sim.libuv_axioms by (simp add: sim_echo_env_def)
  have "cl_user sim_echo_env f arg s = Some (s\<lparr>cl_world := cl_world s\<rparr>)" for f arg s
    by (simp add: sim_echo_env_def)
  then show "quiet_client sim_echo_env" unfolding quiet_client_def by blast
qed

text \<open>A connect that is refused: the timer 9 is armed, and connects again.\<close>

theorem echo_reconnects_witness:
  "\<exists>c t c'. echo_refused = Some c \<and> armed c = [t] \<and> timer_handle t = 9
     \<and> reconnect_fired sim_echo_env 4 t c = Some c' \<and> armed c' = []"
proof -
  let ?st = Packet_statics_init
  have c0: "echo_run sim_echo_env ?st pingpang_kind (Connecting 3) echo_example"
    by (rule echo_start) (simp add: sim_echo_env_def sim_uv_def sim_init_def)
  have "case ec_event sim_echo_env ?st pingpang_kind 9 (ClConnected (-111)) echo_example of None \<Rightarrow> False | Some c1 \<Rightarrow>
      fresh sim_echo_env c1 9 \<and> cl_enabled sim_echo_env (tcp c1) (ClClosed 3)
      \<and> (case cl_event sim_echo_env (ClClosed 3) (tcp c1) of None \<Rightarrow> False | Some cl \<Rightarrow> \<not> closing_h sim_echo_env cl 9)
      \<and> (case ec_event sim_echo_env ?st pingpang_kind 9 (ClClosed 3) c1 of None \<Rightarrow> False
         | Some c2 \<Rightarrow> fresh sim_echo_env c2 4 \<and> map timer_handle (armed c2) = [9])"
    by code_simp
  then obtain c1 c2 where c: "ec_event sim_echo_env ?st pingpang_kind 9 (ClConnected (-111)) echo_example = Some c1"
    "fresh sim_echo_env c1 9" "\<forall>cl. cl_event sim_echo_env (ClClosed 3) (tcp c1) = Some cl \<longrightarrow> \<not> closing_h sim_echo_env cl 9"
    "ec_event sim_echo_env ?st pingpang_kind 9 (ClClosed 3) c1 = Some c2"
    "fresh sim_echo_env c2 4" "map timer_handle (armed c2) = [9]"
    by (auto split: option.splits)
  have enabled: "cl_enabled sim_echo_env (tcp c1) (ClClosed 3)" by simp
  have "case cl_event sim_echo_env (ClConnected (-111)) (tcp echo_example) of None \<Rightarrow> False | Some cl1 \<Rightarrow>
      \<not> closing_h sim_echo_env cl1 9" by code_simp
  moreover have "fresh sim_echo_env echo_example 9" "cl_enabled sim_echo_env (tcp echo_example) (ClConnected (-111))"
    by code_simp+
  ultimately have c1: "echo_run sim_echo_env ?st pingpang_kind (Failing 3) c1"
    using echo_net [OF c0, of "ClConnected (-111)" "Failing 3" "[]" 9 c1] c(1) by (auto split: option.splits)
  have "echo_run sim_echo_env ?st pingpang_kind Idling c2"
    using echo_net [OF c1, of "ClClosed 3" Idling "[StatusArg OnConnnectFail]" 9 c2] c by simp
  from echo_reconnects [OF sim_echo_env this] c show ?thesis by auto
qed

end
