(* ===== verification/PingPong.thy ===== *)
theory PingPong
  imports EchoClients
begin

text \<open>
  The pingpang example as a whole: the echo server and the echoing client with one packet between
  them. The bytes that one side writes arrive at the other in arbitrary pieces.
\<close>

text \<open>The timer of \<open>main\<close> prints and clears the server's counter.\<close>

definition pp_onTimer :: "EchoServer \<Rightarrow> string \<times> EchoServer" where
  "pp_onTimer server = (''cnt:'' @ std_to_string (int (unat (Cnt server))), clearCnt server)"

text \<open>The client's message callback for every piece that arrives; all writes in order.\<close>

fun client_pieces ::
  "'b PacketBuffer \<Rightarrow> PacketStatics \<Rightarrow> uint8 list list \<Rightarrow> 'b \<Rightarrow> ('b \<times> uint8 list list) option"
where
  "client_pieces ops st [] b = Some (b, [])"
| "client_pieces ops st (p # ps) b =
     do {
       (b, out) \<leftarrow> buffer_echo ops st p b;
       (b, outs) \<leftarrow> client_pieces ops st ps b;
       Some (b, out @ outs)
     }"

text \<open>Round trips: the server gets what the client has written last, the client what the server writes.\<close>

fun bounce ::
  "nat \<Rightarrow> BufferMode \<Rightarrow> PacketStatics \<Rightarrow> 'b PacketBuffer \<Rightarrow>
    (uint8 list \<Rightarrow> uint8 list list) \<Rightarrow> (uint8 list \<Rightarrow> uint8 list list) \<Rightarrow> 'b \<times> EchoServer \<times> 'b \<times> uint8 list \<Rightarrow>
    ('b \<times> EchoServer \<times> 'b \<times> uint8 list) option"
where
  "bounce 0 mode st ops up down x = Some x"
| "bounce (Suc n) mode st ops up down (bs, server, bc, xs) =
     do {
       (pb, out, server) \<leftarrow> newMessages mode st ops (Some bs) (up xs) server;
       bs \<leftarrow> pb;
       (bc, out') \<leftarrow> client_pieces ops st (down (concat out)) bc;
       bounce n mode st ops up down (bs, server, bc, concat out')
     }"

lemma newMessage_buffer_echo:
  assumes "mode \<noteq> NoBuffer"
  shows "newMessage mode st ops (Some b) c server
    = map_option (\<lambda>(b, out). (Some b, out, server\<lparr>cnt := cnt server + 1\<rparr>)) (buffer_echo ops st c b)"
  using assms by (auto simp: newMessage_def buffer_echo_def map_option_case case_prod_unfold
      split: option.split Option.bind_split)

lemma newMessages_pieces:
  assumes "mode \<noteq> NoBuffer" and "newMessages mode st ops (Some b) ps server = Some (Some b', out, server')"
  shows "client_pieces ops st ps b = Some (b', out)"
  using assms(2)
proof (induction ps arbitrary: b server out)
  case (Cons p ps)
  then show ?case
    by (auto simp: newMessage_buffer_echo [OF assms(1)] split: Option.bind_splits)
qed simp

context framed_connection
begin

lemma bounce_frame:
  assumes "valid bs" and "contents bs = []" and "valid bc" and "contents bc = []"
    and "cuts up" and "cuts down" and "length d < 65532" and "2 * length d + 7 \<le> min cap 98299"
  shows "\<exists>bs' server' bc'. bounce n mode st ops up down (bs, server, bc, frame st d)
      = Some (bs', server', bc', frame st d)
    \<and> valid bs' \<and> contents bs' = [] \<and> valid bc' \<and> contents bc' = []"
  using assms(1-4)
proof (induction n arbitrary: bs server bc)
  case (Suc n)
  have pieces: "concat (f (frame st d)) = concat (map (frame st) [d])"
    "\<forall>c\<in>set (f (frame st d)). \<forall>d'\<in>set [d]. length c + length d' + 3 \<le> min cap 98299"
    if "cuts f" for f
  proof -
    show c: "concat (f (frame st d)) = concat (map (frame st) [d])" using that by (simp add: cuts_def)
    have "length c \<le> length d + 4" if "c \<in> set (f (frame st d))" for c
      using that c member_le_sum_list [of "length c" "map length (f (frame st d))"]
      by (simp flip: length_concat)
    with assms(8) show "\<forall>c\<in>set (f (frame st d)). \<forall>d'\<in>set [d]. length c + length d' + 3 \<le> min cap 98299"
      by fastforce
  qed
  obtain bs' server' where s: "newMessages mode st ops (Some bs) (up (frame st d)) server
      = Some (Some bs', [frame st d], server')" "valid bs'" "contents bs' = []"
    using newMessages_frames [OF Suc.prems(1) _ _ _ pieces(2) [OF assms(5)], of server]
      Suc.prems(2) pieces(1) [OF assms(5)] assms(7) by auto
  obtain bc' server2 where "newMessages mode st ops (Some bc) (down (frame st d)) server
      = Some (Some bc', [frame st d], server2)" "valid bc'" "contents bc' = []"
    using newMessages_frames [OF Suc.prems(3) _ _ _ pieces(2) [OF assms(6)], of server]
      Suc.prems(4) pieces(1) [OF assms(6)] assms(7) by auto
  with newMessages_pieces [OF buffered] Suc.IH [OF s(2,3), of bc' server'] s(1) show ?case by fastforce
qed (use assms in simp)

end

section \<open>Properties\<close>

text \<open>C21: the test message of the client comes back for ever: after any number of round trips between
  the client and the echo server, over circular buffers that hold two packets, the same packet is on
  its way and both buffers are empty, whatever pieces the bytes arrive in.\<close>

theorem pingpong_forever:
  assumes "cb_valid cbs bs" and "cb_contents bs = []" and "cb_valid cbs bc" and "cb_contents bc = []"
    and "cuts up" and "cuts down" and "length d < 65532" and "2 * length d + 7 < min (unat cbs) 98300"
  shows "\<exists>bs' server' bc'. bounce n CycleBufferMode st (CycleBuffer_ops cbs) up down
      (bs, server, bc, frame st d) = Some (bs', server', bc', frame st d)
    \<and> cb_contents bs' = [] \<and> cb_contents bc' = []"
proof -
  have "2 * length d + 7 \<le> min (unat cbs - 1) 98299" using assms(8) by linarith
  from cycle_echo.bounce_frame [OF assms(1-7) this, of n st server] show ?thesis by blast
qed

text \<open>The message that \<open>sendTestMessage\<close> sends, with a buffer of 4 KiB.\<close>

theorem pingpong_forever_witness:
  "\<exists>bs' server' bc' p. pack Packet_statics_init (test_data pingpang_kind) 1024 Packet_init = Some p
     \<and> bounce 1000 CycleBufferMode Packet_statics_init (CycleBuffer_ops 4096) whole whole
         (CycleBuffer_init 4096, \<lparr>cnt = 0\<rparr>, CycleBuffer_init 4096, Buffer p)
       = Some (bs', server', bc', Buffer p)"
proof -
  have len: "length (test_data pingpang_kind) = 1024" by (simp add: pingpang_kind_def)
  have "cb_valid 4096 (CycleBuffer_init 4096)" "cb_contents (CycleBuffer_init 4096) = []"
    using CycleBuffer_init_valid [of 4096] by auto
  from pingpong_forever [OF this this cuts_whole cuts_whole, of "test_data pingpang_kind" 1000
      Packet_statics_init "\<lparr>cnt = 0\<rparr>"] len
  show ?thesis using pack_frame [of "test_data pingpang_kind" Packet_statics_init Packet_init]
    by (auto simp: Buffer_def)
qed

end
