(* ===== verification/HttpCommon.thy ===== *)
theory HttpCommon
  imports StdLib
begin

text \<open>
  What requests and responses share (\<open>uv/http/HttpCommon.cpp\<close>): versions, the split of a message
  into its head lines and body, the split of the first line at spaces, and one header line.
\<close>

section \<open>Data\<close>

datatype ParseResult = Success | Fail | ParseError

datatype HttpVersion = Unknown | Http1_0 | Http1_1

datatype Methon = Get | Post | Head | Put | Delete | Connect | Options | Trace | Patch | Invalid

definition Crlf :: string where
  "Crlf = [CHR 0x0D, CHR 0x0A]"

definition HttpVersionToStr :: "HttpVersion \<Rightarrow> string" where
  "HttpVersionToStr version =
     (case version of Http1_0 \<Rightarrow> ''HTTP/1.0'' | Http1_1 \<Rightarrow> ''HTTP/1.1'' | _ \<Rightarrow> '''')"

definition GetHttpVersion :: "string \<Rightarrow> HttpVersion" where
  "GetHttpVersion str =
     (if str = ''HTTP/1.0'' then Http1_0 else if str = ''HTTP/1.1'' then Http1_1 else Unknown)"

section \<open>Operations\<close>

text \<open>\<open>std::string (str, i, j - i)\<close>: when \<open>j\<close> is before \<open>i\<close> the length wraps and the rest is taken.\<close>

definition substr_to :: "'a list \<Rightarrow> nat \<Rightarrow> nat \<Rightarrow> 'a list option" where
  "substr_to str i j = (if i \<le> j then substr str i (j - i) else substr_from str i)"

function split_lines :: "string \<Rightarrow> nat \<Rightarrow> nat \<Rightarrow> string list \<Rightarrow> string list option" where
  "split_lines str bodyPos pos out =
     (if pos < bodyPos
      then
        (case std_find str Crlf (pos + 1) of
           None \<Rightarrow> Some out
         | Some p \<Rightarrow>
             let last = (if pos \<noteq> 0 then pos + 2 else pos)
             in (case substr_to str last p of
                   None \<Rightarrow> None
                 | Some line \<Rightarrow> split_lines str bodyPos p (out @ [line])))
      else Some out)"
  by pat_completeness auto
termination
  by (relation "measure (\<lambda>(_, bodyPos, pos, _). bodyPos - pos)") (auto dest!: std_find_bound)

declare split_lines.simps [simp del]

text \<open>The position of the body as \<open>int\<close>, or -1; with the head lines.\<close>

definition SplitHttpOfCRLF :: "string \<Rightarrow> string list \<Rightarrow> (int \<times> string list) option" where
  "SplitHttpOfCRLF str out =
     (case std_find str (Crlf @ Crlf) 0 of
        None \<Rightarrow> Some (-1, out)
      | Some bodyPos \<Rightarrow> map_option (Pair (c_int bodyPos)) (split_lines str bodyPos 0 []))"

text \<open>The loop state holds \<open>pos + 1\<close>, which is 0 at the start; \<open>Inl\<close> is the early \<open>return -1\<close>.\<close>

function split_spaces ::
  "string \<Rightarrow> nat \<Rightarrow> nat \<Rightarrow> string list \<Rightarrow> string list + nat \<times> string list" where
  "split_spaces str next i out =
     (if i < 2
      then
        (case std_find str '' '' next of
           None \<Rightarrow> Inl out
         | Some pos \<Rightarrow>
             if pos = next then split_spaces str (pos + 1) i out
             else split_spaces str (pos + 1) (i + 1) (out @ [take (pos - next) (drop next str)]))
      else Inr (next, out))"
  by pat_completeness auto
termination
  by (relation "measure (\<lambda>(str, next, _, _). length str - next)") (auto dest!: std_find_bound)

declare split_spaces.simps [simp del]

definition SplitStrOfSpace :: "string \<Rightarrow> string list \<Rightarrow> int \<times> string list" where
  "SplitStrOfSpace str out =
     (case split_spaces str 0 0 out of
        Inl out \<Rightarrow> (-1, out)
      | Inr (next, out) \<Rightarrow>
          if next = length str then (-1, out) else (0, out @ [drop next str]))"

fun GetCommomStringLength :: "string \<Rightarrow> string \<Rightarrow> nat" where
  "GetCommomStringLength (a # as) (b # bs) = (if a \<noteq> b then 0 else Suc (GetCommomStringLength as bs))"
| "GetCommomStringLength _ _ = 0"

definition AppendHead :: "string \<Rightarrow> (string \<times> string) list \<Rightarrow> int \<times> (string \<times> string) list" where
  "AppendHead str heads =
     (case std_find str '': '' 0 of
        None \<Rightarrow> (-1, heads)
      | Some pos \<Rightarrow> (0, map_set (take pos str) (drop (pos + 2) str) heads))"

section \<open>Lemmas\<close>

lemma GetHttpVersion_toStr: "v \<noteq> Unknown \<Longrightarrow> GetHttpVersion (HttpVersionToStr v) = v"
  by (cases v) (simp_all add: GetHttpVersion_def HttpVersionToStr_def)

text \<open>A line holds no carriage return.\<close>

definition line :: "string \<Rightarrow> bool" where
  "line s \<longleftrightarrow> CHR 0x0D \<notin> set s"

abbreviation more_lines :: "string list \<Rightarrow> string" where
  "more_lines ls \<equiv> concat (map (\<lambda>l. Crlf @ l) ls)"

lemma length_Crlf [simp]: "length Crlf = 2"
  by (simp add: Crlf_def)

lemma Crlf_nonempty: "Crlf \<noteq> []"
  by (simp add: Crlf_def)

lemma find_Crlf: "line xs \<Longrightarrow> find_sub Crlf (xs @ Crlf @ ys) = Some (length xs)"
  using find_sub_skip [of "CHR 0x0D" xs "[CHR 0x0A]" "Crlf @ ys"]
  by (simp add: line_def Crlf_def)

lemma find_body:
  assumes "line l" and "\<forall>l\<in>set ls. line l \<and> l \<noteq> []"
  shows "find_sub (Crlf @ Crlf) (l @ more_lines ls @ Crlf @ Crlf @ body)
    = Some (length (l @ more_lines ls))"
  using assms
proof (induction ls arbitrary: l)
  case Nil
  then show ?case
    using find_sub_skip [of "CHR 0x0D" l "[CHR 0x0A, CHR 0x0D, CHR 0x0A]" "Crlf @ Crlf @ body"]
    by (simp add: line_def Crlf_def)
next
  case (Cons k ls)
  let ?rest = "more_lines ls @ Crlf @ Crlf @ body"
  obtain c k' where k: "k = c # k'" "c \<noteq> CHR 0x0D"
    using Cons.prems(2) by (cases k) (auto simp: line_def)
  have "find_sub (Crlf @ Crlf) (CHR 0x0D # CHR 0x0A # k @ ?rest)
      = map_option ((+) 2) (find_sub (Crlf @ Crlf) (k @ ?rest))"
    using k by (cases "find_sub (Crlf @ Crlf) (k @ ?rest)") (auto simp: Crlf_def)
  moreover have "find_sub (Crlf @ Crlf) (k @ ?rest) = Some (length (k @ more_lines ls))"
    using Cons.IH [of k] Cons.prems by simp
  moreover have "find_sub (Crlf @ Crlf) (l @ CHR 0x0D # CHR 0x0A # k @ ?rest)
      = map_option ((+) (length l)) (find_sub (Crlf @ Crlf) (CHR 0x0D # CHR 0x0A # k @ ?rest))"
    using find_sub_skip [of "CHR 0x0D" l "[CHR 0x0A, CHR 0x0D, CHR 0x0A]"] Cons.prems(1)
    by (simp add: line_def Crlf_def)
  ultimately show ?case by (simp add: Crlf_def)
qed

lemma split_more_lines:
  assumes "str = xs @ more_lines ls @ Crlf @ Crlf @ body" and "length xs = pos" and "0 < pos"
    and "bodyPos = length (xs @ more_lines ls)" and "\<forall>l\<in>set ls. line l"
  shows "split_lines str bodyPos pos out = Some (out @ ls)"
  using assms
proof (induction ls arbitrary: xs pos out)
  case Nil
  then show ?case by (subst split_lines.simps) simp
next
  case (Cons k ls)
  let ?rest = "more_lines ls @ Crlf @ Crlf @ body"
  define p where "p = pos + 2 + length k"
  have str: "str = (xs @ [CHR 0x0D]) @ (CHR 0x0A # k) @ ?rest"
    using Cons.prems(1) by (simp add: Crlf_def)
  obtain zs where zs: "?rest = Crlf @ zs"
    by (cases ls) auto
  have "find_sub Crlf ((CHR 0x0A # k) @ Crlf @ zs) = Some (Suc (length k))"
    using find_Crlf [of "CHR 0x0A # k" zs] Cons.prems(5) by (simp add: line_def)
  then have find: "std_find str Crlf (pos + 1) = Some p"
    using std_find_app [of "xs @ [CHR 0x0D]" "pos + 1"] Cons.prems(2)
    by (simp only: str zs) (simp add: p_def)
  have sub: "substr_to str (pos + 2) p = Some k"
    using Cons.prems(2) by (simp add: substr_to_def p_def str)
  have "split_lines str bodyPos p (out @ [k]) = Some ((out @ [k]) @ ls)"
    using Cons.prems by (intro Cons.IH [of "xs @ Crlf @ k"]) (simp_all add: p_def Crlf_def)
  moreover have "pos < bodyPos" using Cons.prems(2,4) by (simp add: Crlf_def)
  ultimately show ?case
    using Cons.prems(3) find sub by (subst split_lines.simps) simp
qed

text \<open>A well-formed message is split into its lines, and the body starts after the empty line.\<close>

lemma SplitHttpOfCRLF_lines:
  assumes "line l" and "l \<noteq> []" and "\<forall>l\<in>set ls. line l \<and> l \<noteq> []"
  shows "SplitHttpOfCRLF (l @ more_lines ls @ Crlf @ Crlf @ body) out
    = Some (c_int (length (l @ more_lines ls)), l # ls)"
proof -
  let ?str = "l @ more_lines ls @ Crlf @ Crlf @ body"
  obtain c k where l: "l = c # k" using assms(2) by (cases l) auto
  obtain zs where zs: "more_lines ls @ Crlf @ Crlf @ body = Crlf @ zs"
    by (cases ls) auto
  have "find_sub Crlf (k @ Crlf @ zs) = Some (length k)"
    using find_Crlf [of k zs] assms(1) l by (simp add: line_def)
  then have find: "std_find ?str Crlf (0 + 1) = Some (length l)"
    using std_find_app [of "[c]" 1 "k @ Crlf @ zs" Crlf] by (simp add: l zs)
  have "split_lines ?str (length (l @ more_lines ls)) (length l) [l] = Some ([l] @ ls)"
    using assms by (intro split_more_lines [of _ l]) auto
  then have "split_lines ?str (length (l @ more_lines ls)) 0 [] = Some (l # ls)"
    using assms(2) find by (subst split_lines.simps) (simp add: substr_to_def)
  then show ?thesis
    using find_body [of l ls body] assms by (simp add: SplitHttpOfCRLF_def)
qed

text \<open>Three words are found when the first two hold no space.\<close>

lemma SplitStrOfSpace_words:
  assumes "CHR '' '' \<notin> set a" and "a \<noteq> []" and "CHR '' '' \<notin> set b" and "b \<noteq> []" and "c \<noteq> []"
  shows "SplitStrOfSpace (a @ '' '' @ b @ '' '' @ c) [] = (0, [a, b, c])"
proof -
  let ?str = "a @ '' '' @ b @ '' '' @ c"
  have 1: "std_find ?str '' '' 0 = Some (length a)"
    using find_sub_skip [OF assms(1), of "[]" "'' '' @ b @ '' '' @ c"] by simp
  have 2: "std_find ?str '' '' (length a + 1) = Some (length a + 1 + length b)"
    using std_find_app [of "a @ '' ''" "length a + 1" "b @ '' '' @ c" "'' ''"]
      find_sub_skip [OF assms(3), of "[]" "'' '' @ c"] by simp
  have 3: "split_spaces ?str (length a + 1 + length b + 1) 2 [a, b]
      = Inr (length a + 1 + length b + 1, [a, b])"
    by (subst split_spaces.simps) simp
  have 4: "split_spaces ?str (length a + 1) 1 [a] = Inr (length a + 1 + length b + 1, [a, b])"
    using 2 3 assms(4) by (subst split_spaces.simps) (simp add: numeral_2_eq_2)
  have "split_spaces ?str 0 0 [] = Inr (length a + 1 + length b + 1, [a, b])"
    using 1 4 assms(2) by (subst split_spaces.simps) simp
  then show ?thesis using assms(5) by (simp add: SplitStrOfSpace_def)
qed

lemma AppendHead_line:
  assumes "CHR '':'' \<notin> set key"
  shows "AppendHead (key @ '': '' @ value) heads = (0, map_set key value heads)"
  using find_sub_skip [OF assms, of "'' ''" "'': '' @ value"]
  by (simp add: AppendHead_def)

lemma GetCommomStringLength_le:
  "GetCommomStringLength xs ys \<le> length xs" "GetCommomStringLength xs ys \<le> length ys"
  by (induction xs ys rule: GetCommomStringLength.induct) auto

lemma GetCommomStringLength_take:
  "take (GetCommomStringLength xs ys) xs = take (GetCommomStringLength xs ys) ys"
  by (induction xs ys rule: GetCommomStringLength.induct) auto

text \<open>The split is defined on every message, and finds a line unless the message starts with the
  empty lines that end a head.\<close>

lemma split_lines_total: "\<exists>ls. split_lines str bodyPos pos out = Some (out @ ls)"
proof (induction str bodyPos pos out rule: split_lines.induct)
  case (1 str bodyPos pos out)
  show ?case
  proof (cases "pos < bodyPos \<and> std_find str Crlf (pos + 1) \<noteq> None")
    case True
    then obtain p where p: "std_find str Crlf (pos + 1) = Some p" by auto
    have "pos + 1 \<le> p" "p + 2 \<le> length str"
      using std_find_bound [OF p] by (simp_all add: Crlf_def)
    then have "\<exists>line. substr_to str (if pos \<noteq> 0 then pos + 2 else pos) p = Some line"
      by (auto simp: substr_to_def)
    then obtain line where l: "substr_to str (if pos \<noteq> 0 then pos + 2 else pos) p = Some line" ..
    moreover from 1 True p this obtain ls
      where "split_lines str bodyPos p (out @ [line]) = Some ((out @ [line]) @ ls)" by blast
    ultimately show ?thesis
      using True p by (subst split_lines.simps) (simp add: Let_def)
  qed (subst split_lines.simps, auto)
qed

lemma split_lines_first:
  assumes "std_find str (Crlf @ Crlf) 0 = Some bodyPos" and "0 < bodyPos"
  shows "\<exists>l ls. split_lines str bodyPos 0 [] = Some (l # ls)"
proof -
  have body: "find_sub (Crlf @ Crlf) str = Some bodyPos" using assms(1) by simp
  have "std_find str Crlf 1 \<noteq> None"
  proof
    assume none: "std_find str Crlf 1 = None"
    have "1 \<le> length str" using find_sub_bound [OF body] by (simp add: Crlf_def)
    with none have "find_sub Crlf (drop 1 str) = None" by (simp add: std_find_def)
    then have "take 2 (drop (bodyPos - 1) (drop 1 str)) \<noteq> Crlf"
      using find_sub_None [of Crlf "drop 1 str" "bodyPos - 1"] by simp
    moreover have "take 2 (take 4 (drop bodyPos str)) = take 2 (Crlf @ Crlf)"
      using find_sub_match [OF body] by simp
    ultimately show False using assms(2) by (simp add: Crlf_def)
  qed
  then obtain p where p: "std_find str Crlf (0 + 1) = Some p" by auto
  obtain ls where "split_lines str bodyPos p [take p str] = Some ([take p str] @ ls)"
    using split_lines_total [of str bodyPos p "[take p str]"] by blast
  then show ?thesis
    using p assms(2) by (subst split_lines.simps) (simp add: substr_to_def)
qed

lemma SplitHttpOfCRLF_cases:
  assumes "length str < 2 ^ 31"
  obtains (none) "SplitHttpOfCRLF str [] = Some (-1, [])" and "find_sub (Crlf @ Crlf) str = None"
  | (empty) "SplitHttpOfCRLF str [] = Some (0, [])" and "take 4 str = Crlf @ Crlf"
  | (lines) i l ls where "SplitHttpOfCRLF str [] = Some (int i, l # ls)"
    and "find_sub (Crlf @ Crlf) str = Some i" and "0 < i" and "i + 4 \<le> length str"
proof (cases "find_sub (Crlf @ Crlf) str")
  case None
  then show ?thesis using none by (simp add: SplitHttpOfCRLF_def)
next
  case (Some i)
  then have i: "i + 4 \<le> length str" using find_sub_bound [OF Some] by (simp add: Crlf_def)
  show ?thesis
  proof (cases "i = 0")
    case True
    then have "take 4 str = Crlf @ Crlf" using find_sub_match [OF Some] by simp
    with True Some show ?thesis
      by (intro empty) (simp_all add: SplitHttpOfCRLF_def split_lines.simps)
  next
    case False
    then obtain l ls where "split_lines str i 0 [] = Some (l # ls)"
      using split_lines_first [of str i] Some by auto
    moreover have "c_int i = int i" using i assms by simp
    ultimately show ?thesis
      using Some i False by (intro lines [of i l ls]) (simp_all add: SplitHttpOfCRLF_def)
  qed
qed

text \<open>A message that is cut before the end of its head has no body yet.\<close>

lemma find_sub_cut:
  assumes "find_sub pat str = Some pos" and "n < pos + length pat"
  shows "find_sub pat (take n str) = None"
proof (cases "find_sub pat (take n str)")
  case (Some j)
  have j: "j + length pat \<le> n" using find_sub_bound [OF Some] by simp
  have "take (length pat) (drop j (take n str)) = pat" by (rule find_sub_match [OF Some])
  moreover have "take (length pat) (drop j (take n str)) = take (length pat) (drop j str)"
    using j by (simp add: drop_take)
  ultimately have "\<not> j < pos" using find_sub_first [OF assms(1)] by metis
  with j assms(2) show ?thesis by simp
qed simp

lemma split_cut:
  assumes "find_sub (Crlf @ Crlf) str = Some pos" and "n < pos + 4"
  shows "SplitHttpOfCRLF (take n str) out = Some (-1, out)"
  using find_sub_cut [OF assms(1), of n] assms(2) by (simp add: SplitHttpOfCRLF_def)

text \<open>The split reads a message up to the end of its head only: what follows may come later.\<close>

lemma find_sub_exists: "take (length pat) (drop j xs) = pat \<Longrightarrow> pat \<noteq> [] \<Longrightarrow> \<exists>i\<le>j. find_sub pat xs = Some i"
  using find_sub_None [of pat xs j] find_sub_first [of pat xs _ j] not_less by (cases "find_sub pat xs") blast+

lemma find_sub_keep:
  assumes "find_sub pat str = Some pos" and "pos + length pat \<le> n" and "pat \<noteq> []"
  shows "find_sub pat (take n str) = Some pos"
proof -
  have "take (length pat) (drop pos (take n str)) = pat"
    using find_sub_match [OF assms(1)] assms(2) by (simp add: drop_take)
  then obtain i where i: "i \<le> pos" "find_sub pat (take n str) = Some i"
    using find_sub_exists [of pat pos "take n str"] assms(3) by blast
  have "take (length pat) (drop i (take n str)) = take (length pat) (drop i str)"
    using i(1) assms(2) by (simp add: drop_take)
  then have "\<not> i < pos" using find_sub_match [OF i(2)] find_sub_first [OF assms(1)] by metis
  with i show ?thesis by simp
qed

lemma split_lines_keep:
  assumes "take 2 (drop bodyPos str) = Crlf" and "bodyPos + 2 \<le> n" and "pos \<noteq> 0 \<longrightarrow> take 2 (drop pos str) = Crlf"
  shows "split_lines (take n str) bodyPos pos out = split_lines str bodyPos pos out"
  using assms
proof (induction str bodyPos pos out rule: split_lines.induct)
  case (1 str bodyPos pos out)
  show ?case
  proof (cases "pos < bodyPos")
    case True
    let ?cut = "take n str"
    have "take (length Crlf) (drop (bodyPos - (pos + 1)) (drop (pos + 1) str)) = Crlf" using True "1.prems"(1) by simp
    from find_sub_exists [OF this Crlf_nonempty] obtain j
      where j: "j \<le> bodyPos - (pos + 1)" "find_sub Crlf (drop (pos + 1) str) = Some j" by blast
    define p where "p = pos + 1 + j"
    have len: "bodyPos + 2 \<le> length str" using arg_cong [OF "1.prems"(1), of length] by simp
    have p: "std_find str Crlf (pos + 1) = Some p" "pos < p" "p \<le> bodyPos"
      using j True len by (simp_all add: std_find_def p_def)
    have "find_sub Crlf (take (n - (pos + 1)) (drop (pos + 1) str)) = Some j"
      using find_sub_keep [OF j(2) _ Crlf_nonempty, of "n - (pos + 1)"] j(1) True "1.prems"(2) by simp
    then have cut: "std_find ?cut Crlf (pos + 1) = Some p"
      using True len "1.prems"(2) by (simp add: std_find_def p_def drop_take)
    have at: "take 2 (drop p str) = Crlf" using find_sub_match [OF j(2)] by (simp add: p_def add.commute)
    let ?last = "if pos \<noteq> 0 then pos + 2 else pos"
    have "p \<noteq> pos + 1" if "pos \<noteq> 0"
    proof
      assume eq: "p = pos + 1"
      have "str ! (pos + 1) = CHR 0x0A" using "1.prems"(3) that len True
        by (auto simp: Crlf_def numeral_2_eq_2 take_Suc_conv_app_nth)
      moreover have "str ! p = CHR 0x0D" using at len p(3)
        by (auto simp: Crlf_def numeral_2_eq_2 take_Suc_conv_app_nth)
      ultimately show False using eq by simp
    qed
    then have last: "?last \<le> p" using p(2) by auto
    have "substr_to ?cut ?last p = Some (take (p - ?last) (drop ?last str))"
      "substr_to str ?last p = Some (take (p - ?last) (drop ?last str))"
      unfolding substr_to_def using last p(3) len "1.prems"(2) by (simp_all add: drop_take min_def)
    moreover have "split_lines ?cut bodyPos p (out @ [l]) = split_lines str bodyPos p (out @ [l])"
      if "l = take (p - ?last) (drop ?last str)" for l
      using "1.IH" [OF True p(1) refl _ "1.prems"(1,2)] calculation(2) that at by simp
    ultimately show ?thesis
      using True p(1) cut by (subst (1 2) split_lines.simps) (simp add: Let_def del: if_split)
  qed (subst (1 2) split_lines.simps, simp)
qed

lemma split_keep:
  assumes "find_sub (Crlf @ Crlf) str = Some pos" and "pos + 4 \<le> n"
  shows "SplitHttpOfCRLF (take n str) out = SplitHttpOfCRLF str out"
proof -
  have "take 4 (drop pos str) = Crlf @ Crlf" using find_sub_match [OF assms(1)] by simp
  then have "take 2 (take 4 (drop pos str)) = Crlf" by (simp add: Crlf_def)
  then have "split_lines (take n str) pos 0 [] = split_lines str pos 0 []"
    using assms(2) by (intro split_lines_keep) simp_all
  moreover have "find_sub (Crlf @ Crlf) (take n str) = Some pos"
    using find_sub_keep [OF assms(1), of n] assms(2) Crlf_nonempty by simp
  ultimately show ?thesis using assms(1) by (simp add: SplitHttpOfCRLF_def)
qed

end
