(* ===== verification/RadixTree.thy ===== *)
theory RadixTree
  imports HttpCommon
begin

text \<open>
  The radix tree that routes request paths (\<open>uv/include/http/RadixTree.hpp\<close>). A node owns its
  \<open>child\<close> and its \<open>next\<close> sibling and nothing shares them, so the pointers are a datatype whose
  \<open>Null\<close> is the null pointer. A node with \<open>isEmpty\<close> keeps the value it was made with.
\<close>

section \<open>The tree\<close>

datatype 'v RadixTreeNode =
  is_Null: Null
| Node (isEmpty: bool) (node_key: string) (child: "'v RadixTreeNode") (next_node: "'v RadixTreeNode") (node_value: 'v)

definition WildCard :: char where
  "WildCard = CHR ''*''"

text \<open>Wherever the code finds a null pointer it puts the same new node there.\<close>

fun setNode :: "'v RadixTreeNode \<Rightarrow> string \<Rightarrow> 'v \<Rightarrow> 'v RadixTreeNode" where
  "setNode Null key val = Node False key Null Null val"
| "setNode (Node e k c n v) key val =
     (let commonLength = GetCommomStringLength k key
      in if commonLength = 0 then Node e k c (setNode n key val) v
         else if commonLength < length k then
           (let key1 = take commonLength k;
                key2 = drop commonLength k
            in if length key = commonLength
               then Node False key1 (Node e key2 c Null v) n val
               else
                 let key3 = drop commonLength key;
                     newNode = Node False key3 Null Null val
                 in Node True key1 (Node e key2 c newNode v) n v)
         else if commonLength = length key then Node False k c n val
         else Node e k (setNode c (drop commonLength key) val) n v)"

text \<open>\<open>None\<close>: a null root is dereferenced. The inner option is the \<open>bool\<close> with the value.\<close>

fun getNode :: "'v RadixTreeNode \<Rightarrow> string \<Rightarrow> 'v option option" where
  "getNode Null key = None"
| "getNode (Node e k c n v) key =
     (let commonLength = GetCommomStringLength k key
      in if Suc commonLength = length k \<and> last k = WildCard then Some (Some v)
         else if commonLength = 0 then (if is_Null n then Some None else getNode n key)
         else if commonLength < length k then Some None
         else if commonLength = length key then (if \<not> e then Some (Some v) else Some None)
         else if is_Null c then Some None
         else getNode c (drop commonLength key))"

text \<open>The class: the root pointer, with \<open>set\<close> and \<open>get\<close>.\<close>

definition RadixTree_new :: "'v RadixTreeNode" where
  "RadixTree_new = Null"

definition tree_set :: "string \<Rightarrow> 'v \<Rightarrow> 'v RadixTreeNode \<Rightarrow> 'v RadixTreeNode" where
  "tree_set key val root =
     (if is_Null root then Node False key Null Null val else setNode root key val)"

definition tree_get :: "string \<Rightarrow> 'v RadixTreeNode \<Rightarrow> 'v option option" where
  "tree_get key root = getNode root key"

section \<open>Common prefixes\<close>

abbreviation common :: "string \<Rightarrow> string \<Rightarrow> nat" where
  "common \<equiv> GetCommomStringLength"

lemma common_Nil [simp]: "common xs [] = 0"
  by (cases xs) auto

lemma common_refl [simp]: "common xs xs = length xs"
  by (induction xs) auto

lemma common_pos: "0 < common xs ys \<longleftrightarrow> xs \<noteq> [] \<and> ys \<noteq> [] \<and> hd xs = hd ys"
  by (induction xs ys rule: GetCommomStringLength.induct) auto

lemma common_take: "common (take n xs) ys = min n (common xs ys)"
proof (induction xs ys arbitrary: n rule: GetCommomStringLength.induct)
  case (1 a as b bs)
  then show ?case by (cases n) auto
qed auto

lemma common_drop: "n \<le> common xs ys \<Longrightarrow> common (drop n xs) (drop n ys) = common xs ys - n"
proof (induction xs ys arbitrary: n rule: GetCommomStringLength.induct)
  case (1 a as b bs)
  then show ?case by (cases n) (auto split: if_splits)
qed auto

lemma common_full: "common xs ys = length xs \<Longrightarrow> common xs ys = length ys \<Longrightarrow> xs = ys"
  using GetCommomStringLength_take [of xs ys] by simp

lemma common_hd_drop:
  "common xs ys < length xs \<Longrightarrow> common xs ys < length ys \<Longrightarrow>
    hd (drop (common xs ys) xs) \<noteq> hd (drop (common xs ys) ys)"
  by (induction xs ys rule: GetCommomStringLength.induct) auto

lemma drop_common_eq:
  "n \<le> common xs zs \<Longrightarrow> n \<le> common xs ys \<Longrightarrow> drop n ys = drop n zs \<longleftrightarrow> ys = zs"
  using GetCommomStringLength_take [of xs zs] GetCommomStringLength_take [of xs ys]
  by (metis append_take_drop_id min.absorb1 min_def take_take)

section \<open>Wildcard-free trees as maps\<close>

fun lookup :: "'v RadixTreeNode \<Rightarrow> string \<Rightarrow> 'v option" where
  "lookup Null key = None"
| "lookup (Node e k c n v) key =
     (let l = common k key
      in if l = 0 then lookup n key
         else if l < length k then None
         else if l = length key then (if e then None else Some v)
         else lookup c (drop l key))"

fun first_chars :: "'v RadixTreeNode \<Rightarrow> char set" where
  "first_chars Null = {}"
| "first_chars (Node e k c n v) = insert (hd k) (first_chars n)"

text \<open>No key is empty or holds a wildcard, and siblings differ in their first characters.\<close>

fun tree_wf :: "'v RadixTreeNode \<Rightarrow> bool" where
  "tree_wf Null = True"
| "tree_wf (Node e k c n v) \<longleftrightarrow>
     k \<noteq> [] \<and> WildCard \<notin> set k \<and> hd k \<notin> first_chars n \<and> tree_wf c \<and> tree_wf n"

lemma getNode_lookup: "tree_wf t \<Longrightarrow> \<not> is_Null t \<Longrightarrow> getNode t key = Some (lookup t key)"
proof (induction t key rule: getNode.induct)
  case (2 e k c n v key)
  have "last k \<noteq> WildCard" using "2.prems" by (metis last_in_set tree_wf.simps(2))
  with 2 show ?case by (cases n; cases c) (auto simp: Let_def)
qed simp

lemma setNode_not_Null [simp]: "\<not> is_Null (setNode t key v)"
  by (induction t key v rule: setNode.induct) (auto simp: Let_def)

lemma first_chars_set: "tree_wf t \<Longrightarrow> key \<noteq> [] \<Longrightarrow>
    first_chars (setNode t key v) = insert (hd key) (first_chars t)"
proof (induction t key v rule: setNode.induct)
  case (2 e k c n v key val)
  show ?case
  proof (cases "common k key = 0")
    case False
    then have "hd k = hd key" using common_pos [of k key] by simp
    with False 2 show ?thesis by (auto simp: Let_def)
  qed (use 2 in \<open>auto simp: Let_def\<close>)
qed simp

lemma setNode_wf: "tree_wf t \<Longrightarrow> key \<noteq> [] \<Longrightarrow> WildCard \<notin> set key \<Longrightarrow> tree_wf (setNode t key v)"
proof (induction t key v rule: setNode.induct)
  case (2 e k c n v key val)
  let ?l = "common k key"
  consider (none) "?l = 0" | (split) "0 < ?l" "?l < length k" | (deeper) "0 < ?l" "?l = length k"
    using GetCommomStringLength_le(1) [of k key] by linarith
  then show ?case
  proof cases
    case none
    then have "hd k \<noteq> hd key" using "2.prems" common_pos [of k key] by auto
    with none 2 show ?thesis by (simp add: Let_def first_chars_set)
  next
    case split
    then have "hd (take ?l k) = hd k" "WildCard \<notin> set (take ?l k)" "WildCard \<notin> set (drop ?l k)"
      "WildCard \<notin> set (drop ?l key)" "take ?l k \<noteq> []" "drop ?l k \<noteq> []"
      using "2.prems" by (auto dest: in_set_takeD in_set_dropD)
    moreover have "length key \<noteq> ?l \<Longrightarrow> drop ?l key \<noteq> [] \<and> hd (drop ?l k) \<noteq> hd (drop ?l key)"
      using split common_hd_drop [of k key] GetCommomStringLength_le(2) [of k key] by simp
    ultimately show ?thesis
      using "2.prems" split by (cases "length key = ?l") (simp_all add: Let_def)
  next
    case deeper
    have "WildCard \<notin> set (drop ?l key)" using "2.prems" by (auto dest: in_set_dropD)
    with deeper 2 GetCommomStringLength_le(2) [of k key] show ?thesis
      by (cases "?l = length key") (simp_all add: Let_def)
  qed
qed simp

lemma lookup_single:
  "key \<noteq> [] \<Longrightarrow> lookup (Node False key Null Null v) key' = (if key' = key then Some v else None)"
  using common_full [of key key'] GetCommomStringLength_le(1) [of key key']
  by (auto simp: Let_def)

lemma lookup_split:
  assumes l: "0 < common k key" "common k key < length k" and k: "k \<noteq> []"
  shows "lookup (setNode (Node e k c n v) key val) key'
    = (if key' = key then Some val else lookup (Node e k c n v) key')"
proof -
  let ?l = "common k key" and ?l' = "common k key'"
  have le: "?l \<le> length key" "?l' \<le> length k" "?l' \<le> length key'"
    using GetCommomStringLength_le by auto
  have same: "?l' = ?l" if "key' = key" using that by simp
  have top: "common (take ?l k) key' = min ?l ?l'" by (rule common_take)
  define leaf where "leaf = Node False (drop ?l key) Null Null val"
  have set: "setNode (Node e k c n v) key val
      = (if length key = ?l then Node False (take ?l k) (Node e (drop ?l k) c Null v) n val
         else Node True (take ?l k) (Node e (drop ?l k) c leaf v) n v)"
    using l by (simp add: Let_def leaf_def)
  have eq: "drop ?l key' = drop ?l key \<longleftrightarrow> key' = key" if "?l \<le> ?l'"
    using drop_common_eq [of ?l k key key'] that by simp
  consider (before) "?l' < ?l" | (at) "?l \<le> ?l'" "length key' = ?l" | (after) "?l \<le> ?l'" "?l < length key'"
    using le by linarith
  then show ?thesis
  proof cases
    case before
    then show ?thesis using same l top unfolding set by (auto simp: Let_def)
  next
    case at
    then have "?l' = ?l" "length key = ?l \<longleftrightarrow> key' = key" using le eq by auto
    then show ?thesis using l top at unfolding set by (cases "length key = ?l") (simp_all add: Let_def)
  next
    case after
    have low: "common (drop ?l k) (drop ?l key') = ?l' - ?l" using after(1) by (rule common_drop)
    have leaf: "lookup leaf (drop ?l key') = (if key' = key then Some val else None)"
      if "length key \<noteq> ?l"
      using lookup_single [of "drop ?l key" val "drop ?l key'"] that le eq [OF after(1)]
      unfolding leaf_def by simp
    have neq: "key' \<noteq> key" if "length key = ?l" using that after(2) by auto
    show ?thesis
    proof (cases "?l' = ?l")
      case True
      then show ?thesis using l top low after leaf neq unfolding set
        by (cases "length key = ?l") (simp_all add: Let_def)
    next
      case False
      then show ?thesis using l le top low after same neq unfolding set
        by (cases "length key = ?l") (auto simp: Let_def)
    qed
  qed
qed

lemma lookup_setNode:
  "tree_wf t \<Longrightarrow> key \<noteq> [] \<Longrightarrow>
    lookup (setNode t key val) key' = (if key' = key then Some val else lookup t key')"
proof (induction t key val arbitrary: key' rule: setNode.induct)
  case (1 key val)
  then show ?case by (simp add: lookup_single del: lookup.simps(2))
next
  case (2 e k c n v key val)
  let ?l = "common k key"
  have le: "?l \<le> length k" "?l \<le> length key" by (rule GetCommomStringLength_le)+
  consider (none) "?l = 0" | (split) "0 < ?l" "?l < length k"
    | (same) "0 < ?l" "?l = length k" "?l = length key"
    | (deeper) "0 < ?l" "?l = length k" "?l < length key"
    using le by linarith
  then show ?case
  proof cases
    case none
    have "common k key' = 0 \<or> key' \<noteq> key" using none by auto
    with none 2 show ?thesis by (auto simp: Let_def)
  next
    case split
    from lookup_split [OF split] "2.prems" show ?thesis by (metis tree_wf.simps(2))
  next
    case same
    then have "k = key" by (intro common_full) auto
    moreover have "common key key' \<le> length key" "common key key' \<le> length key'"
      by (rule GetCommomStringLength_le)+
    ultimately show ?thesis
      using same common_full [of key key'] by (cases "key' = key") (auto simp: Let_def)
  next
    case deeper
    have "lookup (setNode c (drop ?l key) val) (drop ?l key')
        = (if key' = key then Some val else lookup c (drop ?l key'))" if "common k key' = ?l"
      using "2.IH"(2) [OF refl, of "drop ?l key'"] "2.prems" deeper drop_common_eq [of ?l k key key'] that
      by auto
    with deeper show ?thesis using GetCommomStringLength_le [of k key'] by (auto simp: Let_def)
  qed
qed

text \<open>\<open>set\<close> of the class for a list of pairs.\<close>

definition tree_sets :: "(string \<times> 'v) list \<Rightarrow> 'v RadixTreeNode" where
  "tree_sets kvs = fold (\<lambda>(key, val). tree_set key val) kvs RadixTree_new"

lemma tree_set_setNode: "tree_set key val root = setNode root key val"
  by (cases root) (simp_all add: tree_set_def)

lemma fold_sets:
  assumes "tree_wf t" and "\<forall>(key, val)\<in>set kvs. key \<noteq> [] \<and> WildCard \<notin> set key"
  shows "tree_wf (fold (\<lambda>(key, val). tree_set key val) kvs t)
    \<and> lookup (fold (\<lambda>(key, val). tree_set key val) kvs t) k
      = (case map_of (rev kvs) k of Some v \<Rightarrow> Some v | None \<Rightarrow> lookup t k)"
  using assms
proof (induction kvs arbitrary: t)
  case (Cons kv kvs)
  obtain key val where "kv = (key, val)" by (cases kv)
  with Cons show ?case
    by (auto simp: tree_set_setNode setNode_wf lookup_setNode map_add_def split: option.splits)
qed simp

lemma common_snoc:
  "WildCard \<notin> set p \<Longrightarrow> common (p @ [WildCard]) key =
    (if take (length p) key = p
     then length p + (if drop (length p) key \<noteq> [] \<and> hd (drop (length p) key) = WildCard then 1 else 0)
     else common p key)"
proof (induction p arbitrary: key)
  case Nil
  then show ?case by (cases key) auto
next
  case (Cons a p)
  then show ?case by (cases key) auto
qed

section \<open>Properties\<close>

text \<open>C15: for keys that are not empty and hold no wildcard, the tree is a map: after any sequence of
  \<open>set\<close> calls, in any order and with repetitions, \<open>get\<close> of any key returns the value set last for
  it, or false.\<close>

theorem tree_sets_map:
  assumes "kvs \<noteq> []" and "\<forall>(key, val)\<in>set kvs. key \<noteq> [] \<and> WildCard \<notin> set key"
  shows "tree_get k (tree_sets kvs) = Some (map_of (rev kvs) k)"
proof -
  have "\<not> is_Null (tree_sets kvs)"
    using assms(1) unfolding tree_sets_def
    by (cases kvs rule: rev_cases) (auto simp: tree_set_setNode)
  moreover have "tree_wf (tree_sets kvs)" "lookup (tree_sets kvs) k = map_of (rev kvs) k"
    using fold_sets [of RadixTree_new kvs k] assms(2)
    by (auto simp: tree_sets_def RadixTree_new_def split: option.splits)
  ultimately show ?thesis by (simp add: tree_get_def getNode_lookup)
qed

theorem tree_sets_map_witness:
  "tree_get ''/api/users'' (tree_sets [(''/api/user'', 1 :: nat), (''/api/users'', 2), (''/api'', 3),
      (''/api/users'', 4)]) = Some (Some 4)"
proof -
  have "\<forall>(key, val)\<in>set [(''/api/user'', 1 :: nat), (''/api/users'', 2), (''/api'', 3),
      (''/api/users'', 4)]. key \<noteq> [] \<and> WildCard \<notin> set key"
    by (simp add: WildCard_def)
  from tree_sets_map [OF _ this, of "''/api/users''"] show ?thesis by simp
qed

text \<open>A single wildcard route matches exactly the paths that extend its prefix, except paths that
  have a literal \<open>*\<close> right behind the prefix and go on: those are not found.\<close>

theorem wildcard_route:
  assumes "WildCard \<notin> set p"
  shows "tree_get key (tree_set (p @ [WildCard]) v RadixTree_new)
    = Some (if take (length p) key = p
              \<and> \<not> (take 1 (drop (length p) key) = [WildCard] \<and> length p + 1 < length key)
            then Some v else None)"
proof (cases "take (length p) key = p")
  case True
  then obtain r where "key = p @ r" by (metis append_take_drop_id)
  then show ?thesis
    using common_snoc [OF assms, of key]
    by (cases r) (auto simp: tree_get_def tree_set_def RadixTree_new_def Let_def)
next
  case False
  then have "common p key < length p"
    using GetCommomStringLength_le(1) [of p key] GetCommomStringLength_take [of p key]
    by (cases "common p key = length p") auto
  with False show ?thesis
    using common_snoc [OF assms, of key]
    by (simp add: tree_get_def tree_set_def RadixTree_new_def Let_def)
qed

theorem wildcard_route_witness:
  "tree_get ''/img/a.png'' (tree_set (''/img/'' @ [WildCard]) (5 :: nat) RadixTree_new) = Some (Some 5)
  \<and> tree_get ''/img/*x'' (tree_set (''/img/'' @ [WildCard]) (5 :: nat) RadixTree_new) = Some None"
proof -
  have "WildCard \<notin> set ''/img/''" by (simp add: WildCard_def)
  from wildcard_route [OF this, of "''/img/a.png''" 5] wildcard_route [OF this, of "''/img/*x''" 5]
  show ?thesis by (simp add: WildCard_def)
qed

text \<open>With wildcards the order of the \<open>set\<close> calls matters: an exact route set after a wildcard
  with the same prefix is never found, set before it, it is; and looking up in a tree without any
  route dereferences the null root.\<close>

theorem wildcard_shadows:
  "tree_get ''/ab'' (tree_set ''/ab'' (2 :: nat) (tree_set ''/a*'' 1 RadixTree_new)) = Some (Some 1)
  \<and> tree_get ''/ab'' (tree_set ''/a*'' (1 :: nat) (tree_set ''/ab'' 2 RadixTree_new)) = Some (Some 2)
  \<and> tree_get ''/ab'' (RadixTree_new :: nat RadixTreeNode) = None"
  by (simp add: tree_get_def tree_set_def RadixTree_new_def WildCard_def)

end
