(* ===== verification/RadixDemo.thy ===== *)
theory RadixDemo
  imports RadixTree UvPrelude
begin

text \<open>
  The test program of the radix tree (\<open>examples/radix_tree/main.cpp\<close>): \<open>TestRand\<close> inserts numbered
  keys in random order and compares the tree with a \<open>std::map\<close>; \<open>findAll\<close> prints the nodes. The draws
  of the random generator are a parameter; what is printed on a failure is not modelled.
\<close>

section \<open>TestRand\<close>

record 'v KV =
  kv_key :: string
  kv_value :: 'v

text \<open>The insertion loop: draw \<open>i\<close> takes one of the pairs that are left, whose place the last one takes.\<close>

function rand_inserts ::
  "(nat \<Rightarrow> nat) \<Rightarrow> nat \<Rightarrow> 'v KV list \<Rightarrow> 'v RadixTreeNode \<Rightarrow> (string \<times> 'v) list \<Rightarrow>
    'v RadixTreeNode \<times> (string \<times> 'v) list"
where
  "rand_inserts dis i kvs tree kvMap =
     (if kvs = [] then (tree, kvMap)
      else
        let index = dis i mod length kvs;
            kv = kvs ! index;
            tree = tree_set (kv_key kv) (kv_value kv) tree;
            kvs = kvs[index := last kvs];
            kvs = butlast kvs;
            kvMap = map_set (kv_key kv) (kv_value kv) kvMap
        in rand_inserts dis (Suc i) kvs tree kvMap)"
  by pat_completeness auto
termination
  by (relation "measure (\<lambda>(dis, i, kvs, tree, kvMap). length kvs)") auto

declare rand_inserts.simps [simp del]

fun compare_all :: "(string \<times> 'v) list \<Rightarrow> 'v RadixTreeNode \<Rightarrow> bool option" where
  "compare_all [] tree = Some True"
| "compare_all ((key, val) # kvMap) tree =
     do {
       found \<leftarrow> tree_get key tree;
       (case found of
          None \<Rightarrow> Some False
        | Some v \<Rightarrow> if v \<noteq> val then Some False else compare_all kvMap tree)
     }"

definition TestRand :: "(nat \<Rightarrow> nat) \<Rightarrow> uint64 RadixTreeNode \<Rightarrow> uint64 \<Rightarrow> bool option" where
  "TestRand dis tree cnt =
     (let kvs = map (\<lambda>i. \<lparr>kv_key = std_to_string (int i), kv_value = word_of_nat i\<rparr>) [0..<unat cnt]
      in case rand_inserts dis 0 kvs tree [] of (tree, kvMap) \<Rightarrow> compare_all kvMap tree)"

text \<open>The lines that \<open>findAll\<close> prints: the path to a node, with its value unless it is empty.\<close>

fun findAll :: "'v RadixTreeNode \<Rightarrow> string \<Rightarrow> (string \<times> 'v option) list" where
  "findAll Null key = []"
| "findAll (Node e k c n v) key =
     (let nodeKey = key @ k
      in (nodeKey, if \<not> e then Some v else None) # findAll c nodeKey @ findAll n key)"

section \<open>The tree against the map\<close>

definition same_map :: "'v RadixTreeNode \<Rightarrow> (string \<times> 'v) list \<Rightarrow> bool" where
  "same_map tree m \<longleftrightarrow> tree_wf tree \<and> std_map m \<and> (m \<noteq> [] \<longrightarrow> \<not> is_Null tree)
     \<and> (\<forall>k. lookup tree k = map_get m k)"

lemma same_map_set:
  "same_map tree m \<Longrightarrow> key \<noteq> [] \<Longrightarrow> WildCard \<notin> set key \<Longrightarrow> same_map (tree_set key v tree) (map_set key v m)"
  by (auto simp: same_map_def tree_set_setNode setNode_wf lookup_setNode)

lemma rand_inserts_same:
  assumes "same_map tree m" and "\<forall>kv\<in>set kvs. kv_key kv \<noteq> [] \<and> WildCard \<notin> set (kv_key kv)"
  shows "case rand_inserts dis i kvs tree m of (tree', m') \<Rightarrow> same_map tree' m'"
  using assms
proof (induction dis i kvs tree m rule: rand_inserts.induct)
  case (1 dis i kvs tree m)
  show ?case
  proof (cases "kvs = []")
    case True
    with 1 show ?thesis by (simp add: rand_inserts.simps)
  next
    case False
    let ?i = "dis i mod length kvs" and ?kvs = "butlast (kvs[dis i mod length kvs := last kvs])"
    have "kvs ! ?i \<in> set kvs" using False by simp
    with 1 have "same_map (tree_set (kv_key (kvs ! ?i)) (kv_value (kvs ! ?i)) tree)
        (map_set (kv_key (kvs ! ?i)) (kv_value (kvs ! ?i)) m)"
      by (simp add: same_map_set)
    moreover have "set ?kvs \<subseteq> set kvs"
      using False set_update_subset_insert [of kvs ?i "last kvs"] by (auto dest: in_set_butlastD)
    with "1.prems" have "\<forall>kv\<in>set ?kvs. kv_key kv \<noteq> [] \<and> WildCard \<notin> set (kv_key kv)" by blast
    ultimately show ?thesis
      using "1.IH" [OF False refl refl refl refl refl refl] "1.prems" False
      by (subst rand_inserts.simps) (auto simp: Let_def)
  qed
qed

lemma compare_all_same:
  assumes "same_map tree m" and "set m' \<subseteq> set m"
  shows "compare_all m' tree = Some True"
  using assms(2)
proof (induction m')
  case (Cons kv m')
  obtain key val where kv: "kv = (key, val)" by (cases kv)
  have "distinct (map fst m)"
    using assms(1) by (simp add: same_map_def std_map_def strict_sorted_iff)
  then have "map_get m key = Some val" using Cons kv by (simp add: map_get_def)
  moreover have "m \<noteq> []" using Cons by auto
  ultimately have "tree_get key tree = Some (Some val)"
    using assms(1) by (simp add: same_map_def tree_get_def getNode_lookup)
  with Cons kv show ?case by simp
qed simp

lemma number_key: "std_to_string (int n) \<noteq> [] \<and> WildCard \<notin> set (std_to_string (int n))"
proof -
  have "digit_val 10 WildCard = None" by (simp add: WildCard_def digit_val_def)
  then show ?thesis using to_base_all_digits [of 10 n] by (auto simp: std_to_string_def)
qed

lemma lookup_first: "tree_wf t \<Longrightarrow> lookup t key = Some v \<Longrightarrow> key \<noteq> [] \<and> hd key \<in> first_chars t"
  by (induction t key rule: lookup.induct) (auto simp: Let_def common_pos split: if_splits)

lemma common_append [simp]: "common k (k @ r) = length k"
  by (induction k) auto

section \<open>Properties\<close>

text \<open>\<open>TestRand\<close> on an empty tree returns true for every number of keys and whatever the random
  generator draws.\<close>

theorem TestRand_passes: "TestRand dis RadixTree_new cnt = Some True"
proof -
  let ?kvs = "map (\<lambda>i. \<lparr>kv_key = std_to_string (int i), kv_value = word_of_nat i :: uint64\<rparr>) [0..<unat cnt]"
  obtain tree m where r: "rand_inserts dis 0 ?kvs RadixTree_new [] = (tree, m)" by fastforce
  have "same_map (RadixTree_new :: uint64 RadixTreeNode) []"
    by (simp add: same_map_def RadixTree_new_def map_get_def)
  from rand_inserts_same [OF this, of ?kvs dis 0] r have "same_map tree m"
    using number_key by auto
  with compare_all_same [OF this order_refl] r show ?thesis by (simp add: TestRand_def)
qed

lemma findAll_lookup:
  "tree_wf t \<Longrightarrow> (x, Some v) \<in> set (findAll t p) \<longleftrightarrow> (\<exists>k. x = p @ k \<and> lookup t k = Some v)"
proof (induction t p rule: findAll.induct)
  case (2 e k c n u p)
  have n: "lookup n key = Some v \<Longrightarrow> common k key = 0" for key
    using lookup_first [of n key v] 2 common_pos [of k key] by auto
  have "lookup (Node e k c n u) key = Some v \<longleftrightarrow>
      (\<not> e \<and> u = v \<and> key = k) \<or> (\<exists>r. key = k @ r \<and> lookup c r = Some v) \<or> lookup n key = Some v" for key
  proof (cases "common k key = length k")
    case True
    then obtain r where r: "key = k @ r"
      using GetCommomStringLength_take [of k key] by (metis append_take_drop_id take_all order_refl)
    moreover have "lookup n key \<noteq> Some v" using n [of key] True 2 by auto
    moreover have "lookup c [] \<noteq> Some v" using lookup_first [of c "[]" v] 2 by auto
    ultimately show ?thesis using True 2 by (auto simp: Let_def)
  next
    case False
    then have "\<And>r. key \<noteq> k @ r" "key \<noteq> k" by auto
    moreover have "common k key \<le> length k" by (rule GetCommomStringLength_le)
    ultimately show ?thesis using False n [of key] by (auto simp: Let_def)
  qed
  with 2 show ?case by (auto simp: Let_def)
qed simp

text \<open>On a tree built by \<open>set\<close> calls with keys that are not empty and hold no wildcard, \<open>findAll\<close>
  prints with a value exactly the keys that were set, each with the value set last.\<close>

theorem findAll_map:
  assumes "\<forall>(key, val)\<in>set kvs. key \<noteq> [] \<and> WildCard \<notin> set key"
  shows "(k, Some v) \<in> set (findAll (tree_sets kvs) []) \<longleftrightarrow> map_of (rev kvs) k = Some v"
  using fold_sets [of RadixTree_new kvs k] assms findAll_lookup [of "tree_sets kvs" k v "[]"]
  by (auto simp: tree_sets_def RadixTree_new_def split: option.splits)

theorem findAll_map_witness:
  "(''ab'', Some 4) \<in> set (findAll (tree_sets [(''ab'', 1 :: nat), (''ac'', 2), (''ab'', 4)]) [])"
proof -
  have "\<forall>(key, val)\<in>set [(''ab'', 1 :: nat), (''ac'', 2), (''ab'', 4)]. key \<noteq> [] \<and> WildCard \<notin> set key"
    by (simp add: WildCard_def)
  from findAll_map [OF this, of "''ab''" 4] show ?thesis by simp
qed

end
