(* ===== verification/TimerWheel.thy ===== *)
theory TimerWheel
  imports Watchers
begin

text \<open>
  The timing wheel that closes idle connections (\<open>uv/include/TimerWheel.hpp\<close>). The vector of sets
  of shared pointers is a list of sets; an element is alive through the wheel as long as some slot
  holds it. The specification is \<open>recent n\<close>: the elements inserted with fewer than \<open>n\<close> ticks
  since.
\<close>

section \<open>State and operations\<close>

datatype WheelCallback = WheelCallback

record 'a TimerWheel =
  index :: uint32
  timeoutSec :: uint32
  timer :: "WheelCallback Timer"
  wheel :: "'a set list"

definition TimerWheel_new ::
  "'w Libuv \<Rightarrow> handle \<Rightarrow> uint32 \<Rightarrow> 'w \<Rightarrow> 'a TimerWheel \<times> 'w" where
  "TimerWheel_new uv h tmo w =
     (case Timer_new uv h 1000 1000 (Some WheelCallback) w of (t, w) \<Rightarrow>
        (\<lparr>index = 0, timeoutSec = tmo, timer = t, wheel = []\<rparr>, w))"

definition setTimeout :: "uint32 \<Rightarrow> 'a TimerWheel \<Rightarrow> 'a TimerWheel" where
  "setTimeout seconds tw = tw\<lparr>timeoutSec := seconds\<rparr>"

text \<open>\<open>int getTimeout ()\<close> returns the \<open>unsigned\<close> field: values from \<open>2 ^ 31\<close> on are negative.\<close>

definition getTimeout :: "'a TimerWheel \<Rightarrow> int" where
  "getTimeout tw = sint (timeoutSec tw)"

definition resize_slots :: "nat \<Rightarrow> 'a set list \<Rightarrow> 'a set list" where
  "resize_slots n ss = take n ss @ replicate (n - length ss) {}"

definition wheel_start :: "'w Libuv \<Rightarrow> 'a TimerWheel \<Rightarrow> 'w \<Rightarrow> 'a TimerWheel \<times> 'w" where
  "wheel_start uv tw w =
     (if timeoutSec tw \<noteq> 0
      then
        let tw = tw\<lparr>wheel := resize_slots (unat (timeoutSec tw)) (wheel tw)\<rparr>
        in case timer_start uv (timer tw) w of (t, w) \<Rightarrow> (tw\<lparr>timer := t\<rparr>, w)
      else (tw, w))"

definition wheel_insert :: "'a option \<Rightarrow> 'a TimerWheel \<Rightarrow> 'a TimerWheel option" where
  "wheel_insert value tw =
     (case value of
        Some x \<Rightarrow>
          (if 0 < timeoutSec tw
           then
             do {
               slot \<leftarrow> index_at (wheel tw) (unat (index tw));
               Some (tw\<lparr>wheel := (wheel tw)[unat (index tw) := insert x slot]\<rparr>)
             }
           else Some tw)
      | None \<Rightarrow> Some tw)"

definition wheelCallback :: "'a TimerWheel \<Rightarrow> 'a TimerWheel option" where
  "wheelCallback tw =
     (if timeoutSec tw = 0 then Some tw
      else
        let i = index tw + 1;
            i = (if i = timeoutSec tw then 0 else i)
        in do {
             _ \<leftarrow> index_at (wheel tw) (unat i);
             Some (tw\<lparr>index := i, wheel := (wheel tw)[unat i := {}]\<rparr>)
           })"

text \<open>What the wheel keeps alive, and what a step lets go.\<close>

definition held :: "'a TimerWheel \<Rightarrow> 'a set" where
  "held tw = \<Union> (set (wheel tw))"

definition dropped :: "'a TimerWheel \<Rightarrow> 'a TimerWheel \<Rightarrow> 'a set" where
  "dropped tw tw' = held tw - held tw'"

section \<open>Histories\<close>

datatype 'a WheelEvent = Insert 'a | Tick

fun wheel_run :: "'a WheelEvent list \<Rightarrow> 'a TimerWheel \<Rightarrow> 'a TimerWheel option" where
  "wheel_run [] tw = Some tw"
| "wheel_run (Insert x # es) tw =
     (case wheel_insert (Some x) tw of Some tw' \<Rightarrow> wheel_run es tw' | None \<Rightarrow> None)"
| "wheel_run (Tick # es) tw =
     (case wheelCallback tw of Some tw' \<Rightarrow> wheel_run es tw' | None \<Rightarrow> None)"

text \<open>The history is read backwards, the latest event first.\<close>

fun recent :: "nat \<Rightarrow> 'a WheelEvent list \<Rightarrow> 'a set" where
  "recent n [] = {}"
| "recent n (Insert x # es) = (if n = 0 then {} else insert x (recent n es))"
| "recent n (Tick # es) = recent (n - 1) es"

fun inserted_at :: "nat \<Rightarrow> 'a WheelEvent list \<Rightarrow> 'a set" where
  "inserted_at k [] = {}"
| "inserted_at k (Insert x # es) = (if k = 0 then insert x (inserted_at 0 es) else inserted_at k es)"
| "inserted_at 0 (Tick # es) = {}"
| "inserted_at (Suc k) (Tick # es) = inserted_at k es"

lemma recent_0 [simp]: "recent 0 es = {}"
  by (induction "0 :: nat" es rule: recent.induct) auto

lemma recent_split: "recent n es = (\<Union>k<n. inserted_at k es)"
proof (induction n es rule: recent.induct)
  case (2 n x es)
  show ?case
  proof (cases n)
    case (Suc m)
    have "(\<Union>k<n. inserted_at k (Insert x # es)) = insert x (\<Union>k<n. inserted_at k es)"
      unfolding Suc by (auto simp: less_Suc_eq_0_disj split: if_splits)
    with 2 Suc show ?thesis by simp
  qed simp
next
  case (3 n es)
  then show ?case by (cases n) (auto simp: lessThan_Suc_eq_insert_0)
qed simp

text \<open>The slot \<open>k\<close> ticks behind the index.\<close>

definition slot_behind :: "nat \<Rightarrow> 'a TimerWheel \<Rightarrow> nat" where
  "slot_behind k tw =
     (let i = unat (index tw) in if k \<le> i then i - k else i + length (wheel tw) - k)"

definition wheel_valid :: "'a TimerWheel \<Rightarrow> bool" where
  "wheel_valid tw \<longleftrightarrow> 0 < timeoutSec tw \<and> length (wheel tw) = unat (timeoutSec tw)
     \<and> unat (index tw) < unat (timeoutSec tw)"

definition wheel_agrees :: "'a WheelEvent list \<Rightarrow> 'a TimerWheel \<Rightarrow> bool" where
  "wheel_agrees past tw \<longleftrightarrow> wheel_valid tw
     \<and> (\<forall>k < unat (timeoutSec tw). wheel tw ! slot_behind k tw = inserted_at k past)"

lemma slot_behind_less: "wheel_valid tw \<Longrightarrow> k < unat (timeoutSec tw) \<Longrightarrow>
    slot_behind k tw < unat (timeoutSec tw)"
  by (auto simp: slot_behind_def wheel_valid_def Let_def)

lemma slots_cover:
  assumes "wheel_valid tw" and "j < unat (timeoutSec tw)"
  shows "\<exists>k < unat (timeoutSec tw). slot_behind k tw = j"
proof (cases "j \<le> unat (index tw)")
  case True
  then show ?thesis
    using assms by (intro exI [of _ "unat (index tw) - j"]) (auto simp: slot_behind_def wheel_valid_def Let_def)
next
  case False
  then show ?thesis
    using assms by (intro exI [of _ "unat (index tw) + unat (timeoutSec tw) - j"])
      (auto simp: slot_behind_def wheel_valid_def Let_def)
qed

lemma held_agrees:
  assumes "wheel_agrees past tw"
  shows "held tw = recent (unat (timeoutSec tw)) past"
proof -
  let ?T = "unat (timeoutSec tw)"
  have v: "wheel_valid tw" and len: "length (wheel tw) = ?T"
    using assms by (simp_all add: wheel_agrees_def wheel_valid_def)
  have "set (wheel tw) = (\<lambda>k. wheel tw ! slot_behind k tw) ` {..<?T}"
    using slot_behind_less [OF v] slots_cover [OF v]
    by (fastforce simp: set_conv_nth len image_iff)
  then show ?thesis
    using assms by (simp add: held_def recent_split wheel_agrees_def)
qed

lemma index_Suc:
  assumes "wheel_valid tw"
  shows "unat (index tw + 1) = unat (index tw) + 1"
  using assms unat32_bound [of "timeoutSec tw"]
  by (simp add: wheel_valid_def unat_word_ariths)

lemma insert_agrees:
  assumes "wheel_agrees past tw"
  shows "\<exists>tw'. wheel_insert (Some x) tw = Some tw' \<and> wheel_agrees (Insert x # past) tw'
    \<and> timeoutSec tw' = timeoutSec tw"
proof -
  let ?i = "unat (index tw)"
  let ?tw' = "tw\<lparr>wheel := (wheel tw)[?i := insert x (wheel tw ! ?i)]\<rparr>"
  have v: "wheel_valid tw" using assms by (simp add: wheel_agrees_def)
  then have "wheel_insert (Some x) tw = Some ?tw'"
    by (simp add: wheel_insert_def wheel_valid_def index_at_def)
  moreover have "wheel ?tw' ! slot_behind k ?tw' = inserted_at k (Insert x # past)"
    if "k < unat (timeoutSec tw)" for k
  proof -
    have old: "wheel tw ! slot_behind k tw = inserted_at k past"
      using assms that by (simp add: wheel_agrees_def)
    have i: "slot_behind k ?tw' = slot_behind k tw"
      by (simp add: slot_behind_def Let_def)
    have "?i < length (wheel tw)" using v by (simp add: wheel_valid_def)
    moreover have "slot_behind 0 tw = ?i" by (simp add: slot_behind_def)
    moreover have "slot_behind k tw \<noteq> ?i" if "0 < k"
      using v that \<open>k < unat (timeoutSec tw)\<close> by (auto simp: slot_behind_def wheel_valid_def Let_def)
    ultimately show ?thesis using old unfolding i by (cases "k = 0") auto
  qed
  moreover have "wheel_valid ?tw'" using v by (simp add: wheel_valid_def)
  ultimately show ?thesis by (simp add: wheel_agrees_def)
qed

lemma tick_agrees:
  assumes "wheel_agrees past tw"
  shows "\<exists>tw'. wheelCallback tw = Some tw' \<and> wheel_agrees (Tick # past) tw'
    \<and> timeoutSec tw' = timeoutSec tw"
proof -
  have v: "wheel_valid tw" using assms by (simp add: wheel_agrees_def)
  let ?T = "unat (timeoutSec tw)" and ?i = "unat (index tw)"
  define i where "i = (if index tw + 1 = timeoutSec tw then 0 else index tw + 1)"
  have i: "unat i = (if ?i + 1 = ?T then 0 else ?i + 1)"
    using index_Suc [OF v] by (auto simp: i_def word_unat_eq_iff)
  have "unat i < ?T" and len: "length (wheel tw) = ?T" and "0 < ?T" and less: "?i < ?T"
    using v by (auto simp: i wheel_valid_def)
  let ?tw' = "tw\<lparr>index := i, wheel := (wheel tw)[unat i := {}]\<rparr>"
  have step: "wheelCallback tw = Some ?tw'"
    using \<open>unat i < ?T\<close> len v
    by (auto simp: wheelCallback_def Let_def index_at_def wheel_valid_def simp flip: i_def)
  have v': "wheel_valid ?tw'"
    using v \<open>unat i < ?T\<close> by (simp add: wheel_valid_def)
  have "wheel ?tw' ! slot_behind k ?tw' = inserted_at k (Tick # past)" if "k < ?T" for k
  proof (cases k)
    case 0
    then show ?thesis using \<open>unat i < ?T\<close> len by (simp add: slot_behind_def)
  next
    case (Suc k')
    have "slot_behind k ?tw' = slot_behind k' tw"
      using that len less i by (auto simp: slot_behind_def Let_def Suc)
    moreover have "slot_behind k' tw \<noteq> unat i"
      using that len less i by (auto simp: slot_behind_def Let_def Suc)
    ultimately show ?thesis
      using assms that by (simp add: wheel_agrees_def Suc)
  qed
  with v' have "wheel_agrees (Tick # past) ?tw'"
    by (simp add: wheel_agrees_def)
  with step show ?thesis by simp
qed

lemma run_agrees:
  assumes "wheel_agrees past tw"
  shows "\<exists>tw'. wheel_run es tw = Some tw' \<and> wheel_agrees (rev es @ past) tw'
    \<and> timeoutSec tw' = timeoutSec tw"
  using assms
proof (induction es arbitrary: past tw)
  case (Cons e es)
  show ?case
  proof (cases e)
    case (Insert x)
    with insert_agrees [OF Cons.prems, of x] Cons.IH show ?thesis by fastforce
  next
    case Tick
    with tick_agrees [OF Cons.prems] Cons.IH show ?thesis by fastforce
  qed
qed simp

lemma start_agrees:
  assumes "0 < tmo"
  shows "wheel_agrees [] (fst (wheel_start uv (fst (TimerWheel_new uv h tmo w)) w'))"
    and "timeoutSec (fst (wheel_start uv (fst (TimerWheel_new uv h tmo w)) w')) = tmo"
proof -
  have "tmo \<noteq> 0" "0 < unat tmo" using assms by (auto simp: unat_gt_0)
  then show "wheel_agrees [] (fst (wheel_start uv (fst (TimerWheel_new uv h tmo w)) w'))"
    and "timeoutSec (fst (wheel_start uv (fst (TimerWheel_new uv h tmo w)) w')) = tmo"
    using assms
    by (auto simp: wheel_agrees_def wheel_valid_def wheel_start_def TimerWheel_new_def
        Timer_new_def resize_slots_def slot_behind_def Let_def split: prod.splits)
qed

text \<open>A wheel whose timeout was raised walks on, slot by slot.\<close>

lemma wheel_run_append:
  "wheel_run (es @ fs) tw = Option.bind (wheel_run es tw) (wheel_run fs)"
  by (induction es tw rule: wheel_run.induct) (auto split: option.split)

lemma ticks_Suc:
  "wheel_run (replicate (Suc n) Tick) tw = Option.bind (wheel_run (replicate n Tick) tw) wheelCallback"
proof -
  have "replicate (Suc n) Tick = replicate n Tick @ [Tick :: 'a WheelEvent]"
    by (simp add: replicate_append_same)
  then show ?thesis
    by (simp only: wheel_run_append)
      (cases "wheel_run (replicate n Tick) tw"; simp split: option.split)
qed

lemma ticks_from_start:
  assumes "wheel_valid tw" and "timeoutSec tw < tmo'" and "index tw = 0" and "n < unat (timeoutSec tw)"
  shows "\<exists>tw'. wheel_run (replicate n Tick) (setTimeout tmo' tw) = Some tw'
    \<and> unat (index tw') = n \<and> length (wheel tw') = unat (timeoutSec tw) \<and> timeoutSec tw' = tmo'"
  using assms(4)
proof (induction n)
  case 0
  then show ?case using assms by (simp add: setTimeout_def wheel_valid_def)
next
  case (Suc n)
  then obtain tw' where tw': "wheel_run (replicate n Tick) (setTimeout tmo' tw) = Some tw'"
    "unat (index tw') = n" "length (wheel tw') = unat (timeoutSec tw)" "timeoutSec tw' = tmo'"
    by auto
  have lt: "unat (timeoutSec tw) < unat tmo'" using assms(2) by (simp add: word_less_nat_alt)
  have i: "unat (index tw' + 1) = Suc n"
    using tw'(2) Suc.prems unat32_bound [of "timeoutSec tw"] by (simp add: unat_word_ariths)
  then have "index tw' + 1 \<noteq> tmo'" using lt Suc.prems by auto
  moreover have "tmo' \<noteq> 0" using lt by auto
  ultimately show ?case
    using tw' i Suc.prems
    by (simp only: ticks_Suc) (simp add: wheelCallback_def Let_def index_at_def)
qed

lemma tick_past_end:
  assumes "length (wheel tw) = Suc (unat (index tw))" and "Suc (unat (index tw)) < unat (timeoutSec tw)"
  shows "wheelCallback tw = None"
proof -
  have i: "unat (index tw + 1) = Suc (unat (index tw))"
    using assms(2) unat32_bound [of "timeoutSec tw"] by (simp add: unat_word_ariths)
  then have "index tw + 1 \<noteq> timeoutSec tw" "timeoutSec tw \<noteq> 0" using assms(2) by auto
  with i assms(1) show ?thesis by (simp add: wheelCallback_def Let_def index_at_def)
qed

section \<open>Properties\<close>

text \<open>C12: from the start of the wheel with timeout \<open>tmo\<close>, after any sequence of insertions and ticks,
  no access leaves the wheel and it holds exactly the elements inserted with fewer than \<open>tmo\<close> ticks
  since: an element lives through \<open>tmo - 1\<close> ticks after its last insertion and is dropped by the
  next one, unless it is inserted again.\<close>

theorem wheel_holds_recent:
  assumes "0 < tmo"
  shows "\<exists>tw. wheel_run es (fst (wheel_start uv (fst (TimerWheel_new uv h tmo w)) w')) = Some tw
    \<and> held tw = recent (unat tmo) (rev es)"
proof -
  from run_agrees [OF start_agrees(1) [OF assms, of uv h w w'], where es = es] obtain tw
    where "wheel_run es (fst (wheel_start uv (fst (TimerWheel_new uv h tmo w)) w')) = Some tw"
      "wheel_agrees (rev es) tw" "timeoutSec tw = tmo"
    using start_agrees(2) [OF assms, of uv h w w'] by auto
  with held_agrees [of "rev es" tw] show ?thesis by auto
qed

theorem wheel_holds_recent_witness:
  "\<exists>tw. wheel_run [Insert (7 :: nat), Tick, Tick, Insert 8, Tick]
      (fst (wheel_start sim_uv (fst (TimerWheel_new sim_uv 1 3 sim_init)) sim_init)) = Some tw
    \<and> held tw = {8}"
proof -
  have "recent (unat (3 :: uint32)) (rev [Insert (7 :: nat), Tick, Tick, Insert 8, Tick]) = {8}"
    by simp
  with wheel_holds_recent [of 3 "[Insert (7 :: nat), Tick, Tick, Insert 8, Tick]" sim_uv 1 sim_init sim_init]
  show ?thesis by auto
qed

text \<open>\<open>setTimeout\<close> does not resize a wheel that has been started: raised from \<open>tmo\<close> to a larger
  value, the index walks out of the vector at the tick number \<open>tmo\<close>, and a wheel that \<open>start\<close>
  skipped because its timeout was 0 is left at the first insertion.\<close>

theorem wheel_setTimeout_after_start:
  fixes x :: 'a
  assumes "0 < tmo" and "tmo < tmo'"
  shows "wheel_run (replicate (unat tmo) Tick)
      (setTimeout tmo' (fst (wheel_start uv (fst (TimerWheel_new uv h tmo w)) w')) :: 'a TimerWheel) = None
    \<and> wheel_insert (Some x)
      (setTimeout tmo' (fst (wheel_start uv (fst (TimerWheel_new uv h 0 w)) w'))) = None"
proof
  let ?tw = "fst (wheel_start uv (fst (TimerWheel_new uv h tmo w)) w') :: 'a TimerWheel"
  have tw: "wheel_valid ?tw" "timeoutSec ?tw = tmo"
    using start_agrees [OF assms(1), of uv h w w'] by (auto simp: wheel_agrees_def)
  have "index ?tw = 0"
    by (simp add: wheel_start_def TimerWheel_new_def Timer_new_def Let_def split: prod.splits)
  moreover obtain n where n: "unat tmo = Suc n"
    using assms(1) by (cases "unat tmo") (auto simp: word_less_nat_alt)
  ultimately obtain tw' where tw': "wheel_run (replicate n Tick) (setTimeout tmo' ?tw) = Some tw'"
    "unat (index tw') = n" "length (wheel tw') = unat tmo" "timeoutSec tw' = tmo'"
    using ticks_from_start [OF tw(1), of tmo' n] unfolding tw(2) using assms(2) by auto
  have "wheelCallback tw' = None"
    using tick_past_end [of tw'] tw' n assms(2) by (simp add: word_less_nat_alt)
  with tw'(1) show "wheel_run (replicate (unat tmo) Tick) (setTimeout tmo' ?tw) = None"
    by (simp only: n ticks_Suc) (simp add: bind_eq_Some_conv)
  have "0 < tmo'" using assms by (rule order.strict_trans)
  then show "wheel_insert (Some x)
      (setTimeout tmo' (fst (wheel_start uv (fst (TimerWheel_new uv h 0 w)) w'))) = None"
    by (simp add: wheel_insert_def setTimeout_def wheel_start_def TimerWheel_new_def Timer_new_def)
qed

theorem wheel_setTimeout_after_start_witness:
  "wheel_run [Tick, Tick]
      (setTimeout 5 (fst (wheel_start sim_uv (fst (TimerWheel_new sim_uv 1 2 sim_init)) sim_init))
        :: nat TimerWheel) = None"
proof -
  have "(0 :: uint32) < 2" "(2 :: uint32) < 5" by simp_all
  from wheel_setTimeout_after_start [OF this, where x = "0 :: nat" and uv = sim_uv and h = 1
      and w = sim_init and w' = sim_init]
  have "wheel_run (replicate 2 Tick) (setTimeout 5
      (fst (wheel_start sim_uv (fst (TimerWheel_new sim_uv 1 2 sim_init)) sim_init))
        :: nat TimerWheel) = None" by simp
  moreover have "replicate 2 (Tick :: nat WheelEvent) = [Tick, Tick]" by (simp add: numeral_2_eq_2)
  ultimately show ?thesis by (simp only:)
qed

end
