(* ===== verification/TcpServer.thy ===== *)
theory TcpServer
  imports TcpConnection TimerWheel
begin

text \<open>
  The acceptor (\<open>uv/TcpAccepter.cpp\<close>) and the server (\<open>uv/TcpServer.cpp\<close>): accepted connections
  are kept in a map by the peer's address, closed on errors, on request and by the timer wheel.

  The connection objects are in a store, by a number that is never used twice and that also names
  the connection's handle and its wrapper. The map holds the only lasting strong reference to a
  connection, so erasing its entry destroys the object. Callbacks of the user are values that a
  parameter interprets as functions on the server; the handlers that the library binds are
  constructors of \<open>ServerCb\<close>. Using a destroyed object is \<open>None\<close>.
\<close>

section \<open>TcpAccepter\<close>

record 'u TcpAccepter =
  listened :: bool
  acc_noDelay :: bool
  newConnection :: bool
  acc_onClose :: "'u option"
  acc_handle :: handle

definition TcpAccepter_new :: "'w Libuv \<Rightarrow> handle \<Rightarrow> bool \<Rightarrow> 'w \<Rightarrow> 'u TcpAccepter \<times> 'w" where
  "TcpAccepter_new uv h noDelay w =
     (let w = uv_tcp_init uv h w;
          w = (if noDelay then uv_tcp_nodelay uv h w else w)
      in (\<lparr>listened = False, acc_noDelay = noDelay, newConnection = False, acc_onClose = None,
           acc_handle = h\<rparr>, w))"

definition acc_bind :: "'w Libuv \<Rightarrow> SocketAddr \<Rightarrow> 'u TcpAccepter \<Rightarrow> 'w \<Rightarrow> int \<times> 'w" where
  "acc_bind uv addr a w = uv_tcp_bind uv (acc_handle a) (Addr addr) w"

definition acc_listen :: "'w Libuv \<Rightarrow> 'u TcpAccepter \<Rightarrow> 'w \<Rightarrow> int \<times> 'u TcpAccepter \<times> 'w" where
  "acc_listen uv a w =
     (case uv_listen uv (acc_handle a) 128 w of (rst, w) \<Rightarrow>
        (rst, if rst = 0 then a\<lparr>listened := True\<rparr> else a, w))"

text \<open>
  The connection callback of \<open>listen\<close>: the client handed to \<open>callback_\<close>, if any, and the log. When
  \<open>uv_accept\<close> fails, the handle is given to \<open>uv_close\<close> and its last \<open>shared_ptr\<close> ends with the callback, while
  libuv still needs the memory; the model says only that the handle is closing.
\<close>

definition on_connection ::
  "'w Libuv \<Rightarrow> int \<Rightarrow> handle \<Rightarrow> 'u TcpAccepter \<Rightarrow> 'w \<Rightarrow> handle option \<times> string list \<times> 'w"
where
  "on_connection uv st client a w =
     (if st < 0 then (None, [''New connection error :'' @ uv_strerror uv st], w)
      else
        let w = uv_tcp_init uv client w;
            w = (if acc_noDelay a then uv_tcp_nodelay uv client w else w)
        in (case uv_accept uv (acc_handle a) client w of (rst, w) \<Rightarrow>
              if rst = 0 then (if newConnection a then Some client else None, [], w)
              else (None, [], uv_close uv client w)))"

definition isListen :: "'u TcpAccepter \<Rightarrow> bool" where
  "isListen a = listened a"

definition isTcpNoDelay :: "'u TcpAccepter \<Rightarrow> bool" where
  "isTcpNoDelay a = acc_noDelay a"

definition setNewConnectinonCallback :: "bool \<Rightarrow> 'u TcpAccepter \<Rightarrow> 'u TcpAccepter" where
  "setNewConnectinonCallback cb a = a\<lparr>newConnection := cb\<rparr>"

definition onCloseComlet :: "'u TcpAccepter \<Rightarrow> 'u list" where
  "onCloseComlet a = run_if (acc_onClose a)"

definition acc_close ::
  "'w Libuv \<Rightarrow> 'u option \<Rightarrow> 'u TcpAccepter \<Rightarrow> 'w \<Rightarrow> ('u TcpAccepter \<times> 'w \<times> 'u list) option"
where
  "acc_close uv callback a w =
     (let a = a\<lparr>acc_onClose := callback\<rparr>;
          h = acc_handle a;
          w = (if uv_is_active uv h w then uv_read_stop uv h w else w)
      in if \<not> uv_is_closing uv h w then Some (a, uv_close uv h w, [])
         else Some (a, w, onCloseComlet a))"

sublocale libuv \<subseteq> accepter: close_protocol
  "\<lambda>a. uv_is_closing uv (acc_handle a)" "acc_close uv" onCloseComlet
  by unfold_locales (auto simp: acc_close_def onCloseComlet_def run_if_def Let_def closing)

section \<open>TcpServer\<close>

datatype 'u ServerCb = OnMessageBind | CloseConnectionBind | CloseLambda | UserWrite 'u

datatype UserArg =
  NewConnect nat | ConnectClose nat | Message nat "uint8 list" | Written WriteInfo | ServerClosed

record ('u, 'w) TcpServer =
  world :: 'w
  objects :: "nat \<Rightarrow> 'u ServerCb TcpConnection option"
  connnections :: "(string \<times> nat) list"
  timerWheel :: "nat TimerWheel"
  tcpNoDelay :: bool
  server_ipv :: IPV
  accetper :: "'u option TcpAccepter option"
  onMessageCb :: "'u option"
  onNewConnectCb :: "'u option"
  onConnectCloseCb :: "'u option"
  server_log :: "(Level \<times> string) list"
  pending :: "(nat \<times> 'u ServerCb option \<times> uint8 list) list"

text \<open>What the server's code refers to outside itself.\<close>

record ('u, 'w) Env =
  uv :: "'w Libuv"
  inet :: Inet
  buffer_mode :: BufferMode
  cycle_size :: uint64
  user :: "'u \<Rightarrow> UserArg \<Rightarrow> ('u, 'w) TcpServer \<Rightarrow> ('u, 'w) TcpServer option"

definition TcpServer_new :: "'w Libuv \<Rightarrow> handle \<Rightarrow> bool \<Rightarrow> 'w \<Rightarrow> ('u, 'w) TcpServer" where
  "TcpServer_new u h noDelay w =
     (case TimerWheel_new u h 0 w of (tw, w) \<Rightarrow>
        \<lparr>world = w, objects = (\<lambda>_. None), connnections = [], timerWheel = tw, tcpNoDelay = noDelay,
         server_ipv = Ipv4, accetper = None, onMessageCb = None, onNewConnectCb = None,
         onConnectCloseCb = None, server_log = [], pending = []\<rparr>)"

definition log_srv :: "Level \<Rightarrow> string \<Rightarrow> ('u, 'w) TcpServer \<Rightarrow> ('u, 'w) TcpServer" where
  "log_srv level msg s = s\<lparr>server_log := server_log s @ [(level, msg)]\<rparr>"

definition run_user ::
  "('u, 'w) Env \<Rightarrow> 'u option \<Rightarrow> UserArg \<Rightarrow> ('u, 'w) TcpServer \<Rightarrow> ('u, 'w) TcpServer option"
where
  "run_user env cb arg s = (case cb of Some f \<Rightarrow> user env f arg s | None \<Rightarrow> Some s)"

subsection \<open>Connections\<close>

definition getConnnection :: "string \<Rightarrow> ('u, 'w) TcpServer \<Rightarrow> nat option" where
  "getConnnection nm s = map_get (connnections s) nm"

definition addConnnection :: "string \<Rightarrow> nat \<Rightarrow> ('u, 'w) TcpServer \<Rightarrow> ('u, 'w) TcpServer" where
  "addConnnection nm i s = s\<lparr>connnections := map_insert nm i (connnections s)\<rparr>"

text \<open>Erasing the entry drops the reference that keeps the connection alive.\<close>

definition removeConnnection :: "string \<Rightarrow> ('u, 'w) TcpServer \<Rightarrow> ('u, 'w) TcpServer" where
  "removeConnnection nm s =
     (case getConnnection nm s of
        None \<Rightarrow> s
      | Some i \<Rightarrow> s\<lparr>connnections := map_erase nm (connnections s), objects := (objects s)(i := None)\<rparr>)"

text \<open>The lambda that \<open>closeConnection\<close> passes to \<open>close\<close>, and \<open>closeConnection\<close>.\<close>

definition close_done :: "('u, 'w) Env \<Rightarrow> string \<Rightarrow> ('u, 'w) TcpServer \<Rightarrow> ('u, 'w) TcpServer option" where
  "close_done env nm s =
     (case getConnnection nm s of
        None \<Rightarrow> Some s
      | Some i \<Rightarrow>
          map_option (removeConnnection nm) (run_user env (onConnectCloseCb s) (ConnectClose i) s))"

definition closeConnection ::
  "('u, 'w) Env \<Rightarrow> string \<Rightarrow> ('u, 'w) TcpServer \<Rightarrow> ('u, 'w) TcpServer option"
where
  "closeConnection env nm s =
     (case getConnnection nm s of
        None \<Rightarrow> Some s
      | Some i \<Rightarrow>
          do {
            c \<leftarrow> objects s i;
            (c, w, cbs) \<leftarrow> conn_close (uv env) (Some CloseLambda) c (world s);
            let s = s\<lparr>world := w, objects := (objects s)(i \<mapsto> c)\<rparr>;
            (case cbs of [] \<Rightarrow> Some s | _ \<Rightarrow> close_done env (name c) s)
          })"

text \<open>\<open>onSocketClose\<close> of a connection, with the callback that the server bound.\<close>

definition conn_socketClose :: "('u, 'w) Env \<Rightarrow> nat \<Rightarrow> ('u, 'w) TcpServer \<Rightarrow> ('u, 'w) TcpServer option" where
  "conn_socketClose env i s =
     do {
       c \<leftarrow> objects s i;
       (case onSocketClose c of
          [] \<Rightarrow> Some s
        | a # _ \<Rightarrow> (case a of RunClose CloseConnectionBind nm \<Rightarrow> closeConnection env nm s | _ \<Rightarrow> None))
     }"

definition onAccept :: "('u, 'w) Env \<Rightarrow> nat \<Rightarrow> ('u, 'w) TcpServer \<Rightarrow> ('u, 'w) TcpServer option" where
  "onAccept env client s =
     do {
       key \<leftarrow> AddrToStr (inet env) (uv env) client (server_ipv s) (world s);
       let s = log_srv Debug (''new connect  '' @ key) s;
       let (c, w) = TcpConnection_new (uv env) (buffer_mode env) (cycle_size env) key client True (world s);
       let c = conn_setMessageCallback (Some OnMessageBind) c;
       let c = conn_setConnectCloseCallback (Some CloseConnectionBind) c;
       let s = s\<lparr>world := w, objects := (objects s)(client \<mapsto> c)\<rparr>;
       let s = addConnnection key client s;
       s \<leftarrow> (if 0 < getTimeout (timerWheel s)
             then
               map_option (\<lambda>tw. s\<lparr>objects := (objects s)(client \<mapsto> setWrapper (Some client) c),
                   timerWheel := tw\<rparr>)
                 (wheel_insert (Some client) (timerWheel s))
             else Some s);
       s \<leftarrow> run_user env (onNewConnectCb s) (NewConnect client) s;
       Some (if getConnnection key s = Some client then s
             else s\<lparr>objects := (objects s)(client := None)\<rparr>)
     }"

definition srv_onMessage ::
  "('u, 'w) Env \<Rightarrow> nat \<Rightarrow> uint8 list \<Rightarrow> ('u, 'w) TcpServer \<Rightarrow> ('u, 'w) TcpServer option"
where
  "srv_onMessage env i buf s =
     do {
       c \<leftarrow> objects s i;
       s \<leftarrow> run_user env (onMessageCb s) (Message i buf) s;
       if 0 < getTimeout (timerWheel s)
       then map_option (\<lambda>tw. s\<lparr>timerWheel := tw\<rparr>)
              (wheel_insert (getWrapper (held (timerWheel s)) c) (timerWheel s))
       else Some s
     }"

subsection \<open>Events\<close>

text \<open>The actions of a connection of this server.\<close>

definition run_act ::
  "('u, 'w) Env \<Rightarrow> nat \<Rightarrow> 'u ServerCb Act \<Rightarrow> ('u, 'w) TcpServer \<Rightarrow> ('u, 'w) TcpServer option"
where
  "run_act env i act s =
     (case act of
        LogAct l m \<Rightarrow> Some (log_srv l m s)
      | RunMessage cb buf \<Rightarrow> (case cb of OnMessageBind \<Rightarrow> srv_onMessage env i buf s | _ \<Rightarrow> None)
      | RunClose cb nm \<Rightarrow> (case cb of CloseConnectionBind \<Rightarrow> closeConnection env nm s | _ \<Rightarrow> None)
      | RunWritten cb info \<Rightarrow> (case cb of UserWrite f \<Rightarrow> user env f (Written info) s | _ \<Rightarrow> None))"

fun run_acts ::
  "('u, 'w) Env \<Rightarrow> nat \<Rightarrow> 'u ServerCb Act list \<Rightarrow> ('u, 'w) TcpServer \<Rightarrow> ('u, 'w) TcpServer option"
where
  "run_acts env i [] s = Some s"
| "run_acts env i (a # acts) s =
     (case run_act env i a s of Some s \<Rightarrow> run_acts env i acts s | None \<Rightarrow> None)"

definition on_read ::
  "('u, 'w) Env \<Rightarrow> nat \<Rightarrow> int \<Rightarrow> uint8 list \<Rightarrow> ('u, 'w) TcpServer \<Rightarrow> ('u, 'w) TcpServer option"
where
  "on_read env i nread buf s =
     do {
       c \<leftarrow> objects s i;
       let (c, w, acts) = onMesageReceive (uv env) nread buf c (world s);
       run_acts env i acts (s\<lparr>world := w, objects := (objects s)(i \<mapsto> c)\<rparr>)
     }"

definition on_shutdown :: "('u, 'w) Env \<Rightarrow> nat \<Rightarrow> ('u, 'w) TcpServer \<Rightarrow> ('u, 'w) TcpServer option" where
  "on_shutdown env i s = conn_socketClose env i s"

text \<open>libuv reports the handle of a connection closed.\<close>

definition on_closed :: "('u, 'w) Env \<Rightarrow> nat \<Rightarrow> ('u, 'w) TcpServer \<Rightarrow> ('u, 'w) TcpServer option" where
  "on_closed env i s =
     do {
       c \<leftarrow> objects s i;
       (case CloseComplete c of
          [] \<Rightarrow> Some s
        | cb # _ \<Rightarrow> (case cb of CloseLambda \<Rightarrow> close_done env (name c) s | _ \<Rightarrow> None))
     }"

text \<open>The destructor of a wrapper closes its connection if there is one still.\<close>

definition drop_wrapper :: "('u, 'w) Env \<Rightarrow> nat \<Rightarrow> ('u, 'w) TcpServer \<Rightarrow> ('u, 'w) TcpServer option" where
  "drop_wrapper env i s =
     (case objects s i of None \<Rightarrow> Some s | Some c \<Rightarrow> conn_socketClose env i s)"

fun drop_wrappers :: "('u, 'w) Env \<Rightarrow> nat list \<Rightarrow> ('u, 'w) TcpServer \<Rightarrow> ('u, 'w) TcpServer option" where
  "drop_wrappers env [] s = Some s"
| "drop_wrappers env (i # is) s =
     (case drop_wrapper env i s of Some s \<Rightarrow> drop_wrappers env is s | None \<Rightarrow> None)"

definition on_tick :: "('u, 'w) Env \<Rightarrow> ('u, 'w) TcpServer \<Rightarrow> ('u, 'w) TcpServer option" where
  "on_tick env s =
     do {
       tw \<leftarrow> wheelCallback (timerWheel s);
       drop_wrappers env (sorted_list_of_set (dropped (timerWheel s) tw)) (s\<lparr>timerWheel := tw\<rparr>)
     }"

subsection \<open>The rest of the interface\<close>

definition SetBufferMode :: "BufferMode \<Rightarrow> ('u, 'w) Env \<Rightarrow> ('u, 'w) Env" where
  "SetBufferMode mode env = env\<lparr>buffer_mode := mode\<rparr>"

definition srv_setTimeout :: "uint32 \<Rightarrow> ('u, 'w) TcpServer \<Rightarrow> ('u, 'w) TcpServer" where
  "srv_setTimeout seconds s = s\<lparr>timerWheel := setTimeout seconds (timerWheel s)\<rparr>"

definition bindAndListen ::
  "('u, 'w) Env \<Rightarrow> handle \<Rightarrow> SocketAddr \<Rightarrow> ('u, 'w) TcpServer \<Rightarrow> int \<times> ('u, 'w) TcpServer"
where
  "bindAndListen env h addr s =
     (let s = s\<lparr>server_ipv := Ipv addr\<rparr>
      in case TcpAccepter_new (uv env) h (tcpNoDelay s) (world s) of (a, w) \<Rightarrow>
         (case acc_bind (uv env) addr a w of (rst, w) \<Rightarrow>
            let s = s\<lparr>accetper := Some a, world := w\<rparr>
            in if rst \<noteq> 0 then (rst, s)
               else
                 let a = setNewConnectinonCallback True a
                 in (case wheel_start (uv env) (timerWheel s) (world s) of (tw, w) \<Rightarrow>
                       (case acc_listen (uv env) a w of (rst, a, w) \<Rightarrow>
                          (rst, s\<lparr>timerWheel := tw, accetper := Some a, world := w\<rparr>)))))"

text \<open>
  \<open>close\<close> asks the acceptor to close, with a lambda that holds the user's callback. The lambda closes every connection and runs the user's
  callback. The loop goes through the map while it may change: its iterator is the current key,
  and it is invalid when that entry has been erased.
\<close>

definition next_name :: "string option \<Rightarrow> (string \<times> nat) list \<Rightarrow> (string \<times> nat) option" where
  "next_name k m = (case filter (\<lambda>(n, _). case k of None \<Rightarrow> True | Some k' \<Rightarrow> k' < n) m of
     [] \<Rightarrow> None | e # _ \<Rightarrow> Some e)"

definition close_round ::
  "('u, 'w) Env \<Rightarrow> string option \<times> ('u, 'w) TcpServer \<Rightarrow>
    ((string option \<times> ('u, 'w) TcpServer) + ('u, 'w) TcpServer) option"
where
  "close_round env = (\<lambda>(k, s).
     case next_name k (connnections s) of
       None \<Rightarrow> Some (Inr s)
     | Some (nm, i) \<Rightarrow>
         do {
           s \<leftarrow> conn_socketClose env i s;
           if getConnnection nm s = None then None else Some (Inl (Some nm, s))
         })"

definition close_lambda :: "('u, 'w) Env \<Rightarrow> 'u option \<Rightarrow> ('u, 'w) TcpServer \<Rightarrow> ('u, 'w) TcpServer option" where
  "close_lambda env callback s =
     do {
       s \<leftarrow> endless (close_round env) (None, s);
       f \<leftarrow> callback;
       user env f ServerClosed s
     }"

definition server_close ::
  "('u, 'w) Env \<Rightarrow> 'u option \<Rightarrow> ('u, 'w) TcpServer \<Rightarrow> ('u, 'w) TcpServer option"
where
  "server_close env callback s =
     (case accetper s of
        None \<Rightarrow> Some s
      | Some a \<Rightarrow>
          do {
            (a, w, cbs) \<leftarrow> acc_close (uv env) (Some callback) a (world s);
            let s = s\<lparr>accetper := Some a, world := w\<rparr>;
            (case cbs of [] \<Rightarrow> Some s | callback # _ \<Rightarrow> close_lambda env callback s)
          })"

text \<open>libuv reports the acceptor's handle closed.\<close>

definition on_accepter_closed :: "('u, 'w) Env \<Rightarrow> ('u, 'w) TcpServer \<Rightarrow> ('u, 'w) TcpServer option" where
  "on_accepter_closed env s =
     do {
       a \<leftarrow> accetper s;
       (case onCloseComlet a of [] \<Rightarrow> Some s | callback # _ \<Rightarrow> close_lambda env callback s)
     }"

definition srv_setMessageCallback :: "'u option \<Rightarrow> ('u, 'w) TcpServer \<Rightarrow> ('u, 'w) TcpServer" where
  "srv_setMessageCallback cb s = s\<lparr>onMessageCb := cb\<rparr>"

definition setNewConnectCallback :: "'u option \<Rightarrow> ('u, 'w) TcpServer \<Rightarrow> ('u, 'w) TcpServer" where
  "setNewConnectCallback cb s = s\<lparr>onNewConnectCb := cb\<rparr>"

definition srv_setConnectCloseCallback :: "'u option \<Rightarrow> ('u, 'w) TcpServer \<Rightarrow> ('u, 'w) TcpServer" where
  "srv_setConnectCloseCallback cb s = s\<lparr>onConnectCloseCb := cb\<rparr>"

text \<open>\<open>pending\<close> are the write requests that libuv holds, by connection; \<open>on_written\<close> is their end.\<close>

definition write_to ::
  "('u, 'w) Env \<Rightarrow> nat \<Rightarrow> uint8 list \<Rightarrow> 'u option \<Rightarrow> 'u ServerCb TcpConnection \<Rightarrow> ('u, 'w) TcpServer \<Rightarrow>
    ('u, 'w) TcpServer option"
where
  "write_to env i buf callback c s =
     (case conn_write (uv env) buf (map_option UserWrite callback) c (world s) of
        (_, w, acts, req) \<Rightarrow>
          run_acts env i acts (s\<lparr>world := w,
            pending := pending s @ (case req of Some q \<Rightarrow> [(i, q)] | None \<Rightarrow> [])\<rparr>))"

definition srv_write ::
  "('u, 'w) Env \<Rightarrow> nat option \<Rightarrow> uint8 list \<Rightarrow> 'u option \<Rightarrow> ('u, 'w) TcpServer \<Rightarrow>
    ('u, 'w) TcpServer option"
where
  "srv_write env conn buf callback s =
     (case conn of
        Some i \<Rightarrow> do { c \<leftarrow> objects s i; write_to env i buf callback c s }
      | None \<Rightarrow> run_user env callback (Written \<lparr>wi_status = Disconnected, wi_buf = buf\<rparr>) s)"

definition srv_write_name ::
  "('u, 'w) Env \<Rightarrow> string \<Rightarrow> uint8 list \<Rightarrow> 'u option \<Rightarrow> ('u, 'w) TcpServer \<Rightarrow>
    ('u, 'w) TcpServer option"
where
  "srv_write_name env nm buf callback s = srv_write env (getConnnection nm s) buf callback s"

definition on_written ::
  "('u, 'w) Env \<Rightarrow> nat \<Rightarrow> int \<Rightarrow> ('u, 'w) TcpServer \<Rightarrow> ('u, 'w) TcpServer option"
where
  "on_written env k st s =
     do {
       (i, req) \<leftarrow> index_at (pending s) k;
       run_acts env i (write_done req st) (s\<lparr>pending := take k (pending s) @ drop (Suc k) (pending s)\<rparr>)
     }"

text \<open>
  \<open>writeInLoop\<close> hands a function to the loop, which holds the connection weakly; the second
  component is that function's data, and \<open>run_write_task\<close> is the function.
\<close>

definition srv_writeInLoop ::
  "('u, 'w) Env \<Rightarrow> nat option \<Rightarrow> uint8 list \<Rightarrow> 'u option \<Rightarrow> ('u, 'w) TcpServer \<Rightarrow>
    (('u, 'w) TcpServer \<times> (nat \<times> uint8 list \<times> 'u option) option) option"
where
  "srv_writeInLoop env conn buf callback s =
     (case conn of
        Some i \<Rightarrow> Some (s, Some (i, buf, callback))
      | None \<Rightarrow>
          (case callback of
             Some f \<Rightarrow>
               map_option (\<lambda>s. (s, None))
                 (user env f (Written \<lparr>wi_status = Disconnected, wi_buf = buf\<rparr>)
                   (log_srv Warn ''try write a disconnect connection.'' s))
           | None \<Rightarrow> Some (s, None)))"

definition run_write_task ::
  "('u, 'w) Env \<Rightarrow> nat \<times> uint8 list \<times> 'u option \<Rightarrow> ('u, 'w) TcpServer \<Rightarrow> ('u, 'w) TcpServer option"
where
  "run_write_task env task s =
     (case task of (i, buf, callback) \<Rightarrow>
        do {
          (w, acts, req) \<leftarrow>
            writeInLoop_task (uv env) buf (map_option UserWrite callback) (objects s i) (world s);
          run_acts env i acts (s\<lparr>world := w,
            pending := pending s @ (case req of Some q \<Rightarrow> [(i, q)] | None \<Rightarrow> [])\<rparr>)
        })"

text \<open>A successful \<open>bindAndListen\<close> starts the wheel and changes nothing of the connections.\<close>

lemma bindAndListen_ok:
  assumes "bindAndListen env h addr s = (0, s')"
  shows "\<exists>w' w''. wheel_start (uv env) (timerWheel s) w' = (timerWheel s', w'')
    \<and> connnections s' = connnections s \<and> objects s' = objects s \<and> pending s' = pending s
    \<and> onMessageCb s' = onMessageCb s \<and> map_option isListen (accetper s') = Some True"
  using assms
  by (auto simp: bindAndListen_def acc_listen_def isListen_def TcpAccepter_new_def Let_def
      setNewConnectinonCallback_def split: prod.splits if_splits intro!: exI)

end
