(* ===== verification/ServerRuns.thy ===== *)
theory ServerRuns
  imports TcpServer
begin

text \<open>
  Runs of a server: libuv's events and the user's \<open>closeConnection\<close> in any order, as a step
  relation, with the invariant that ties the store of connections, the map and libuv's closing
  handles together. \<open>acc\<close> holds the connections accepted so far, \<open>rep\<close> those that libuv has reported
  closed. An event is enabled when libuv may deliver it: reading ends with closing, a handle is
  reported closed once, after \<open>uv_close\<close>; two connections at the same time have different names, which
  is an assumption on the network, since the map may still hold a connection whose address is used again;
  and the user does not close a connection that is closing already. The user may write to any name,
  and the requests that libuv holds may end in any order. libuv reads no more than its 64 KiB buffer holds.
\<close>

section \<open>Events\<close>

datatype 'u SrvEvent =
  EvAccept nat | EvRead nat int "uint8 list" | EvShutdown nat | EvClosed nat | EvTick | EvClose string
| EvWrite string "uint8 list" "'u option" | EvWritten nat int

fun srv_event :: "('u, 'w) Env \<Rightarrow> 'u SrvEvent \<Rightarrow> ('u, 'w) TcpServer \<Rightarrow> ('u, 'w) TcpServer option" where
  "srv_event env (EvAccept i) s = onAccept env i s"
| "srv_event env (EvRead i n buf) s = on_read env i n buf s"
| "srv_event env (EvShutdown i) s = on_shutdown env i s"
| "srv_event env (EvClosed i) s = on_closed env i s"
| "srv_event env EvTick s = on_tick env s"
| "srv_event env (EvClose nm) s = closeConnection env nm s"
| "srv_event env (EvWrite nm buf cb) s = srv_write_name env nm buf cb s"
| "srv_event env (EvWritten k st) s = on_written env k st s"

abbreviation is_closing :: "('u, 'w) Env \<Rightarrow> ('u, 'w) TcpServer \<Rightarrow> nat \<Rightarrow> bool" where
  "is_closing env s i \<equiv> uv_is_closing (uv env) i (world s)"

fun enabled :: "('u, 'w) Env \<Rightarrow> nat set \<Rightarrow> nat set \<Rightarrow> ('u, 'w) TcpServer \<Rightarrow> 'u SrvEvent \<Rightarrow> bool" where
  "enabled env acc rep s (EvAccept i) \<longleftrightarrow> i \<notin> acc \<and> \<not> is_closing env s i
     \<and> (case AddrToStr (inet env) (uv env) i (server_ipv s) (world s) of
          Some key \<Rightarrow> getConnnection key s = None | None \<Rightarrow> False)"
| "enabled env acc rep s (EvRead i n buf) \<longleftrightarrow> i \<in> acc \<and> i \<notin> rep \<and> \<not> is_closing env s i \<and> n < 2 ^ 31"
| "enabled env acc rep s (EvShutdown i) \<longleftrightarrow> i \<in> acc \<and> i \<notin> rep"
| "enabled env acc rep s (EvClosed i) \<longleftrightarrow> i \<in> acc \<and> i \<notin> rep \<and> is_closing env s i"
| "enabled env acc rep s EvTick \<longleftrightarrow> True"
| "enabled env acc rep s (EvClose nm) \<longleftrightarrow>
     (case getConnnection nm s of Some i \<Rightarrow> \<not> is_closing env s i | None \<Rightarrow> True)"
| "enabled env acc rep s (EvWrite nm buf cb) \<longleftrightarrow> True"
| "enabled env acc rep s (EvWritten k st) \<longleftrightarrow> k < length (pending s)"

fun accepted_by :: "'u SrvEvent \<Rightarrow> nat set" where
  "accepted_by (EvAccept i) = {i}"
| "accepted_by _ = {}"

fun reported_by :: "'u SrvEvent \<Rightarrow> nat set" where
  "reported_by (EvClosed i) = {i}"
| "reported_by _ = {}"

text \<open>A server before its first connection, with a wheel that is off or has been started.\<close>

definition fresh_server :: "('u, 'w) TcpServer \<Rightarrow> bool" where
  "fresh_server s \<longleftrightarrow> connnections s = [] \<and> objects s = (\<lambda>_. None) \<and> pending s = []
     \<and> (timeoutSec (timerWheel s) = 0 \<and> held (timerWheel s) = {} \<or> wheel_agrees [] (timerWheel s))"

inductive srv_run ::
  "('u, 'w) Env \<Rightarrow> ('u, 'w) TcpServer \<Rightarrow> 'u SrvEvent list \<Rightarrow> nat set \<Rightarrow> nat set \<Rightarrow> ('u, 'w) TcpServer \<Rightarrow> bool"
  for env s0
where
  start: "fresh_server s0 \<Longrightarrow> srv_run env s0 [] {} {} s0"
| step: "srv_run env s0 es acc rep s \<Longrightarrow> enabled env acc rep s e \<Longrightarrow> srv_event env e s = Some s' \<Longrightarrow>
    srv_run env s0 (es @ [e]) (acc \<union> accepted_by e) (rep \<union> reported_by e) s'"

text \<open>User code that leaves the server alone: it may use the world, but not close handles.\<close>

definition user_quiet :: "('u, 'w) Env \<Rightarrow> bool" where
  "user_quiet env \<longleftrightarrow> (\<forall>f arg s. \<exists>w. user env f arg s = Some (s\<lparr>world := w\<rparr>)
     \<and> (\<forall>i. uv_is_closing (uv env) i w = is_closing env s i))"

text \<open>The requests that libuv holds have callbacks of the user, if any.\<close>

definition requests_ok :: "(nat \<times> 'u ServerCb option \<times> uint8 list) list \<Rightarrow> bool" where
  "requests_ok reqs \<longleftrightarrow> (\<forall>(j, cb, buf) \<in> set reqs. cb = None \<or> (\<exists>f. cb = Some (UserWrite f)))"

text \<open>With circular buffers of a proper size, every connection has one that is in order.\<close>

definition buf_ok :: "('u, 'w) Env \<Rightarrow> ConnBuffer \<Rightarrow> bool" where
  "buf_ok env pb \<longleftrightarrow> (buffer_mode env = CycleBufferMode \<and> 0 < unat (cycle_size env) \<and> unat (cycle_size env) < 2 ^ 63
     \<longrightarrow> (\<exists>b. pb = CycleBuf b \<and> cb_valid (cycle_size env) b))"

definition bufs_ok :: "('u, 'w) Env \<Rightarrow> (nat \<Rightarrow> 'u ServerCb TcpConnection option) \<Rightarrow> bool" where
  "bufs_ok env objs \<longleftrightarrow> (\<forall>i c. objs i = Some c \<longrightarrow> buf_ok env (conn_buffer c))"

text \<open>
  User code that keeps the server in order: called with a connection that is there and less than 2 GiB,
  it is defined, and it may use the world, write, and fill and empty buffers, but not close connections
  or handles. The callbacks of the echo servers are such code (theory \<open>EchoRuns\<close>).
\<close>

fun arg_alive :: "UserArg \<Rightarrow> ('u, 'w) TcpServer \<Rightarrow> bool" where
  "arg_alive (NewConnect i) s \<longleftrightarrow> objects s i \<noteq> None"
| "arg_alive (ConnectClose i) s \<longleftrightarrow> objects s i \<noteq> None"
| "arg_alive (Message i buf) s \<longleftrightarrow> objects s i \<noteq> None \<and> length buf < 2 ^ 31"
| "arg_alive _ s \<longleftrightarrow> True"

definition conn_core :: "'cb TcpConnection \<Rightarrow> 'cb TcpConnection" where
  "conn_core c = c\<lparr>conn_buffer := NoBuf\<rparr>"

definition user_effect :: "('u, 'w) Env \<Rightarrow> ('u, 'w) TcpServer \<Rightarrow> ('u, 'w) TcpServer \<Rightarrow> bool" where
  "user_effect env s s' \<longleftrightarrow> connnections s' = connnections s \<and> timerWheel s' = timerWheel s
     \<and> (\<forall>i. is_closing env s' i = is_closing env s i)
     \<and> (\<forall>i. map_option conn_core (objects s' i) = map_option conn_core (objects s i))
     \<and> (requests_ok (pending s) \<longrightarrow> requests_ok (pending s'))
     \<and> (bufs_ok env (objects s) \<longrightarrow> bufs_ok env (objects s'))"

definition user_keeps :: "('u, 'w) Env \<Rightarrow> bool" where
  "user_keeps env \<longleftrightarrow> (\<forall>f arg s. arg_alive arg s \<and> bufs_ok env (objects s) \<longrightarrow>
     (\<exists>s'. user env f arg s = Some s' \<and> user_effect env s s'))"

text \<open>What keeps a connection from being idle.\<close>

fun activity :: "'u SrvEvent \<Rightarrow> nat WheelEvent list" where
  "activity (EvAccept i) = [Insert i]"
| "activity (EvRead i n buf) = (if 0 < n then [Insert i] else [])"
| "activity EvTick = [Tick]"
| "activity _ = []"

definition activities :: "'u SrvEvent list \<Rightarrow> nat WheelEvent list" where
  "activities es = concat (map activity es)"

section \<open>The invariant\<close>

text \<open>A connection object, by whether its handle is closing.\<close>

definition conn_ok :: "bool \<Rightarrow> nat \<Rightarrow> 'u ServerCb TcpConnection \<Rightarrow> bool" where
  "conn_ok closing i c \<longleftrightarrow> conn_handle c = i
     \<and> (if closing
        then onMessageCallback c = None \<and> onConnectCloseCallback c = None
          \<and> closeCompleteCallback c = Some CloseLambda
        else onMessageCallback c = Some OnMessageBind
          \<and> onConnectCloseCallback c = Some CloseConnectionBind \<and> closeCompleteCallback c = None)"

definition srv_ok :: "('u, 'w) Env \<Rightarrow> nat set \<Rightarrow> nat set \<Rightarrow> ('u, 'w) TcpServer \<Rightarrow> bool" where
  "srv_ok env acc rep s \<longleftrightarrow>
     std_map (connnections s) \<and> rep \<subseteq> acc
   \<and> (\<forall>i. objects s i \<noteq> None \<longleftrightarrow> i \<in> acc \<and> i \<notin> rep)
   \<and> (\<forall>i c. objects s i = Some c \<longrightarrow> conn_ok (is_closing env s i) i c
        \<and> getConnnection (name c) s = Some i)
   \<and> (\<forall>nm i. getConnnection nm s = Some i \<longrightarrow> (\<exists>c. objects s i = Some c \<and> name c = nm))
   \<and> requests_ok (pending s) \<and> bufs_ok env (objects s)"

text \<open>With a timeout that is on, an open connection has its wrapper in the wheel.\<close>

definition wheel_ok :: "('u, 'w) Env \<Rightarrow> nat WheelEvent list \<Rightarrow> ('u, 'w) TcpServer \<Rightarrow> bool" where
  "wheel_ok env past s \<longleftrightarrow>
     (if timeoutSec (timerWheel s) = 0 then held (timerWheel s) = {}
      else if 0 < getTimeout (timerWheel s)
      then wheel_agrees past (timerWheel s)
        \<and> (\<forall>i c. objects s i = Some c \<and> \<not> is_closing env s i \<longrightarrow>
             wrapper c = Some i \<and> i \<in> held (timerWheel s))
      else held (timerWheel s) = {} \<and> (\<exists>p. wheel_agrees p (timerWheel s)))"

lemma bufs_ok_update: "bufs_ok env objs \<Longrightarrow> buf_ok env (conn_buffer c) \<Longrightarrow> bufs_ok env (objs(i \<mapsto> c))"
  by (simp add: bufs_ok_def)

lemma bufs_ok_delete: "bufs_ok env objs \<Longrightarrow> bufs_ok env (objs(i := None))"
  by (simp add: bufs_ok_def)

lemma srv_ok_bufs: "srv_ok env acc rep s \<Longrightarrow> bufs_ok env (objects s)"
  by (simp add: srv_ok_def)

lemma srv_ok_alive: "srv_ok env acc rep s \<Longrightarrow> objects s i = None \<longleftrightarrow> i \<notin> acc \<or> i \<in> rep"
  unfolding srv_ok_def by blast

lemma srv_ok_conn: "srv_ok env acc rep s \<Longrightarrow> objects s i = Some c \<Longrightarrow> conn_ok (is_closing env s i) i c"
  by (simp add: srv_ok_def)

lemma srv_ok_key: "srv_ok env acc rep s \<Longrightarrow> objects s i = Some c \<Longrightarrow> getConnnection (name c) s = Some i"
  by (simp add: srv_ok_def)

lemma srv_ok_entry:
  "srv_ok env acc rep s \<Longrightarrow> getConnnection nm s = Some i \<Longrightarrow> \<exists>c. objects s i = Some c \<and> name c = nm"
  unfolding srv_ok_def by blast

lemma srv_okD:
  assumes "srv_ok env acc rep s" and "i \<in> acc" and "i \<notin> rep"
  obtains c where "objects s i = Some c" and "conn_ok (is_closing env s i) i c"
    and "getConnnection (name c) s = Some i"
  using assms unfolding srv_ok_def by blast

lemma run_user_quiet:
  assumes "user_quiet env"
  obtains w where "run_user env cb arg s = Some (s\<lparr>world := w\<rparr>)"
    and "\<And>i. uv_is_closing (uv env) i w = is_closing env s i"
proof (cases cb)
  case None
  then show ?thesis using that [of "world s"] by (simp add: run_user_def)
next
  case (Some f)
  then show ?thesis using assms that unfolding user_quiet_def run_user_def by fastforce
qed

text \<open>What user code that keeps the server in order does.\<close>

lemma user_effect_world:
  "(\<And>i. uv_is_closing (uv env) i w = is_closing env s i) \<Longrightarrow> user_effect env s (s\<lparr>world := w\<rparr>)"
  by (simp add: user_effect_def)

lemma quiet_keeps: "user_quiet env \<Longrightarrow> user_keeps env"
  unfolding user_quiet_def user_keeps_def using user_effect_world by metis

lemma run_user_keeps:
  assumes "user_keeps env" and "arg_alive arg s" and "bufs_ok env (objects s)"
  obtains s' where "run_user env cb arg s = Some s'" and "user_effect env s s'"
proof (cases cb)
  case None
  then show ?thesis using that [of s] by (simp add: run_user_def user_effect_def)
next
  case (Some f)
  then show ?thesis using assms that unfolding user_keeps_def run_user_def by fastforce
qed

lemma conn_core_eq:
  "conn_core c = conn_core d \<Longrightarrow> name c = name d \<and> conn_handle c = conn_handle d \<and> wrapper c = wrapper d
    \<and> connected c = connected d \<and> onMessageCallback c = onMessageCallback d
    \<and> onConnectCloseCallback c = onConnectCloseCallback d \<and> closeCompleteCallback c = closeCompleteCallback d"
  by (cases c; cases d) (simp add: conn_core_def)

lemma conn_core_ok: "conn_core c = conn_core d \<Longrightarrow> conn_ok b i c = conn_ok b i d"
  using conn_core_eq [of c d] by (simp add: conn_ok_def)

lemma user_effect_objects:
  assumes "user_effect env s s'"
  shows "objects s' i = None \<longleftrightarrow> objects s i = None"
    and "objects s' i = Some c' \<Longrightarrow> \<exists>c. objects s i = Some c \<and> conn_core c = conn_core c'"
    and "objects s i = Some c \<Longrightarrow> \<exists>c'. objects s' i = Some c' \<and> conn_core c = conn_core c'"
proof -
  have "map_option conn_core (objects s' i) = map_option conn_core (objects s i)"
    using assms by (simp add: user_effect_def)
  then show "objects s' i = None \<longleftrightarrow> objects s i = None"
    and "objects s' i = Some c' \<Longrightarrow> \<exists>c. objects s i = Some c \<and> conn_core c = conn_core c'"
    and "objects s i = Some c \<Longrightarrow> \<exists>c'. objects s' i = Some c' \<and> conn_core c = conn_core c'"
    by (cases "objects s i"; cases "objects s' i"; simp)+
qed

lemma user_effect_simps:
  assumes "user_effect env s s'"
  shows "connnections s' = connnections s" and "timerWheel s' = timerWheel s"
    and "is_closing env s' i = is_closing env s i" and "getConnnection nm s' = getConnnection nm s"
  using assms by (simp_all add: user_effect_def getConnnection_def)

lemma srv_ok_effect:
  assumes "srv_ok env acc rep s" and "user_effect env s s'"
  shows "srv_ok env acc rep s'"
  unfolding srv_ok_def
proof (intro conjI allI impI)
  show "std_map (connnections s')" "rep \<subseteq> acc" "requests_ok (pending s')" "bufs_ok env (objects s')"
    using assms by (simp_all add: srv_ok_def user_effect_def)
next
  fix i
  show "objects s' i \<noteq> None \<longleftrightarrow> i \<in> acc \<and> i \<notin> rep"
    using assms(1) user_effect_objects(1) [OF assms(2)] by (simp add: srv_ok_def)
next
  fix i c assume "objects s' i = Some c"
  then obtain d where d: "objects s i = Some d" "conn_core d = conn_core c"
    using user_effect_objects(2) [OF assms(2)] by blast
  then show "conn_ok (is_closing env s' i) i c" "getConnnection (name c) s' = Some i"
    using conn_core_eq [OF d(2)] conn_core_ok [OF d(2)] srv_ok_conn [OF assms(1) d(1)] srv_ok_key [OF assms(1) d(1)]
      user_effect_simps [OF assms(2)] by simp_all
next
  fix nm i assume "getConnnection nm s' = Some i"
  then obtain d where d: "objects s i = Some d" "name d = nm"
    using srv_ok_entry [OF assms(1), of nm i] user_effect_simps [OF assms(2)] by auto
  then show "\<exists>c. objects s' i = Some c \<and> name c = nm"
    using user_effect_objects(3) [OF assms(2) d(1)] conn_core_eq by metis
qed

lemma wheel_ok_effect:
  assumes "wheel_ok env past s" and "user_effect env s s'"
  shows "wheel_ok env past s'"
proof -
  have same: "\<exists>d. objects s i = Some d \<and> wrapper d = wrapper c" if "objects s' i = Some c" for i c
    using user_effect_objects(2) [OF assms(2) that] conn_core_eq by blast
  have "wrapper c = Some i \<and> i \<in> held (timerWheel s)"
    if all: "\<forall>i c. objects s i = Some c \<and> \<not> is_closing env s i \<longrightarrow> wrapper c = Some i \<and> i \<in> held (timerWheel s)"
      and "objects s' i = Some c" "\<not> is_closing env s i" for i c
    using same [OF that(2)] that by fastforce
  with assms(1) show ?thesis
    unfolding wheel_ok_def user_effect_simps [OF assms(2)] by (auto split: if_splits)
qed

text \<open>Only the world changed, and no handle started closing.\<close>

lemma srv_ok_world:
  assumes "srv_ok env acc rep s" and "\<And>i. uv_is_closing (uv env) i w = is_closing env s i"
  shows "srv_ok env acc rep (s\<lparr>world := w\<rparr>)"
  using assms by (simp add: srv_ok_def getConnnection_def)

lemma wheel_ok_world:
  assumes "wheel_ok env past s" and "\<And>i. uv_is_closing (uv env) i w = is_closing env s i"
  shows "wheel_ok env past (s\<lparr>world := w\<rparr>)"
  using assms by (simp add: wheel_ok_def)

section \<open>Closing a connection\<close>

text \<open>The server after the closing of connection \<open>i\<close> has begun.\<close>

definition begun :: "('u, 'w) Env \<Rightarrow> nat \<Rightarrow> ('u, 'w) TcpServer \<Rightarrow> ('u, 'w) TcpServer" where
  "begun env i s =
     (let w = (if uv_is_active (uv env) i (world s) then uv_read_stop (uv env) i (world s) else world s)
      in s\<lparr>world := uv_close (uv env) i w,
           objects := (objects s)(i := map_option (\<lambda>c. c\<lparr>onMessageCallback := None,
             onConnectCloseCallback := None, closeCompleteCallback := Some CloseLambda\<rparr>) (objects s i))\<rparr>)"

lemma begun_simps [simp]:
  "connnections (begun env i s) = connnections s" "timerWheel (begun env i s) = timerWheel s"
  "accetper (begun env i s) = accetper s" "pending (begun env i s) = pending s"
  "getConnnection nm (begun env i s) = getConnnection nm s"
  "objects (begun env i s) j = None \<longleftrightarrow> objects s j = None"
  "map_option wrapper (objects (begun env i s) j) = map_option wrapper (objects s j)"
  "map_option name (objects (begun env i s) j) = map_option name (objects s j)"
  by (simp_all add: begun_def Let_def getConnnection_def option.map_comp comp_def option.case_eq_if
      split: option.split)

lemma begun_closing:
  assumes "libuv (uv env)"
  shows "is_closing env (begun env i s) j \<longleftrightarrow> j = i \<or> is_closing env s j"
  using libuv.closing [OF assms] by (simp add: begun_def Let_def)

lemma begun_ok:
  assumes "libuv (uv env)" and "srv_ok env acc rep s"
  shows "srv_ok env acc rep (begun env i s)"
  unfolding srv_ok_def
proof (intro conjI allI impI)
  show "requests_ok (pending (begun env i s))" "bufs_ok env (objects (begun env i s))"
    using assms(2) by (auto simp: srv_ok_def begun_def bufs_ok_def Let_def)
next
  show "std_map (connnections (begun env i s))" "rep \<subseteq> acc"
    using assms(2) by (simp_all add: srv_ok_def)
next
  fix j
  show "objects (begun env i s) j \<noteq> None \<longleftrightarrow> j \<in> acc \<and> j \<notin> rep"
    using assms(2) by (simp add: srv_ok_def)
next
  fix j c assume c: "objects (begun env i s) j = Some c"
  then obtain c0 where c0: "objects s j = Some c0"
    by (cases "objects s j") (auto simp: begun_def Let_def split: if_splits)
  then have ok: "conn_ok (is_closing env s j) j c0" "getConnnection (name c0) s = Some j"
    using srv_ok_conn [OF assms(2)] srv_ok_key [OF assms(2)] by blast+
  show "conn_ok (is_closing env (begun env i s) j) j c"
    unfolding begun_closing [OF assms(1)] using c c0 ok(1)
    by (cases "j = i") (auto simp: conn_ok_def begun_def Let_def)
  show "getConnnection (name c) (begun env i s) = Some j"
    using c c0 ok(2) by (cases "j = i") (auto simp: begun_def Let_def getConnnection_def)
next
  fix nm j assume "getConnnection nm (begun env i s) = Some j"
  then obtain c where "objects s j = Some c" "name c = nm"
    using srv_ok_entry [OF assms(2), of nm j] by auto
  then show "\<exists>c. objects (begun env i s) j = Some c \<and> name c = nm"
    by (cases "j = i") (auto simp: begun_def Let_def)
qed

lemma begun_wheel_ok:
  assumes "libuv (uv env)" and "wheel_ok env past s"
  shows "wheel_ok env past (begun env i s)"
proof -
  have "\<exists>c0. objects s j = Some c0 \<and> wrapper c = wrapper c0 \<and> \<not> is_closing env s j"
    if "objects (begun env i s) j = Some c" and "\<not> is_closing env (begun env i s) j" for j c
    using that unfolding begun_closing [OF assms(1)]
    by (auto simp: begun_def Let_def split: if_splits)
  with assms(2) show ?thesis unfolding wheel_ok_def begun_simps by (fastforce split: if_splits)
qed

lemma closeConnection_open:
  assumes "libuv (uv env)" and "srv_ok env acc rep s" and "getConnnection nm s = Some i"
    and "\<not> is_closing env s i"
  shows "closeConnection env nm s = Some (begun env i s)"
proof -
  obtain c where c: "objects s i = Some c" "name c = nm"
    using srv_ok_entry [OF assms(2,3)] by blast
  moreover have "conn_handle c = i" using srv_ok_conn [OF assms(2) c(1)] by (simp add: conn_ok_def)
  ultimately show ?thesis
    using assms(3,4) libuv.closing [OF assms(1)]
    by (simp add: closeConnection_def conn_close_def begun_def Let_def)
qed

text \<open>\<open>onSocketClose\<close> begins to close an open connection and leaves a closing one alone.\<close>

lemma conn_socketClose_ok:
  assumes "libuv (uv env)" and "srv_ok env acc rep s" and "i \<in> acc" and "i \<notin> rep"
  shows "conn_socketClose env i s = Some (if is_closing env s i then s else begun env i s)"
proof -
  obtain c where c: "objects s i = Some c" "conn_ok (is_closing env s i) i c"
    "getConnnection (name c) s = Some i"
    using assms(2-4) by (rule srv_okD)
  then show ?thesis
    using closeConnection_open [OF assms(1,2) c(3)]
    by (simp add: conn_socketClose_def onSocketClose_def conn_ok_def)
qed

lemma drop_wrappers_ok:
  assumes "libuv (uv env)" and "srv_ok env acc rep s"
  shows "\<exists>s'. drop_wrappers env is s = Some s' \<and> srv_ok env acc rep s'
    \<and> (\<forall>j. is_closing env s' j \<longleftrightarrow> is_closing env s j \<or> j \<in> set is \<and> objects s j \<noteq> None)
    \<and> timerWheel s' = timerWheel s \<and> connnections s' = connnections s
    \<and> (\<forall>j. map_option wrapper (objects s' j) = map_option wrapper (objects s j))"
  using assms(2)
proof (induction "is" arbitrary: s)
  case (Cons i "is")
  obtain s1 where s1: "drop_wrapper env i s = Some s1" "srv_ok env acc rep s1"
    "\<forall>j. is_closing env s1 j \<longleftrightarrow> is_closing env s j \<or> j = i \<and> objects s j \<noteq> None"
    "timerWheel s1 = timerWheel s" "connnections s1 = connnections s"
    "\<forall>j. map_option wrapper (objects s1 j) = map_option wrapper (objects s j)"
  proof (cases "objects s i")
    case None
    then have "drop_wrapper env i s = Some s" by (simp add: drop_wrapper_def)
    then show ?thesis using Cons.prems None by (intro that [of s]) auto
  next
    case (Some c)
    then have "i \<in> acc" "i \<notin> rep" using srv_ok_alive [OF Cons.prems, of i] by auto
    then have "drop_wrapper env i s = Some (if is_closing env s i then s else begun env i s)"
      using conn_socketClose_ok [OF assms(1) Cons.prems] Some by (simp add: drop_wrapper_def)
    then show ?thesis
      using that [of "if is_closing env s i then s else begun env i s"] Cons.prems Some
        begun_ok [OF assms(1) Cons.prems] begun_closing [OF assms(1)]
      by (auto split: if_splits)
  qed
  have none: "objects s1 j = None \<longleftrightarrow> objects s j = None" for j
    using s1(6) [rule_format, of j] by (cases "objects s1 j"; cases "objects s j") auto
  from Cons.IH [OF s1(2)] obtain s2 where s2: "drop_wrappers env is s1 = Some s2" "srv_ok env acc rep s2"
    "\<forall>j. is_closing env s2 j \<longleftrightarrow> is_closing env s1 j \<or> j \<in> set is \<and> objects s1 j \<noteq> None"
    "timerWheel s2 = timerWheel s1" "connnections s2 = connnections s1"
    "\<forall>j. map_option wrapper (objects s2 j) = map_option wrapper (objects s1 j)" by blast
  have "drop_wrappers env (i # is) s = Some s2" using s1(1) s2(1) by simp
  moreover have "\<forall>j. is_closing env s2 j \<longleftrightarrow> is_closing env s j \<or> j \<in> set (i # is) \<and> objects s j \<noteq> None"
    using s1(3) s2(3) none by auto
  ultimately show ?case using s1 s2 by auto
qed simp

section \<open>Every event keeps the invariant\<close>

lemma finite_recent: "finite (recent n es)"
  by (induction n es rule: recent.induct) auto

lemma recent_mono: "m \<le> n \<Longrightarrow> recent m es \<subseteq> recent n es"
  unfolding recent_split by (rule UN_mono) auto

lemma tick_ok:
  assumes "libuv (uv env)" and "srv_ok env acc rep s" and "wheel_ok env past s"
  shows "\<exists>s'. on_tick env s = Some s' \<and> srv_ok env acc rep s' \<and> wheel_ok env (Tick # past) s'
    \<and> timeoutSec (timerWheel s') = timeoutSec (timerWheel s)
    \<and> (\<forall>j. is_closing env s' j \<longleftrightarrow> is_closing env s j
        \<or> j \<in> dropped (timerWheel s) (timerWheel s') \<and> j \<in> acc \<and> j \<notin> rep)"
proof -
  let ?tw = "timerWheel s"
  obtain tw where tw: "wheelCallback ?tw = Some tw" "timeoutSec tw = timeoutSec ?tw"
    "timeoutSec ?tw \<noteq> 0 \<Longrightarrow> 0 < getTimeout ?tw \<Longrightarrow> wheel_agrees (Tick # past) tw"
    "timeoutSec ?tw = 0 \<Longrightarrow> tw = ?tw"
    "timeoutSec ?tw \<noteq> 0 \<Longrightarrow> \<not> 0 < getTimeout ?tw \<Longrightarrow> held tw = {} \<and> (\<exists>p. wheel_agrees p tw)"
    "finite (held ?tw)"
  proof (cases "timeoutSec ?tw = 0")
    case True
    then show ?thesis using that [of ?tw] assms(3) by (simp add: wheelCallback_def wheel_ok_def)
  next
    case False
    obtain p where p: "wheel_agrees p ?tw" "0 < getTimeout ?tw \<Longrightarrow> p = past"
      "\<not> 0 < getTimeout ?tw \<Longrightarrow> held ?tw = {}"
      using assms(3) False by (auto simp: wheel_ok_def split: if_splits)
    from tick_agrees [OF p(1)] obtain tw
      where t: "wheelCallback ?tw = Some tw" "wheel_agrees (Tick # p) tw" "timeoutSec tw = timeoutSec ?tw"
      by blast
    have "held tw \<subseteq> held ?tw"
      using held_agrees [OF t(2)] held_agrees [OF p(1)] t(3)
        recent_mono [of "unat (timeoutSec ?tw) - 1" "unat (timeoutSec ?tw)" p] by simp
    moreover have "finite (held ?tw)" using held_agrees [OF p(1)] finite_recent by simp
    ultimately show ?thesis using that [of tw] t p False by auto
  qed
  let ?s = "s\<lparr>timerWheel := tw\<rparr>"
  have "srv_ok env acc rep ?s" using assms(2) by (simp add: srv_ok_def getConnnection_def)
  from drop_wrappers_ok [OF assms(1) this, of "sorted_list_of_set (dropped ?tw tw)"] obtain s'
    where s': "drop_wrappers env (sorted_list_of_set (dropped ?tw tw)) ?s = Some s'" "srv_ok env acc rep s'"
      "\<forall>j. is_closing env s' j \<longleftrightarrow> is_closing env ?s j
        \<or> j \<in> set (sorted_list_of_set (dropped ?tw tw)) \<and> objects ?s j \<noteq> None"
      "timerWheel s' = tw" "\<forall>j. map_option wrapper (objects s' j) = map_option wrapper (objects s j)"
    by auto
  have "finite (dropped ?tw tw)" using tw(6) by (simp add: dropped_def)
  then have cl: "is_closing env s' j \<longleftrightarrow> is_closing env s j \<or> j \<in> dropped ?tw tw \<and> objects s j \<noteq> None" for j
    using s'(3) by simp
  have "wheel_ok env (Tick # past) s'"
  proof (cases "timeoutSec ?tw \<noteq> 0 \<and> 0 < getTimeout ?tw")
    case True
    have "wrapper c = Some i \<and> i \<in> held tw" if c: "objects s' i = Some c" and op: "\<not> is_closing env s' i" for i c
    proof -
      obtain c0 where "objects s i = Some c0" "wrapper c = wrapper c0"
        using s'(5) [rule_format, of i] c by (cases "objects s i") auto
      then have "wrapper c = Some i" "i \<in> held ?tw"
        using assms(3) True op cl [of i] by (auto simp: wheel_ok_def)
      then show ?thesis using op cl [of i] \<open>objects s i = Some c0\<close> by (auto simp: dropped_def)
    qed
    then show ?thesis using True tw(2,3) s'(4) by (auto simp: wheel_ok_def getTimeout_def)
  next
    case False
    then show ?thesis using tw s'(4) assms(3) by (auto simp: wheel_ok_def getTimeout_def)
  qed
  moreover have "on_tick env s = Some s'" using tw(1) s'(1) by (simp add: on_tick_def)
  moreover have "objects s j \<noteq> None \<longleftrightarrow> j \<in> acc \<and> j \<notin> rep" for j
    using assms(2) by (simp add: srv_ok_def)
  ultimately show ?thesis using s'(2,4) tw(2) cl by auto
qed

text \<open>The log and the fields of a connection that the invariant does not read.\<close>

lemma srv_ok_log [simp]: "srv_ok env acc rep (log_srv l m s) = srv_ok env acc rep s"
  by (simp add: srv_ok_def log_srv_def getConnnection_def)

lemma wheel_ok_log [simp]: "wheel_ok env past (log_srv l m s) = wheel_ok env past s"
  by (simp add: wheel_ok_def log_srv_def)

lemma log_srv_simps [simp]:
  "objects (log_srv l m s) = objects s" "connnections (log_srv l m s) = connnections s"
  "timerWheel (log_srv l m s) = timerWheel s" "pending (log_srv l m s) = pending s" "world (log_srv l m s) = world s"
  "getConnnection nm (log_srv l m s) = getConnnection nm s"
  by (simp_all add: log_srv_def getConnnection_def)

lemma srv_ok_status:
  assumes "srv_ok env acc rep s" and "objects s i = Some c"
  shows "srv_ok env acc rep (s\<lparr>objects := (objects s)(i \<mapsto> setConnectStatus b c)\<rparr>)"
proof -
  have "name c = nm" if "getConnnection nm s = Some i" for nm
    using srv_ok_entry [OF assms(1) that] assms(2) by auto
  with assms show ?thesis
    by (auto simp: srv_ok_def setConnectStatus_def conn_ok_def getConnnection_def bufs_ok_def)
qed

lemma wheel_ok_status:
  assumes "wheel_ok env past s" and "objects s i = Some c"
  shows "wheel_ok env past (s\<lparr>objects := (objects s)(i \<mapsto> setConnectStatus b c)\<rparr>)"
  using assms by (auto simp: wheel_ok_def setConnectStatus_def split: if_splits)

text \<open>An insertion for a connection that is open and that the wheel still holds.\<close>

lemma wheel_ok_insert:
  assumes "wheel_ok env past s" and "0 < getTimeout (timerWheel s)"
  shows "\<exists>tw. wheel_insert (Some i) (timerWheel s) = Some tw \<and> timeoutSec tw = timeoutSec (timerWheel s)
    \<and> wheel_ok env (Insert i # past) (s\<lparr>timerWheel := tw\<rparr>)
    \<and> held tw = insert i (held (timerWheel s))"
proof -
  let ?tw = "timerWheel s"
  have on: "timeoutSec ?tw \<noteq> 0" using assms(2) by (auto simp: getTimeout_def)
  then have a: "wheel_agrees past ?tw" using assms by (simp add: wheel_ok_def)
  from insert_agrees [OF a, of i] obtain tw where tw: "wheel_insert (Some i) ?tw = Some tw"
    "wheel_agrees (Insert i # past) tw" "timeoutSec tw = timeoutSec ?tw" by blast
  have "held tw = insert i (held ?tw)"
    using held_agrees [OF a] held_agrees [OF tw(2)] tw(3) on by (simp add: unat_eq_0)
  with tw assms on show ?thesis by (auto simp: wheel_ok_def getTimeout_def)
qed

lemma on_read_data:
  assumes "objects s i = Some c" and "conn_ok False i c" and "0 < n"
  shows "on_read env i n buf s = srv_onMessage env i (take (nat n) buf) s"
  using assms by (simp add: on_read_def onMesageReceive_def conn_onMessage_def conn_ok_def
      run_act_def fun_upd_idem split: option.split)

lemma read_data_ok:
  assumes "user_keeps env" and "srv_ok env acc rep s" and "wheel_ok env past s"
    and "i \<in> acc" and "i \<notin> rep" and "\<not> is_closing env s i" and "0 < n" and "n < 2 ^ 31"
  shows "\<exists>s'. on_read env i n buf s = Some s' \<and> srv_ok env acc rep s'
    \<and> wheel_ok env (Insert i # past) s' \<and> timeoutSec (timerWheel s') = timeoutSec (timerWheel s)
    \<and> (\<forall>j. is_closing env s' j = is_closing env s j)"
proof -
  obtain c where c: "objects s i = Some c" "conn_ok False i c"
    using srv_okD [OF assms(2,4,5)] assms(6) by metis
  let ?arg = "Message i (take (nat n) buf)"
  have "nat n < 2 ^ 31" using assms(7,8) by simp
  then have "length (take (nat n) buf) < 2 ^ 31" by (simp add: min_less_iff_disj)
  then have "arg_alive ?arg s" using c by simp
  then obtain s1 where r: "run_user env (onMessageCb s) ?arg s = Some s1" and eff: "user_effect env s s1"
    using run_user_keeps [OF assms(1) _ srv_ok_bufs [OF assms(2)], of ?arg "onMessageCb s"] by auto
  have ok: "srv_ok env acc rep s1" "wheel_ok env past s1"
    using srv_ok_effect [OF assms(2) eff] wheel_ok_effect [OF assms(3) eff] by auto
  note same = user_effect_simps [OF eff]
  have "on_read env i n buf s = srv_onMessage env i (take (nat n) buf) s"
    using on_read_data [OF c assms(7)] .
  also have "\<dots> = (if 0 < getTimeout (timerWheel s)
      then map_option (\<lambda>tw. s1\<lparr>timerWheel := tw\<rparr>)
        (wheel_insert (getWrapper (held (timerWheel s)) c) (timerWheel s)) else Some s1)"
    using c r same(2) by (simp add: srv_onMessage_def)
  finally have run: "on_read env i n buf s = \<dots>" .
  show ?thesis
  proof (cases "0 < getTimeout (timerWheel s)")
    case True
    then have "timeoutSec (timerWheel s) \<noteq> 0" by (auto simp: getTimeout_def)
    with True assms(3,6) c(1) have "getWrapper (held (timerWheel s)) c = Some i"
      by (auto simp: wheel_ok_def getWrapper_def)
    moreover obtain tw where "wheel_insert (Some i) (timerWheel s) = Some tw"
      "timeoutSec tw = timeoutSec (timerWheel s)" "wheel_ok env (Insert i # past) (s1\<lparr>timerWheel := tw\<rparr>)"
      using wheel_ok_insert [OF ok(2), of i] True same(2) by auto
    moreover have "srv_ok env acc rep (s1\<lparr>timerWheel := tw\<rparr>)" for tw
      using ok(1) by (simp add: srv_ok_def getConnnection_def)
    ultimately show ?thesis using run True same(3) by auto
  next
    case False
    with ok(2) same(2) have "wheel_ok env (Insert i # past) s1" by (auto simp: wheel_ok_def)
    with run False ok(1) same show ?thesis by auto
  qed
qed

lemma read_end_ok:
  assumes "libuv (uv env)" and "srv_ok env acc rep s" and "wheel_ok env past s"
    and "i \<in> acc" and "i \<notin> rep" and "\<not> is_closing env s i" and "n \<le> 0"
  shows "\<exists>s'. on_read env i n buf s = Some s' \<and> srv_ok env acc rep s' \<and> wheel_ok env past s'
    \<and> timeoutSec (timerWheel s') = timeoutSec (timerWheel s)
    \<and> (\<forall>j. is_closing env s' j \<longleftrightarrow> is_closing env s j \<or> j = i \<and> n < 0 \<and> n \<noteq> UV_EOF)"
proof -
  obtain c where c: "objects s i = Some c" "conn_ok False i c" "getConnnection (name c) s = Some i"
    using srv_okD [OF assms(2,4,5)] assms(6) by metis
  consider (none) "n = 0" | (eof) "n = UV_EOF" | (err) "n < 0" "n \<noteq> UV_EOF" using assms(7) by linarith
  then show ?thesis
  proof cases
    case none
    then have "on_read env i n buf s = Some s"
      using c by (simp add: on_read_def onMesageReceive_def fun_upd_idem)
    with none assms(2,3) show ?thesis by auto
  next
    case eof
    let ?s = "s\<lparr>objects := (objects s)(i \<mapsto> setConnectStatus False c)\<rparr>"
    let ?w = "uv_shutdown (uv env) i (world s)"
    have w: "uv_is_closing (uv env) j ?w = is_closing env ?s j" for j
      using libuv.closing [OF assms(1)] by simp
    have "on_read env i n buf s = Some (log_srv Error (uv_err_name (uv env) n) (?s\<lparr>world := ?w\<rparr>))"
      using c eof by (simp add: on_read_def onMesageReceive_def conn_ok_def setConnectStatus_def
          run_act_def UV_EOF_def Let_def log_srv_def)
    moreover have "srv_ok env acc rep (?s\<lparr>world := ?w\<rparr>)" "wheel_ok env past (?s\<lparr>world := ?w\<rparr>)"
      using srv_ok_world [OF srv_ok_status [OF assms(2) c(1)] w]
        wheel_ok_world [OF wheel_ok_status [OF assms(3) c(1)] w] by auto
    ultimately show ?thesis using eof libuv.closing [OF assms(1)] by auto
  next
    case err
    let ?s = "log_srv Error (uv_err_name (uv env) n)
      (s\<lparr>objects := (objects s)(i \<mapsto> setConnectStatus False c)\<rparr>)"
    have ok: "srv_ok env acc rep ?s" "wheel_ok env past ?s"
      using srv_ok_status [OF assms(2) c(1)] wheel_ok_status [OF assms(3) c(1)] by auto
    have "on_read env i n buf s = closeConnection env (name c) ?s"
      using c err by (auto simp: on_read_def onMesageReceive_def onSocketClose_def conn_ok_def
          setConnectStatus_def run_act_def Let_def log_srv_def split: option.split)
    moreover have "closeConnection env (name c) ?s = Some (begun env i ?s)"
      using closeConnection_open [OF assms(1) ok(1), of "name c" i] c(3) assms(6)
      by (simp add: getConnnection_def)
    ultimately show ?thesis
      using begun_ok [OF assms(1) ok(1)] begun_wheel_ok [OF assms(1) ok(2)] err
        begun_closing [OF assms(1), where i = i and s = ?s] by auto
  qed
qed

lemma accept_ok:
  fixes s :: "('u, 'w) TcpServer"
  assumes "libuv (uv env)" and "user_keeps env" and "srv_ok env acc rep s" and "wheel_ok env past s"
    and "enabled env acc rep s (EvAccept i)"
  shows "\<exists>s'. onAccept env i s = Some s' \<and> srv_ok env (insert i acc) rep s'
    \<and> wheel_ok env (Insert i # past) s' \<and> timeoutSec (timerWheel s') = timeoutSec (timerWheel s)
    \<and> (\<forall>j. is_closing env s' j = is_closing env s j)"
proof -
  obtain key where new: "AddrToStr (inet env) (uv env) i (server_ipv s) (world s) = Some key"
    "getConnnection key s = None" "i \<notin> acc" "\<not> is_closing env s i"
    using assms(5) by (auto split: option.splits)
  have none: "objects s i = None" and "i \<notin> rep"
    using srv_ok_alive [OF assms(3), of i] assms(3) new(3) by (auto simp: srv_ok_def)
  obtain c0 :: "'u ServerCb TcpConnection" where c0: "TcpConnection_new (uv env) (buffer_mode env)
      (cycle_size env) key i True (world s) = (c0, uv_read_start (uv env) i (world s))"
    "conn_handle c0 = i" "name c0 = key" "closeCompleteCallback c0 = None" "buf_ok env (conn_buffer c0)"
    using CycleBuffer_init_valid [of "cycle_size env"] by (simp add: TcpConnection_new_def buf_ok_def)
  define c where "c = conn_setConnectCloseCallback (Some CloseConnectionBind)
    (conn_setMessageCallback (Some OnMessageBind) c0)"
  have c: "conn_ok False i c" "name c = key" "buf_ok env (conn_buffer c)"
    using c0 by (auto simp: c_def conn_setConnectCloseCallback_def
        conn_setMessageCallback_def conn_ok_def)
  define s1 where "s1 c = addConnnection key i ((log_srv Debug (''new connect  '' @ key) s)\<lparr>
    world := uv_read_start (uv env) i (world s), objects := (objects s)(i \<mapsto> c)\<rparr>)" for c
  have cl: "is_closing env (s1 c) j = is_closing env s j" for j c
    using libuv.closing [OF assms(1)] by (simp add: s1_def addConnnection_def)
  have get: "getConnnection nm (s1 c) = (if nm = key then Some i else getConnnection nm s)" for nm c
    using new(2) by (auto simp: s1_def addConnnection_def getConnnection_def map_get_insert)
  have ob: "objects (s1 c) = (objects s)(i \<mapsto> c)" "timerWheel (s1 c) = timerWheel s" for c
    by (simp_all add: s1_def addConnnection_def)
  have pend: "pending (s1 c) = pending s" for c by (simp add: s1_def addConnnection_def)
  have ok: "srv_ok env (insert i acc) rep (s1 c)"
    if "conn_ok False i c" "name c = key" "buf_ok env (conn_buffer c)" for c
  proof -
    have "std_map (connnections (s1 c))"
      using assms(3) by (simp add: s1_def addConnnection_def srv_ok_def)
    moreover have "name c0 \<noteq> key" if "objects s j = Some c0" for j c0
      using srv_ok_key [OF assms(3) that] new(2) by auto
    moreover have "\<exists>c0. objects s j = Some c0 \<and> name c0 = nm \<and> j \<noteq> i" if "getConnnection nm s = Some j" for nm j
      using srv_ok_entry [OF assms(3) that] none by auto
    ultimately show ?thesis
      using that new(3,4) \<open>i \<notin> rep\<close> assms(3) bufs_ok_update [OF srv_ok_bufs [OF assms(3)] that(3), of i]
      unfolding srv_ok_def cl get ob pend by (auto simp: srv_ok_def)
  qed
  let ?tw = "timerWheel s"
  obtain tw d where tw: "(if 0 < getTimeout ?tw
      then map_option (\<lambda>tw. (s1 c)\<lparr>objects := (objects (s1 c))(i \<mapsto> setWrapper (Some i) c),
              timerWheel := tw\<rparr>) (wheel_insert (Some i) (timerWheel (s1 c)))
      else Some (s1 c)) = Some ((s1 d)\<lparr>timerWheel := tw\<rparr>)"
    "conn_ok False i d" "name d = key" "buf_ok env (conn_buffer d)" "timeoutSec tw = timeoutSec ?tw"
    "wheel_ok env (Insert i # past) ((s1 d)\<lparr>timerWheel := tw\<rparr>)"
  proof (cases "0 < getTimeout ?tw")
    case True
    then have on: "timeoutSec ?tw \<noteq> 0" by (auto simp: getTimeout_def)
    from wheel_ok_insert [OF assms(4) True, of i] obtain tw where tw:
      "wheel_insert (Some i) ?tw = Some tw" "timeoutSec tw = timeoutSec ?tw"
      "wheel_ok env (Insert i # past) (s\<lparr>timerWheel := tw\<rparr>)" "held tw = insert i (held ?tw)" by blast
    let ?d = "setWrapper (Some i) c"
    have d: "(s1 c)\<lparr>objects := (objects (s1 c))(i \<mapsto> ?d), timerWheel := tw\<rparr> = (s1 ?d)\<lparr>timerWheel := tw\<rparr>"
      by (simp add: s1_def addConnnection_def)
    have "wheel_ok env (Insert i # past) ((s1 ?d)\<lparr>timerWheel := tw\<rparr>)"
      using tw on True by (auto simp: wheel_ok_def cl ob getTimeout_def setWrapper_def)
    then show ?thesis
      using that [of tw ?d] tw c True d by (simp add: ob setWrapper_def conn_ok_def)
  next
    case False
    with assms(4) have "wheel_ok env (Insert i # past) ((s1 c)\<lparr>timerWheel := ?tw\<rparr>)"
      by (auto simp: wheel_ok_def ob)
    moreover have "(s1 c)\<lparr>timerWheel := ?tw\<rparr> = s1 c" by (simp add: s1_def addConnnection_def)
    ultimately show ?thesis using that [of ?tw c] False c by simp
  qed
  let ?s = "(s1 d)\<lparr>timerWheel := tw\<rparr>"
  have ok2: "srv_ok env (insert i acc) rep ?s"
    using ok [OF tw(2-4)] by (simp add: srv_ok_def getConnnection_def)
  have "objects ?s i = Some d" by (simp add: ob)
  then obtain s2 where run: "run_user env (onNewConnectCb ?s) (NewConnect i) ?s = Some s2" and eff: "user_effect env ?s s2"
    using run_user_keeps [OF assms(2) _ srv_ok_bufs [OF ok2], of "NewConnect i" "onNewConnectCb ?s"] by auto
  note same = user_effect_simps [OF eff]
  have "srv_ok env (insert i acc) rep s2" "wheel_ok env (Insert i # past) s2"
    using srv_ok_effect [OF ok2 eff] wheel_ok_effect [OF tw(6) eff] by auto
  moreover have "onAccept env i s = Some s2"
  proof -
    have "getConnnection key s2 = Some i" using get [of key d] same(4) by (simp add: getConnnection_def)
    moreover have "onAccept env i s = do {
        s2 \<leftarrow> (if 0 < getTimeout ?tw
          then map_option (\<lambda>tw. (s1 c)\<lparr>objects := (objects (s1 c))(i \<mapsto> setWrapper (Some i) c),
                timerWheel := tw\<rparr>) (wheel_insert (Some i) (timerWheel (s1 c)))
          else Some (s1 c));
        s3 \<leftarrow> run_user env (onNewConnectCb s2) (NewConnect i) s2;
        Some (if getConnnection key s3 = Some i then s3 else s3\<lparr>objects := (objects s3)(i := None)\<rparr>)}"
      by (simp add: onAccept_def new(1) c0(1) Let_def addConnnection_def s1_def c_def
          cong: if_cong)
    ultimately show ?thesis using run unfolding tw(1) by simp
  qed
  ultimately show ?thesis using same cl tw(5) by auto
qed

text \<open>A write that ends at once, or a request that ends, runs a callback of the user.\<close>

lemma written_act_ok:
  assumes "user_keeps env" and "srv_ok env acc rep s" and "wheel_ok env past s"
    and "\<forall>a \<in> set acts. (\<exists>l m. a = LogAct l m) \<or> (\<exists>f info. a = RunWritten (UserWrite f) info)"
  shows "\<exists>s'. run_acts env i acts s = Some s' \<and> srv_ok env acc rep s' \<and> wheel_ok env past s'
    \<and> timeoutSec (timerWheel s') = timeoutSec (timerWheel s)"
  using assms(2-4)
proof (induction acts arbitrary: s)
  case (Cons a acts)
  obtain s1 where s1: "run_act env i a s = Some s1" "srv_ok env acc rep s1" "wheel_ok env past s1"
    "timeoutSec (timerWheel s1) = timeoutSec (timerWheel s)"
  proof (cases a)
    case (LogAct l m)
    then show ?thesis using that [of "log_srv l m s"] Cons.prems by (simp add: run_act_def)
  next
    case (RunWritten cb info)
    with Cons.prems(3) obtain f where f: "cb = UserWrite f" by auto
    obtain s1 where "run_user env (Some f) (Written info) s = Some s1" and eff: "user_effect env s s1"
      using run_user_keeps [OF assms(1) _ srv_ok_bufs [OF Cons.prems(1)], of "Written info" "Some f"] by auto
    then show ?thesis
      using that [of s1] srv_ok_effect [OF Cons.prems(1) eff] wheel_ok_effect [OF Cons.prems(2) eff]
        user_effect_simps [OF eff] RunWritten f by (simp add: run_act_def run_user_def)
  qed (use Cons.prems(3) in auto)
  then show ?case using Cons.IH [OF s1(2,3)] Cons.prems(3) by auto
qed simp

lemma pending_ok:
  assumes "srv_ok env acc rep s" and "requests_ok reqs"
  shows "srv_ok env acc rep (s\<lparr>pending := reqs\<rparr>)"
  using assms by (simp add: srv_ok_def getConnnection_def)

lemma wheel_ok_pending [simp]: "wheel_ok env past (s\<lparr>pending := reqs\<rparr>) = wheel_ok env past s"
  by (simp add: wheel_ok_def)

lemma write_ok:
  assumes "libuv (uv env)" and "user_keeps env" and "srv_ok env acc rep s" and "wheel_ok env past s"
  shows "\<exists>s'. srv_write_name env nm buf cb s = Some s' \<and> srv_ok env acc rep s' \<and> wheel_ok env past s'
    \<and> timeoutSec (timerWheel s') = timeoutSec (timerWheel s)"
proof (cases "getConnnection nm s")
  case None
  let ?arg = "Written \<lparr>wi_status = Disconnected, wi_buf = buf\<rparr>"
  obtain s1 where "run_user env cb ?arg s = Some s1" and eff: "user_effect env s s1"
    using run_user_keeps [OF assms(2) _ srv_ok_bufs [OF assms(3)], of ?arg cb] by auto
  then show ?thesis
    using srv_ok_effect [OF assms(3) eff] wheel_ok_effect [OF assms(4) eff] user_effect_simps [OF eff] None
    by (simp add: srv_write_name_def srv_write_def)
next
  case (Some i)
  then obtain c where c: "objects s i = Some c" using srv_ok_entry [OF assms(3)] by blast
  obtain r w acts req where wr:
    "conn_write (uv env) buf (map_option UserWrite cb) c (world s) = (r, w, acts, req)"
    by (metis prod_cases4)
  let ?reqs = "pending s @ (case req of Some q \<Rightarrow> [(i, q)] | None \<Rightarrow> [])"
  have "w = world s \<or> w = snd (uv_write (uv env) (conn_handle c) buf (world s))"
    "req = None \<or> req = Some (map_option UserWrite cb, buf)"
    "\<forall>a \<in> set acts. (\<exists>l m. a = LogAct l m) \<or> (\<exists>f info. a = RunWritten (UserWrite f) info)"
    using wr by (auto simp: conn_write_def split: if_splits prod.splits option.splits)
  moreover from this have cl: "uv_is_closing (uv env) j w = is_closing env s j" for j
    using libuv.closing [OF assms(1)] by auto
  moreover from calculation(2) have "requests_ok ?reqs"
    using assms(3) by (cases cb) (auto simp: srv_ok_def requests_ok_def split: option.split)
  ultimately show ?thesis
    using written_act_ok [OF assms(2) pending_ok [OF srv_ok_world [OF assms(3) cl]], of ?reqs past acts i]
      wheel_ok_world [OF assms(4) cl] Some c wr
    by (simp add: srv_write_name_def srv_write_def write_to_def)
qed

lemma written_ok:
  assumes "user_keeps env" and "srv_ok env acc rep s" and "wheel_ok env past s" and "k < length (pending s)"
  shows "\<exists>s'. on_written env k st s = Some s' \<and> srv_ok env acc rep s' \<and> wheel_ok env past s'
    \<and> timeoutSec (timerWheel s') = timeoutSec (timerWheel s)"
proof -
  obtain i cb buf where k: "pending s ! k = (i, cb, buf)" by (cases "pending s ! k") auto
  then have "(i, cb, buf) \<in> set (pending s)" using assms(4) by (metis nth_mem)
  then have cb: "cb = None \<or> (\<exists>f. cb = Some (UserWrite f))"
    using assms(2) by (auto simp: srv_ok_def requests_ok_def)
  let ?reqs = "take k (pending s) @ drop (Suc k) (pending s)"
  have "set ?reqs \<subseteq> set (pending s)" using set_take_subset set_drop_subset by fastforce
  then have "requests_ok ?reqs" using assms(2) by (auto simp: srv_ok_def requests_ok_def)
  from written_act_ok [OF assms(1) pending_ok [OF assms(2) this], of past "write_done (cb, buf) st" i]
  show ?thesis
    using assms(3,4) cb k by (auto simp: on_written_def index_at_def write_done_def)
qed

text \<open>A connection that leaves the map is destroyed.\<close>

lemma remove_ok:
  assumes "srv_ok env acc rep s" and "wheel_ok env past s" and "objects s i = Some c" and "i \<in> acc"
  shows "srv_ok env acc (insert i rep) (removeConnnection (name c) s)"
    and "wheel_ok env past (removeConnnection (name c) s)"
proof -
  have key: "getConnnection (name c) s = Some i" using srv_ok_key [OF assms(1,3)] .
  then have s': "removeConnnection (name c) s
      = s\<lparr>connnections := map_erase (name c) (connnections s), objects := (objects s)(i := None)\<rparr>"
    by (simp add: removeConnnection_def)
  have "name d \<noteq> name c" if "objects s j = Some d" "j \<noteq> i" for j d
    using srv_ok_key [OF assms(1) that(1)] key that(2) by auto
  moreover have "j \<noteq> i \<or> nm = name c" if "getConnnection nm s = Some j" for nm j
    using srv_ok_entry [OF assms(1) that] assms(3) by auto
  ultimately show "srv_ok env acc (insert i rep) (removeConnnection (name c) s)"
    using assms(1,4) unfolding s' by (auto simp: srv_ok_def getConnnection_def bufs_ok_delete)
  show "wheel_ok env past (removeConnnection (name c) s)"
    using assms(2) unfolding s' by (auto simp: wheel_ok_def)
qed

lemma closed_ok:
  assumes "user_keeps env" and "srv_ok env acc rep s" and "wheel_ok env past s"
    and "i \<in> acc" and "i \<notin> rep" and "is_closing env s i"
  shows "\<exists>s'. on_closed env i s = Some s' \<and> srv_ok env acc (insert i rep) s' \<and> wheel_ok env past s'
    \<and> timeoutSec (timerWheel s') = timeoutSec (timerWheel s) \<and> (user_quiet env \<longrightarrow> pending s' = pending s)
    \<and> (\<forall>j. is_closing env s' j = is_closing env s j)"
proof -
  obtain c where c: "objects s i = Some c" "conn_ok True i c" "getConnnection (name c) s = Some i"
    using srv_okD [OF assms(2,4,5)] assms(6) by metis
  obtain s1 where run: "run_user env (onConnectCloseCb s) (ConnectClose i) s = Some s1" and eff: "user_effect env s s1"
    using run_user_keeps [OF assms(1) _ srv_ok_bufs [OF assms(2)], of "ConnectClose i" "onConnectCloseCb s"] c(1) by auto
  note same = user_effect_simps [OF eff]
  have quiet: "pending s1 = pending s" if q: "user_quiet env"
  proof -
    obtain w where "run_user env (onConnectCloseCb s) (ConnectClose i) s = Some (s\<lparr>world := w\<rparr>)"
      using run_user_quiet [OF q] by metis
    with run show ?thesis by auto
  qed
  obtain c1 where c1: "objects s1 i = Some c1" "name c1 = name c"
    using user_effect_objects(3) [OF eff c(1)] conn_core_eq by metis
  let ?s' = "removeConnnection (name c) s1"
  have "on_closed env i s = Some ?s'"
    using c run by (simp add: on_closed_def CloseComplete_def run_if_def conn_ok_def close_done_def)
  moreover have "srv_ok env acc (insert i rep) ?s'" "wheel_ok env past ?s'"
    using remove_ok [OF srv_ok_effect [OF assms(2) eff] wheel_ok_effect [OF assms(3) eff] c1(1) assms(4)] c1(2) by auto
  moreover have "timerWheel ?s' = timerWheel s" "world ?s' = world s1" "pending ?s' = pending s1"
    using same(2) by (simp_all add: removeConnnection_def split: option.split)
  ultimately show ?thesis using same(3) quiet by auto
qed

section \<open>Runs keep the invariant\<close>

lemma event_ok:
  assumes "libuv (uv env)" and "user_keeps env" and "srv_ok env acc rep s" and "wheel_ok env past s"
    and "enabled env acc rep s e"
  shows "\<exists>s'. srv_event env e s = Some s' \<and> srv_ok env (acc \<union> accepted_by e) (rep \<union> reported_by e) s'
    \<and> wheel_ok env (rev (activity e) @ past) s' \<and> timeoutSec (timerWheel s') = timeoutSec (timerWheel s)"
proof (cases e)
  case (EvAccept i)
  then show ?thesis using accept_ok [OF assms(1-4), of i] assms(5) by auto
next
  case (EvRead i n buf)
  then have "i \<in> acc" "i \<notin> rep" "\<not> is_closing env s i" "n < 2 ^ 31" using assms(5) by auto
  with EvRead show ?thesis
    using read_data_ok [OF assms(2-4), of i n buf] read_end_ok [OF assms(1,3,4), of i n buf]
    by (cases "0 < n") auto
next
  case (EvShutdown i)
  then have "i \<in> acc" "i \<notin> rep" using assms(5) by auto
  then show ?thesis
    using EvShutdown conn_socketClose_ok [OF assms(1,3)] begun_ok [OF assms(1,3), of i]
      begun_wheel_ok [OF assms(1,4), of i] assms(3,4) by (auto simp: on_shutdown_def)
next
  case (EvClosed i)
  then show ?thesis using closed_ok [OF assms(2-4), of i] assms(5) by auto
next
  case EvTick
  then show ?thesis using tick_ok [OF assms(1,3,4)] by auto
next
  case (EvClose nm)
  show ?thesis
  proof (cases "getConnnection nm s")
    case None
    then have "closeConnection env nm s = Some s" by (simp add: closeConnection_def)
    with EvClose assms(3,4) show ?thesis by simp
  next
    case (Some i)
    then have "closeConnection env nm s = Some (begun env i s)"
      using closeConnection_open [OF assms(1,3)] EvClose assms(5) by simp
    with EvClose show ?thesis
      using begun_ok [OF assms(1,3), of i] begun_wheel_ok [OF assms(1,4), of i] by simp
  qed
next
  case (EvWrite nm buf cb)
  then show ?thesis using write_ok [OF assms(1-4), of nm buf cb] by simp
next
  case (EvWritten k st)
  then show ?thesis using written_ok [OF assms(2-4), of k st] assms(5) by simp
qed

lemma fresh_ok:
  assumes "fresh_server s"
  shows "srv_ok env {} {} s" and "wheel_ok env [] s"
proof -
  show "srv_ok env {} {} s"
    using assms by (simp add: requests_ok_def bufs_ok_def fresh_server_def srv_ok_def getConnnection_def map_get_def)
  have "timeoutSec (timerWheel s) \<noteq> 0 \<and> held (timerWheel s) = {}" if "wheel_agrees [] (timerWheel s)"
    using held_agrees [OF that] that by (auto simp: wheel_agrees_def wheel_valid_def)
  then show "wheel_ok env [] s"
    using assms by (auto simp: fresh_server_def wheel_ok_def)
qed

lemma run_ok:
  assumes "srv_run env s0 es acc rep s" and "libuv (uv env)" and "user_keeps env"
  shows "srv_ok env acc rep s" and "wheel_ok env (rev (activities es)) s"
    and "timeoutSec (timerWheel s) = timeoutSec (timerWheel s0)"
proof -
  have "srv_ok env acc rep s \<and> wheel_ok env (rev (activities es)) s
    \<and> timeoutSec (timerWheel s) = timeoutSec (timerWheel s0)"
    using assms(1)
  proof induction
    case start
    then show ?case using fresh_ok [of s0] by (simp add: activities_def)
  next
    case (step es acc rep s e s')
    then show ?case
      using event_ok [OF assms(2,3), of acc rep s "rev (activities es)" e] by (auto simp: activities_def)
  qed
  then show "srv_ok env acc rep s" and "wheel_ok env (rev (activities es)) s"
    and "timeoutSec (timerWheel s) = timeoutSec (timerWheel s0)" by blast+
qed

text \<open>\<open>bindAndListen\<close> gives a server from which runs start.\<close>

lemma listen_fresh:
  assumes "bindAndListen env h addr s0 = (0, s)"
    and "connnections s0 = []" and "objects s0 = (\<lambda>_. None)" and "pending s0 = []"
    and "timerWheel s0 = setTimeout T (fst (TimerWheel_new (uv env) k 0 w))"
  shows "fresh_server s \<and> timeoutSec (timerWheel s) = T"
proof -
  let ?new = "fst (TimerWheel_new (uv env) k T w) :: nat TimerWheel"
  obtain w' w'' where start: "wheel_start (uv env) (timerWheel s0) w' = (timerWheel s, w'')"
    and rest: "connnections s = []" "objects s = (\<lambda>_. None)" "pending s = []"
    using bindAndListen_ok [OF assms(1)] assms(2-4) by auto
  have "timerWheel s0 = ?new"
    using assms(5) by (simp add: TimerWheel_new_def setTimeout_def split: prod.split)
  with start have wheel: "timerWheel s = fst (wheel_start (uv env) ?new w')" by simp
  show ?thesis
  proof (cases "T = 0")
    case True
    then have "timerWheel s = ?new"
      unfolding wheel by (simp add: wheel_start_def TimerWheel_new_def split: prod.split)
    with True rest show ?thesis
      by (simp add: fresh_server_def TimerWheel_new_def held_def split: prod.split)
  next
    case False
    then have "0 < T" by (simp add: word_neq_0_conv)
    from start_agrees [OF this] have "wheel_agrees [] (timerWheel s)" "timeoutSec (timerWheel s) = T"
      unfolding wheel by fast+
    with rest show ?thesis by (simp add: fresh_server_def)
  qed
qed

lemma server_starts:
  assumes "bindAndListen env h addr (srv_setTimeout T (srv_setMessageCallback cb (TcpServer_new (uv env) k nd w))) = (0, s)"
  shows "srv_run env s [] {} {} s \<and> timeoutSec (timerWheel s) = T
    \<and> map_option isListen (accetper s) = Some True \<and> onMessageCb s = cb"
proof -
  let ?s0 = "srv_setTimeout T (srv_setMessageCallback cb (TcpServer_new (uv env) k nd w))"
  have "connnections ?s0 = []" "objects ?s0 = (\<lambda>_. None)" "pending ?s0 = []" "onMessageCb ?s0 = cb"
    "timerWheel ?s0 = setTimeout T (fst (TimerWheel_new (uv env) k 0 w))"
    by (simp_all add: srv_setTimeout_def srv_setMessageCallback_def TcpServer_new_def split: prod.split)
  with listen_fresh [OF assms] bindAndListen_ok [OF assms] show ?thesis by (auto intro: srv_run.start)
qed

text \<open>Without a call of \<open>setTimeout\<close> the time-out is 0 and the wheel is off.\<close>

lemma no_timeout:
  "srv_setTimeout 0 (srv_setMessageCallback cb (TcpServer_new u k nd w))
    = srv_setMessageCallback cb (TcpServer_new u k nd w)"
  by (simp add: srv_setTimeout_def srv_setMessageCallback_def TcpServer_new_def setTimeout_def TimerWheel_new_def
      split: prod.split)

lemmas server_starts_off = server_starts [where T = 0, unfolded no_timeout]

text \<open>What a tick closes, in every state of a run.\<close>

lemma tick_of_run:
  assumes "libuv (uv env)" and "user_keeps env" and "srv_run env s0 es acc rep s"
    and "0 < getTimeout (timerWheel s0)" and "i \<in> acc" and "i \<notin> rep" and "\<not> is_closing env s i"
  shows "\<exists>s'. on_tick env s = Some s' \<and> (is_closing env s' i \<longleftrightarrow>
    i \<notin> recent (unat (timeoutSec (timerWheel s0))) (rev (activities (es @ [EvTick]))))"
proof -
  note run = run_ok [OF assms(3,1,2)]
  let ?past = "rev (activities es)" and ?T = "unat (timeoutSec (timerWheel s0))"
  from tick_ok [OF assms(1) run(1,2)] obtain s' where s': "on_tick env s = Some s'"
    "wheel_ok env (Tick # ?past) s'" "timeoutSec (timerWheel s') = timeoutSec (timerWheel s)"
    "is_closing env s' i \<longleftrightarrow> is_closing env s i \<or> i \<in> dropped (timerWheel s) (timerWheel s')"
    using assms(5,6) by auto
  have pos: "0 < getTimeout (timerWheel s)" "0 < getTimeout (timerWheel s')"
    using assms(4) run(3) s'(3) by (simp_all add: getTimeout_def)
  then have on: "timeoutSec (timerWheel s) \<noteq> 0" "timeoutSec (timerWheel s') \<noteq> 0"
    by (auto simp: getTimeout_def)
  obtain c where "objects s i = Some c" using srv_ok_alive [OF run(1), of i] assms(5,6) by auto
  then have "i \<in> held (timerWheel s)" using run(2) assms(7) pos on by (auto simp: wheel_ok_def)
  moreover have "held (timerWheel s') = recent ?T (Tick # ?past)"
    using s'(2,3) pos on run(3) held_agrees [of "Tick # ?past" "timerWheel s'"]
    by (simp add: wheel_ok_def)
  moreover have "rev (activities (es @ [EvTick])) = Tick # ?past" by (simp add: activities_def)
  ultimately show ?thesis using s'(1,4) assms(7) by (auto simp: dropped_def)
qed

section \<open>Closing the whole server\<close>

lemma next_name_rest:
  assumes "std_map (pre @ rest)"
  shows "next_name (if pre = [] then None else Some (fst (last pre))) (pre @ rest)
    = (case rest of [] \<Rightarrow> None | e # _ \<Rightarrow> Some e)"
proof (cases "pre = []")
  case True
  then show ?thesis by (simp add: next_name_def)
next
  case False
  have "n \<le> fst (last pre)" if "(n, i) \<in> set pre" for n i
    using assms that False unfolding std_map_def
    by (induction pre) (auto simp: less_imp_le)
  then have "filter (\<lambda>(n, _). fst (last pre) < n) pre = []"
    by (fastforce simp: filter_empty_conv not_less)
  moreover have "fst (last pre) < n" if "(n, i) \<in> set rest" for n i
  proof -
    have "fst (last pre) \<in> set (map fst pre)" "n \<in> set (map fst rest)"
      using False that by force+
    then show ?thesis using assms unfolding std_map_def map_append sorted_wrt_append by blast
  qed
  then have "filter (\<lambda>(n, _). fst (last pre) < n) rest = rest" by (auto simp: filter_id_conv)
  ultimately show ?thesis using False by (simp add: next_name_def)
qed

lemma close_rounds:
  assumes "libuv (uv env)" and "srv_ok env acc rep s" and "connnections s = pre @ rest"
  shows "\<exists>s'. endless (close_round env) (if pre = [] then None else Some (fst (last pre)), s) = Some s'
    \<and> srv_ok env acc rep s' \<and> connnections s' = connnections s \<and> timerWheel s' = timerWheel s
    \<and> pending s' = pending s \<and> (\<forall>j. is_closing env s' j \<longleftrightarrow> is_closing env s j \<or> j \<in> snd ` set rest)"
  using assms(2,3)
proof (induction rest arbitrary: pre s)
  case Nil
  then have "std_map (pre @ [])" by (simp add: srv_ok_def)
  then show ?case
    using Nil next_name_rest [of pre "[]"] by (intro exI [of _ s]) (simp add: endless_stop close_round_def)
next
  case (Cons e rest)
  obtain nm i where e: "e = (nm, i)" by (cases e)
  have m: "std_map (pre @ e # rest)" using Cons.prems by (simp add: srv_ok_def)
  have "map_get (pre @ (nm, i) # rest) nm = Some i"
    using m e unfolding std_map_def map_get_def
    by (force simp: sorted_wrt_append map_of_eq_None_iff map_add_Some_iff)
  then have get: "getConnnection nm s = Some i" by (simp add: getConnnection_def Cons.prems e)
  then have i: "i \<in> acc" "i \<notin> rep"
    using srv_ok_entry [OF Cons.prems(1) get] srv_ok_alive [OF Cons.prems(1), of i] by auto
  define s1 where "s1 = (if is_closing env s i then s else begun env i s)"
  have s1: "srv_ok env acc rep s1" "connnections s1 = connnections s" "getConnnection nm s1 = Some i"
    "timerWheel s1 = timerWheel s" "pending s1 = pending s"
    "\<And>j. is_closing env s1 j \<longleftrightarrow> is_closing env s j \<or> j = i"
    using Cons.prems(1) get begun_ok [OF assms(1) Cons.prems(1)] begun_closing [OF assms(1)]
    by (auto simp: s1_def)
  have "close_round env (if pre = [] then None else Some (fst (last pre)), s) = Some (Inl (Some nm, s1))"
    using next_name_rest [OF m] conn_socketClose_ok [OF assms(1) Cons.prems(1) i] s1(3) Cons.prems(2) e
    by (simp add: close_round_def s1_def)
  from endless_again [of "close_round env", OF this] show ?case
    using Cons.IH [of s1 "pre @ [e]"] s1 Cons.prems(2) e by auto
qed

section \<open>A server for examples\<close>

text \<open>A quiet user on the simulated libuv; the timeout is \<open>T\<close> seconds and the wheel is started.\<close>

definition sim_env :: "(unit, Sim) Env" where
  "sim_env = \<lparr>uv = sim_uv, inet = sim_inet, buffer_mode = NoBuffer, cycle_size = 0,
     user = (\<lambda>f arg s. Some s)\<rparr>"

definition sim_server :: "uint32 \<Rightarrow> (unit, Sim) TcpServer" where
  "sim_server T =
     (case bindAndListen sim_env 0 (SocketAddr_new sim_inet ''127.0.0.1'' 80 Ipv4)
        (srv_setTimeout T (TcpServer_new sim_uv 1 True sim_init)) of (_, s) \<Rightarrow> s)"

fun steps :: "unit SrvEvent list \<Rightarrow> (unit, Sim) TcpServer \<Rightarrow> (unit, Sim) TcpServer option" where
  "steps [] s = Some s"
| "steps (e # es) s = (case srv_event sim_env e s of Some s \<Rightarrow> steps es s | None \<Rightarrow> None)"

fun allowed :: "unit SrvEvent list \<Rightarrow> nat set \<Rightarrow> nat set \<Rightarrow> (unit, Sim) TcpServer \<Rightarrow> bool" where
  "allowed [] acc rep s \<longleftrightarrow> True"
| "allowed (e # es) acc rep s \<longleftrightarrow> enabled sim_env acc rep s e
     \<and> (case srv_event sim_env e s of
          Some s' \<Rightarrow> allowed es (acc \<union> accepted_by e) (rep \<union> reported_by e) s' | None \<Rightarrow> True)"

lemma sim_env: "libuv (uv sim_env)" "user_quiet sim_env" "user_keeps sim_env"
proof -
  show "libuv (uv sim_env)" using sim.libuv_axioms by (simp add: sim_env_def)
  have "user sim_env f arg s = Some (s\<lparr>world := world s\<rparr>)" for f arg s by (simp add: sim_env_def)
  then show "user_quiet sim_env" unfolding user_quiet_def by blast
  then show "user_keeps sim_env" by (rule quiet_keeps)
qed

lemma sim_fresh: "fresh_server (sim_server T)"
proof -
  let ?s0 = "srv_setTimeout T (TcpServer_new (uv sim_env) 1 True sim_init)"
  have "bindAndListen sim_env 0 (SocketAddr_new sim_inet ''127.0.0.1'' 80 Ipv4) ?s0 = (0, sim_server T)"
    by (simp add: sim_server_def bindAndListen_def sim_env_def acc_bind_def acc_listen_def sim_uv_def
        TcpAccepter_new_def Let_def split: prod.split)
  moreover have "connnections ?s0 = []" "objects ?s0 = (\<lambda>_. None)" "pending ?s0 = []"
    "timerWheel ?s0 = setTimeout T (fst (TimerWheel_new (uv sim_env) 1 0 sim_init))"
    by (simp_all add: srv_setTimeout_def TcpServer_new_def split: prod.split)
  ultimately show ?thesis by (intro listen_fresh [THEN conjunct1])
qed

lemma steps_run:
  assumes "srv_run sim_env s0 es0 acc rep s" and "allowed es acc rep s" and "steps es s = Some s'"
  shows "srv_run sim_env s0 (es0 @ es) (acc \<union> \<Union> (set (map accepted_by es)))
    (rep \<union> \<Union> (set (map reported_by es))) s'"
  using assms
proof (induction es arbitrary: es0 acc rep s)
  case (Cons e es)
  obtain s1 where s1: "srv_event sim_env e s = Some s1" "steps es s1 = Some s'"
    using Cons.prems(3) by (auto split: option.splits)
  have "srv_run sim_env s0 (es0 @ [e]) (acc \<union> accepted_by e) (rep \<union> reported_by e) s1"
    using srv_run.step [OF Cons.prems(1) _ s1(1)] Cons.prems(2) by simp
  from Cons.IH [OF this _ s1(2)] show ?case
    using Cons.prems(2) s1(1) by (simp add: Un_assoc)
qed simp

text \<open>A run of events that is allowed, and a condition on the state after it.\<close>

definition sim_holds :: "unit SrvEvent list \<Rightarrow> uint32 \<Rightarrow> ((unit, Sim) TcpServer \<Rightarrow> bool) \<Rightarrow> bool" where
  "sim_holds es T P \<longleftrightarrow> allowed es {} {} (sim_server T)
     \<and> (case steps es (sim_server T) of Some s \<Rightarrow> P s | None \<Rightarrow> False)"

lemma sim_holdsE:
  assumes "sim_holds es T P"
  obtains s where "steps es (sim_server T) = Some s" and "P s"
    and "srv_run sim_env (sim_server T) es (\<Union> (set (map accepted_by es)))
      (\<Union> (set (map reported_by es))) s"
  using assms steps_run [OF srv_run.start [OF sim_fresh], of es T]
  unfolding sim_holds_def by (auto split: option.splits)

section \<open>Properties\<close>

text \<open>C3: in a run of the server, no event that libuv may deliver, nor a write or the closing of an open
  or unknown connection by name, uses a destroyed connection object or an invalid slot of the wheel. The
  runs (\<open>srv_run\<close>, \<open>enabled\<close>) are those in which the user's callbacks satisfy \<open>user_keeps\<close> (they return, and
  write or use the buffers but close and replace nothing: the HTTP server's callback, which closes, does
  not), no connection is accepted under a name that the map still holds (\<open>same_name_destroys\<close> shows what
  that does), nobody closes a connection that is closing already (what such a second close does is a
  theorem below), and a read has less than \<open>2 ^ 31\<close> bytes.\<close>

theorem server_safe:
  assumes "libuv (uv env)" and "user_keeps env"
    and "srv_run env s0 es acc rep s" and "enabled env acc rep s e"
  shows "\<exists>s'. srv_event env e s = Some s'"
  using event_ok [OF assms(1,2) run_ok(1) [OF assms(3,1,2)] run_ok(2) [OF assms(3,1,2)] assms(4)] by blast

theorem server_safe_witness:
  "\<exists>s s'. steps [EvAccept 7, EvRead 7 2 [1, 2], EvTick] (sim_server 5) = Some s
     \<and> srv_event sim_env (EvRead 7 (-1) []) s = Some s'"
proof -
  have "sim_holds [EvAccept 7, EvRead 7 2 [1, 2], EvTick] 5
      (\<lambda>s. enabled sim_env {7} {} s (EvRead 7 (-1) []))"
    by code_simp
  then obtain s where "steps [EvAccept 7, EvRead 7 2 [1, 2], EvTick] (sim_server 5) = Some s"
    "enabled sim_env {7} {} s (EvRead 7 (-1) [])"
    "srv_run sim_env (sim_server 5) [EvAccept 7, EvRead 7 2 [1, 2], EvTick] {7} {} s"
    by (rule sim_holdsE) simp
  with server_safe [OF sim_env(1,3)] show ?thesis by blast
qed

text \<open>C24: in every run the map holds, under its own name, exactly each connection that has been
  accepted and not yet reported closed, and no other; such a connection is reachable for messages
  until its closing begins and never afterwards.\<close>

theorem server_map:
  assumes "libuv (uv env)" and "user_keeps env" and "srv_run env s0 es acc rep s"
  shows "(\<exists>nm. getConnnection nm s = Some i \<and> map_option name (objects s i) = Some nm
        \<and> map_option (\<lambda>c. onMessageCallback c = Some OnMessageBind) (objects s i)
          = Some (\<not> is_closing env s i)) = (i \<in> acc - rep)
    \<and> (getConnnection nm' s = Some i \<longrightarrow> map_option name (objects s i) = Some nm')"
proof -
  note ok = run_ok(1) [OF assms(3,1,2)]
  have "\<exists>c. objects s i = Some c \<and> name c = nm" if "getConnnection nm s = Some i" for nm
    using srv_ok_entry [OF ok that] .
  moreover have "i \<in> acc - rep \<longleftrightarrow> objects s i \<noteq> None" using srv_ok_alive [OF ok, of i] by auto
  moreover have "getConnnection (name c) s = Some i
      \<and> (onMessageCallback c = Some OnMessageBind \<longleftrightarrow> \<not> is_closing env s i)" if "objects s i = Some c" for c
    using srv_ok_conn [OF ok that] srv_ok_key [OF ok that] by (auto simp: conn_ok_def split: if_splits)
  ultimately show ?thesis by (cases "objects s i") auto
qed

theorem server_map_witness:
  "\<exists>s. steps [EvAccept 7, EvAccept 8, EvRead 7 (-1) [], EvClosed 7] (sim_server 5) = Some s
     \<and> (\<exists>nm. getConnnection nm s = Some 8)"
proof -
  have "sim_holds [EvAccept 7, EvAccept 8, EvRead 7 (-1) [], EvClosed 7] 5 (\<lambda>s. True)"
    by code_simp
  then obtain s where s: "steps [EvAccept 7, EvAccept 8, EvRead 7 (-1) [], EvClosed 7] (sim_server 5) = Some s"
    "srv_run sim_env (sim_server 5) [EvAccept 7, EvAccept 8, EvRead 7 (-1) [], EvClosed 7] {7, 8} {7} s"
    by (rule sim_holdsE) (simp add: insert_commute)
  from server_map [OF sim_env(1,3) s(2), of 8] s(1) show ?thesis by auto
qed

text \<open>C14: with a timeout of \<open>T\<close> seconds, a tick of the wheel begins to close exactly those open
  connections for which there has been no accept and no data since \<open>T\<close> ticks, this one included;
  data that arrived in time always keeps a connection open.\<close>

theorem tick_closes_idle:
  assumes "libuv (uv env)" and "user_keeps env" and "srv_run env s0 es acc rep s"
    and "0 < getTimeout (timerWheel s0)" and "i \<in> acc" and "i \<notin> rep" and "\<not> is_closing env s i"
  shows "\<exists>s'. on_tick env s = Some s' \<and> (is_closing env s' i \<longleftrightarrow>
    i \<notin> recent (unat (timeoutSec (timerWheel s0))) (rev (activities (es @ [EvTick]))))"
  using assms by (rule tick_of_run)

theorem tick_closes_idle_witness:
  "\<exists>s s'. steps [EvAccept 7, EvAccept 8, EvTick, EvRead 8 1 [65]] (sim_server 2) = Some s
     \<and> on_tick sim_env s = Some s' \<and> is_closing sim_env s' 7"
proof -
  let ?es = "[EvAccept 7, EvAccept 8, EvTick, EvRead 8 1 [65]]"
  have "sim_holds ?es 2 (\<lambda>s. \<not> is_closing sim_env s 7)" by code_simp
  then obtain s where s: "steps ?es (sim_server 2) = Some s" "\<not> is_closing sim_env s 7"
    "srv_run sim_env (sim_server 2) ?es {7, 8} {} s"
    by (rule sim_holdsE) (simp add: insert_commute)
  have T: "0 < getTimeout (timerWheel (sim_server 2))" "timeoutSec (timerWheel (sim_server 2)) = 2"
    by code_simp+
  from tick_closes_idle [OF sim_env(1,3) s(3) T(1), of 7] s(1,2) T(2) show ?thesis
    by (simp add: activities_def)
qed

text \<open>C25: the function that \<open>close\<close> hands to the acceptor goes through all connections, in every state
  that a run can reach: it ends, its iterator stays valid, afterwards every connection is closing,
  none has been taken from the map, and the user's callback is run last.\<close>

theorem server_closes_all:
  assumes "libuv (uv env)" and "user_keeps env" and "srv_run env s0 es acc rep s"
  shows "\<exists>s'. close_lambda env (Some f) s = user env f ServerClosed s'
    \<and> (\<forall>i \<in> acc - rep. is_closing env s' i) \<and> connnections s' = connnections s"
proof -
  note ok = run_ok(1) [OF assms(3,1,2)]
  from close_rounds [OF assms(1) ok, of "[]"] obtain s' where s':
    "endless (close_round env) (None, s) = Some s'" "connnections s' = connnections s"
    "\<And>j. is_closing env s' j \<longleftrightarrow> is_closing env s j \<or> j \<in> snd ` set (connnections s)" by auto
  have "i \<in> snd ` set (connnections s)" if "i \<in> acc - rep" for i
  proof -
    from that have "i \<in> acc" "i \<notin> rep" by auto
    then obtain c where "objects s i = Some c" "conn_ok (is_closing env s i) i c"
      "getConnnection (name c) s = Some i" by (rule srv_okD [OF ok])
    then show ?thesis by (force simp: getConnnection_def map_get_def dest: map_of_SomeD)
  qed
  with s' show ?thesis by (auto simp: close_lambda_def)
qed

theorem server_closes_all_witness:
  "\<exists>s s'. steps [EvAccept 7, EvAccept 8, EvRead 7 (-1) []] (sim_server 5) = Some s
     \<and> close_lambda sim_env (Some ()) s = Some s' \<and> is_closing sim_env s' 8"
proof -
  let ?es = "[EvAccept 7, EvAccept 8, EvRead 7 (-1) []]"
  have "sim_holds ?es 5 (\<lambda>s. True)" by code_simp
  then obtain s where s: "steps ?es (sim_server 5) = Some s"
    "srv_run sim_env (sim_server 5) ?es {7, 8} {} s"
    by (rule sim_holdsE) (simp add: insert_commute)
  have "user sim_env () arg t = Some t" for arg t by (simp add: sim_env_def)
  with server_closes_all [OF sim_env(1,3) s(2), of "()"] s(1) show ?thesis by auto
qed

text \<open>C34: \<open>closeConnection\<close> for a connection that is closing already, which nothing in the interface
  excludes, destroys the connection object at once, and libuv's report that its handle is closed
  then uses the destroyed object.\<close>

theorem second_close_destroys:
  assumes "user_keeps env" and "libuv (uv env)" and "srv_run env s0 es acc rep s"
    and "getConnnection nm s = Some i" and "is_closing env s i"
  shows "\<exists>s'. closeConnection env nm s = Some s' \<and> objects s' i = None \<and> on_closed env i s' = None"
proof -
  note ok = run_ok(1) [OF assms(3,2,1)]
  obtain c where c: "objects s i = Some c" "name c = nm"
    using srv_ok_entry [OF ok assms(4)] by blast
  have h: "conn_handle c = i" using srv_ok_conn [OF ok c(1)] by (simp add: conn_ok_def)
  define s1 where "s1 = s\<lparr>world := (if uv_is_active (uv env) i (world s)
      then uv_read_stop (uv env) i (world s) else world s),
    objects := (objects s)(i \<mapsto> c\<lparr>onMessageCallback := None, onConnectCloseCallback := None,
      closeCompleteCallback := Some CloseLambda\<rparr>)\<rparr>"
  have close: "closeConnection env nm s = close_done env nm s1"
    using assms(4,5) c h libuv.closing [OF assms(2)]
    by (simp add: closeConnection_def conn_close_def CloseComplete_def run_if_def s1_def Let_def)
  have "bufs_ok env (objects s1)"
    using bufs_ok_update [OF srv_ok_bufs [OF ok]] srv_ok_bufs [OF ok] c(1) by (auto simp: s1_def bufs_ok_def)
  moreover have "objects s1 i \<noteq> None" by (simp add: s1_def)
  ultimately obtain s2 where run: "run_user env (onConnectCloseCb s1) (ConnectClose i) s1 = Some s2"
    and eff: "user_effect env s1 s2"
    using run_user_keeps [OF assms(1), of "ConnectClose i" s1 "onConnectCloseCb s1"] by auto
  have get: "getConnnection nm s1 = Some i" "getConnnection nm s2 = Some i"
    using assms(4) user_effect_simps(4) [OF eff, of nm] by (simp_all add: s1_def getConnnection_def)
  have "close_done env nm s1 = Some (removeConnnection nm s2)"
    by (simp add: close_done_def get(1) run)
  moreover have "objects (removeConnnection nm s2) i = None"
    using get(2) by (simp add: removeConnnection_def)
  ultimately show ?thesis using close by (simp add: on_closed_def)
qed

theorem second_close_destroys_witness:
  "\<exists>s s'. steps [EvAccept 7, EvRead 7 (-1) []] (sim_server 5) = Some s
     \<and> closeConnection sim_env ''127.0.0.1:1792'' s = Some s' \<and> on_closed sim_env 7 s' = None"
proof -
  let ?es = "[EvAccept 7, EvRead 7 (-1) []]"
  have "sim_holds ?es 5 (\<lambda>s. getConnnection ''127.0.0.1:1792'' s = Some 7 \<and> is_closing sim_env s 7)"
    by code_simp
  then obtain s where s: "steps ?es (sim_server 5) = Some s" "is_closing sim_env s 7"
    "getConnnection ''127.0.0.1:1792'' s = Some 7" "srv_run sim_env (sim_server 5) ?es {7} {} s"
    by (rule sim_holdsE) simp
  from second_close_destroys [OF sim_env(3,1) s(4,3,2)] s(1) show ?thesis by blast
qed

text \<open>A client that is accepted while the map still has its peer's name is not in the map: its
  object is destroyed when \<open>onAccept\<close> returns, though its handle is being read, and the next bytes
  or the next error that libuv reports for it use the destroyed object.\<close>

theorem same_name_destroys:
  assumes "user_quiet env" and "\<not> 0 < getTimeout (timerWheel s)"
    and "AddrToStr (inet env) (uv env) i (server_ipv s) (world s) = Some key"
    and "getConnnection key s = Some j" and "j \<noteq> i"
  shows "\<exists>s'. onAccept env i s = Some s' \<and> on_read env i n buf s' = None
    \<and> getConnnection key s' = Some j"
proof -
  obtain c0 :: "'a ServerCb TcpConnection" where c0: "TcpConnection_new (uv env) (buffer_mode env)
      (cycle_size env) key i True (world s) = (c0, uv_read_start (uv env) i (world s))"
    by (simp add: TcpConnection_new_def)
  define s1 where "s1 = addConnnection key i ((log_srv Debug (''new connect  '' @ key) s)\<lparr>
    world := uv_read_start (uv env) i (world s), objects := (objects s)(i \<mapsto>
      conn_setConnectCloseCallback (Some CloseConnectionBind)
        (conn_setMessageCallback (Some OnMessageBind) c0))\<rparr>)"
  obtain w where w: "run_user env (onNewConnectCb s1) (NewConnect i) s1 = Some (s1\<lparr>world := w\<rparr>)"
    using run_user_quiet [OF assms(1)] by metis
  have "getConnnection key (s1\<lparr>world := w\<rparr>) = Some j"
    using assms(4) by (simp add: s1_def addConnnection_def getConnnection_def map_get_insert)
  moreover have "onAccept env i s = do {
      s3 \<leftarrow> run_user env (onNewConnectCb s1) (NewConnect i) s1;
      Some (if getConnnection key s3 = Some i then s3 else s3\<lparr>objects := (objects s3)(i := None)\<rparr>)}"
    using assms(2) by (simp add: onAccept_def assms(3) c0 Let_def addConnnection_def s1_def cong: if_cong)
  ultimately show ?thesis
    using w assms(5) by (simp add: on_read_def getConnnection_def)
qed

theorem same_name_destroys_witness:
  "\<exists>s s'. steps [EvAccept 7] ((sim_server 0)\<lparr>world := sim_init\<lparr>sim_peer :=
       [(7, In4 [10, 0, 0, 1] 0), (8, In4 [10, 0, 0, 1] 0)]\<rparr>\<rparr>) = Some s
     \<and> onAccept sim_env 8 s = Some s' \<and> on_read sim_env 8 1 [65] s' = None"
proof -
  let ?s0 = "(sim_server 0)\<lparr>world := sim_init\<lparr>sim_peer :=
    [(7, In4 [10, 0, 0, 1] 0), (8, In4 [10, 0, 0, 1] 0)]\<rparr>\<rparr>"
  have "case steps [EvAccept 7] ?s0 of None \<Rightarrow> False | Some s \<Rightarrow> \<not> 0 < getTimeout (timerWheel s)
      \<and> AddrToStr (inet sim_env) (uv sim_env) 8 (server_ipv s) (world s) = Some ''10.0.0.1:0''
      \<and> getConnnection ''10.0.0.1:0'' s = Some 7"
    by code_simp
  then obtain s where "steps [EvAccept 7] ?s0 = Some s" "\<not> 0 < getTimeout (timerWheel s)"
    "AddrToStr (inet sim_env) (uv sim_env) 8 (server_ipv s) (world s) = Some ''10.0.0.1:0''"
    "getConnnection ''10.0.0.1:0'' s = Some 7"
    by (auto split: option.splits)
  with same_name_destroys [OF sim_env(2), of s 8 "''10.0.0.1:0''" 7 1 "[65]"] show ?thesis by auto
qed

end
