(* ===== verification/Request.thy ===== *)
theory Request
  imports HttpCommon
begin

text \<open>
  HTTP requests (\<open>uv/http/Request.cpp\<close>): the object with its accessors, packing into a message
  and parsing of a message. An operation that can throw or index out of range returns an option.
  The overloads for rvalue references forward.
\<close>

section \<open>State\<close>

record Request =
  req_version :: HttpVersion
  req_methon :: Methon
  req_path :: string
  req_value :: string
  req_urlParms :: "(string \<times> string) list"
  req_heads :: "(string \<times> string) list"
  req_content :: string

definition Request_new :: "HttpVersion \<Rightarrow> Methon \<Rightarrow> Request" where
  "Request_new version methon =
     \<lparr>req_version = version, req_methon = methon, req_path = [], req_value = [],
      req_urlParms = [], req_heads = [], req_content = []\<rparr>"

definition Request_default :: Request where
  "Request_default = Request_new Http1_1 Get"

section \<open>Accessors\<close>

definition req_swapContent :: "string \<Rightarrow> Request \<Rightarrow> Request \<times> string" where
  "req_swapContent str r = (r\<lparr>req_content := str\<rparr>, req_content r)"

definition req_getContent :: "Request \<Rightarrow> string" where
  "req_getContent r = req_content r"

definition req_appendHead :: "string \<Rightarrow> string \<Rightarrow> Request \<Rightarrow> Request" where
  "req_appendHead key val r = r\<lparr>req_heads := map_set key val (req_heads r)\<rparr>"

definition req_getHead :: "string \<Rightarrow> Request \<Rightarrow> string" where
  "req_getHead key r = (case map_get (req_heads r) key of None \<Rightarrow> '''' | Some v \<Rightarrow> v)"

definition appendUrlParam :: "string \<Rightarrow> string \<Rightarrow> Request \<Rightarrow> Request" where
  "appendUrlParam key val r = r\<lparr>req_urlParms := map_set key val (req_urlParms r)\<rparr>"

definition getUrlParam :: "string \<Rightarrow> Request \<Rightarrow> string" where
  "getUrlParam key r = (case map_get (req_urlParms r) key of Some v \<Rightarrow> v | None \<Rightarrow> '''')"

definition req_setVersion :: "HttpVersion \<Rightarrow> Request \<Rightarrow> Request" where
  "req_setVersion version r = r\<lparr>req_version := version\<rparr>"

definition setMethon :: "Methon \<Rightarrow> Request \<Rightarrow> Request" where
  "setMethon methon r = r\<lparr>req_methon := methon\<rparr>"

definition setPath :: "string \<Rightarrow> Request \<Rightarrow> Request" where
  "setPath path r = r\<lparr>req_path := path\<rparr>"

definition getValue :: "Request \<Rightarrow> string" where
  "getValue r = req_value r"

definition getPath :: "Request \<Rightarrow> string" where
  "getPath r = req_path r"

definition req_getVersion :: "Request \<Rightarrow> HttpVersion" where
  "req_getVersion r = req_version r"

definition getMethon :: "Request \<Rightarrow> Methon" where
  "getMethon r = req_methon r"

section \<open>Packing\<close>

definition MethonToStr :: "Methon \<Rightarrow> string" where
  "MethonToStr methon =
     (case methon of Get \<Rightarrow> ''GET'' | Post \<Rightarrow> ''POST'' | Head \<Rightarrow> ''HEAD'' | Put \<Rightarrow> ''PUT''
      | Delete \<Rightarrow> ''DELETE'' | Connect \<Rightarrow> ''CONNECT'' | Options \<Rightarrow> ''OPTIONS''
      | Trace \<Rightarrow> ''TRACE'' | Patch \<Rightarrow> ''PATCH'' | Invalid \<Rightarrow> '''')"

definition StrToMethon :: "string \<Rightarrow> Methon" where
  "StrToMethon str =
     (if str = ''GET'' then Get else if str = ''POST'' then Post
      else if str = ''HEAD'' then Head else if str = ''PUT'' then Put
      else if str = ''DELETE'' then Delete else if str = ''CONNECT'' then Connect
      else if str = ''OPTIONS'' then Options else if str = ''TRACE'' then Trace
      else if str = ''PATCH'' then Patch else Invalid)"

text \<open>Appends path and parameters to the string; the last \<open>&\<close> is popped.\<close>

definition pack_params :: "(string \<times> string) list \<Rightarrow> string" where
  "pack_params parms = concat (map (\<lambda>(k, v). k @ ''='' @ v @ ''&'') parms)"

definition packPathParam :: "Request \<Rightarrow> string \<Rightarrow> string" where
  "packPathParam r path =
     (let path = (if req_path r = [] \<or> hd (req_path r) \<noteq> CHR ''/'' then path @ ''/'' else path);
          path = path @ req_path r
      in if 0 < length (req_urlParms r)
         then butlast (path @ ''?'' @ pack_params (req_urlParms r))
         else path)"

text \<open>The head lines of a map, in the order of the keys.\<close>

definition pack_heads :: "(string \<times> string) list \<Rightarrow> string" where
  "pack_heads heads = concat (map (\<lambda>(k, v). k @ '': '' @ v @ Crlf) heads)"

definition req_pack :: "Request \<Rightarrow> int \<times> string" where
  "req_pack r =
     (let data = MethonToStr (req_methon r) @ '' '';
          data = packPathParam r data @ '' '' @ HttpVersionToStr (req_version r) @ Crlf
      in (0, data @ pack_heads (req_heads r) @ Crlf @ req_content r))"

section \<open>Parsing\<close>

text \<open>The loop over the parameters: \<open>i\<close> is at the \<open>?\<close> or \<open>&\<close> before the next one.\<close>

function unpack_params ::
  "string \<Rightarrow> nat \<Rightarrow> (string \<times> string) list \<Rightarrow> (string \<times> string) list" where
  "unpack_params str i parms =
     (if i < length str
      then
        (case std_find str ''='' i of
           None \<Rightarrow> parms
         | Some p \<Rightarrow>
             if p - i < 1 then parms
             else
               let key = take (p - i - 1) (drop (i + 1) str);
                   q = (case std_find str ''&'' p of None \<Rightarrow> length str | Some q \<Rightarrow> q)
               in if q - p < 1 then parms
                  else unpack_params str q (map_set key (take (q - p - 1) (drop (p + 1) str)) parms))
      else parms)"
  by pat_completeness auto
termination
  by (relation "measure (\<lambda>(str, i, _). length str - i)") (auto dest!: std_find_bound)

declare unpack_params.simps [simp del]

definition unpackPath :: "string \<Rightarrow> Request \<Rightarrow> int \<times> Request" where
  "unpackPath str r =
     (let r = r\<lparr>req_urlParms := []\<rparr>
      in case std_find str '':'' 0 of
           Some pos \<Rightarrow> (0, r\<lparr>req_path := take (pos + 1) str, req_value := drop (pos + 1) str\<rparr>)
         | None \<Rightarrow>
             (case std_find str ''?'' 0 of
                None \<Rightarrow> (0, r\<lparr>req_path := str\<rparr>)
              | Some pos \<Rightarrow>
                  (0, r\<lparr>req_path := take pos str, req_urlParms := unpack_params str pos []\<rparr>)))"

definition unpackUrl :: "string \<Rightarrow> Request \<Rightarrow> int \<times> Request" where
  "unpackUrl str r =
     (case snd (SplitStrOfSpace str []) of
        [m, p, v] \<Rightarrow>
          let r = r\<lparr>req_methon := StrToMethon m\<rparr>
          in if req_methon r = Invalid then (-1, r)
             else
               (case unpackPath p r of (rst, r) \<Rightarrow>
                  if rst \<noteq> 0 then (-1, r) else (0, r\<lparr>req_version := GetHttpVersion v\<rparr>))
      | _ \<Rightarrow> (-1, r))"

text \<open>The loop over the remaining head lines, which stops at a line that is no header.\<close>

fun append_heads :: "string list \<Rightarrow> (string \<times> string) list \<Rightarrow> bool \<times> (string \<times> string) list" where
  "append_heads [] heads = (True, heads)"
| "append_heads (l # ls) heads =
     (case AppendHead l heads of (rst, heads) \<Rightarrow>
        if rst \<noteq> 0 then (False, heads) else append_heads ls heads)"

text \<open>\<open>std::string (data, pos + 4)\<close> with an \<open>int pos\<close>: a negative start is a huge one.\<close>

definition body_from :: "string \<Rightarrow> int \<Rightarrow> string option" where
  "body_from data pos =
     (if 0 \<le> pos + 4 \<and> pos + 4 < 2 ^ 31 then substr_from data (nat (pos + 4)) else None)"

definition req_unpack :: "string \<Rightarrow> Request \<Rightarrow> (ParseResult \<times> Request) option" where
  "req_unpack data r =
     do {
       (pos, headList) \<leftarrow> SplitHttpOfCRLF data [];
       if pos = -1 then Some (Fail, r)
       else
         do {
           first \<leftarrow> index_at headList 0;
           let (rst, r) = unpackUrl first r;
           if rst \<noteq> 0 then Some (ParseError, r)
           else
             (case append_heads (tl headList) (req_heads r) of (ok, heads) \<Rightarrow>
                let r = r\<lparr>req_heads := heads\<rparr>
                in if \<not> ok then Some (ParseError, r)
                   else map_option (\<lambda>content. (Success, r\<lparr>req_content := content\<rparr>))
                          (body_from data pos))
         }
     }"

text \<open>The \<open>Content-Length\<close> header, under one of its two spellings.\<close>

definition content_length :: "(string \<times> string) list \<Rightarrow> string option" where
  "content_length heads =
     (case map_get heads ''Content-Length'' of
        Some v \<Rightarrow> Some v
      | None \<Rightarrow> map_get heads ''content-length'')"

text \<open>The \<open>int\<close> of \<open>stoi\<close> is converted to \<open>uint64_t\<close> before it is compared with the size.\<close>

definition length_matches :: "int \<Rightarrow> string \<Rightarrow> bool" where
  "length_matches n content \<longleftrightarrow> (word_of_int n :: uint64) = word_of_nat (length content)"

definition req_unpackAndCompleted :: "string \<Rightarrow> Request \<Rightarrow> (ParseResult \<times> Request) option" where
  "req_unpackAndCompleted data r =
     do {
       (rst, r) \<leftarrow> req_unpack data r;
       if rst = Success
       then
         (case content_length (req_heads r) of
            Some v \<Rightarrow>
              (case stoi 10 v of
                 Some n \<Rightarrow> Some (if length_matches n (req_content r) then Success else Fail, r)
               | None \<Rightarrow> Some (Success, r))
          | None \<Rightarrow> Some (rst, r))
       else Some (rst, r)
     }"

section \<open>Parameters\<close>

abbreviation param_text :: "string \<times> string \<Rightarrow> string" where
  "param_text kv \<equiv> fst kv @ ''='' @ snd kv"

abbreviation more_params :: "(string \<times> string) list \<Rightarrow> string" where
  "more_params ps \<equiv> concat (map (\<lambda>p. CHR ''&'' # param_text p) ps)"

lemma params_joined:
  "pack_params (p # ps) = (param_text p @ more_params ps) @ ''&''"
  by (induction ps arbitrary: p) (auto simp: pack_params_def split: prod.splits)

definition param_ok :: "string \<times> string \<Rightarrow> bool" where
  "param_ok kv \<longleftrightarrow> CHR ''='' \<notin> set (fst kv) \<and> CHR ''&'' \<notin> set (snd kv)"

lemma unpack_more_params:
  assumes "str = xs @ c # param_text p @ more_params ps" and "length xs = i" and "c \<noteq> CHR ''=''"
    and "\<forall>p\<in>set (p # ps). param_ok p"
  shows "unpack_params str i m = fold (\<lambda>(k, v). map_set k v) (p # ps) m"
  using assms
proof (induction ps arbitrary: xs c p i m)
  case Nil
  obtain k v where p: "p = (k, v)" by (cases p)
  have ok: "CHR ''='' \<notin> set (c # k)" "CHR ''&'' \<notin> set (CHR ''='' # v)"
    using Nil.prems by (auto simp: param_ok_def p)
  have eq: "std_find str ''='' i = Some (i + Suc (length k))"
    using std_find_app [of xs i "c # k @ ''='' @ v"] Nil.prems(1,2)
      find_sub_skip [OF ok(1), of "[]" "''='' @ v"] by (simp add: p)
  have amp: "std_find str ''&'' (i + Suc (length k)) = None"
    using std_find_app [of "xs @ c # k" "i + Suc (length k)" "CHR ''='' # v"] Nil.prems(1,2)
      find_sub_absent [OF ok(2), of "[]"] by (simp add: p)
  have stop: "unpack_params str (length str) m' = m'" for m'
    by (subst unpack_params.simps) simp
  have "unpack_params str i m = map_set k v m"
    using eq amp stop Nil.prems(1,2) by (subst unpack_params.simps) (simp add: p Let_def)
  then show ?case by (simp add: p)
next
  case (Cons q ps)
  obtain k v where p: "p = (k, v)" by (cases p)
  let ?rest = "param_text q @ more_params ps"
  have ok: "CHR ''='' \<notin> set (c # k)" "CHR ''&'' \<notin> set (CHR ''='' # v)"
    using Cons.prems by (auto simp: param_ok_def p)
  have str: "str = xs @ (c # k) @ (CHR ''='' # v) @ CHR ''&'' # ?rest"
    using Cons.prems(1) by (simp add: p)
  have eq: "std_find str ''='' i = Some (i + Suc (length k))"
    using std_find_app [of xs i "(c # k) @ ''='' @ v @ CHR ''&'' # ?rest"] str Cons.prems(2)
      find_sub_skip [OF ok(1), of "[]" "''='' @ v @ CHR ''&'' # ?rest"] by simp
  have amp: "std_find str ''&'' (i + Suc (length k)) = Some (i + Suc (length k) + Suc (length v))"
    using std_find_app [of "xs @ c # k" "i + Suc (length k)" "(CHR ''='' # v) @ ''&'' @ ?rest"]
      find_sub_skip [OF ok(2), of "[]" "''&'' @ ?rest"] str Cons.prems(2) by simp
  have "unpack_params str (i + Suc (length k) + Suc (length v)) (map_set k v m)
      = fold (\<lambda>(k, v). map_set k v) (q # ps) (map_set k v m)"
    using Cons.prems str by (intro Cons.IH [of "xs @ (c # k) @ (CHR ''='' # v)" "CHR ''&''"]) (simp_all add: p)
  moreover have "take (length k) (drop (i + 1) str) = k"
    "take (length v) (drop (i + Suc (length k) + 1) str) = v"
    using Cons.prems(2) by (simp_all add: str)
  moreover have "i < length str" using Cons.prems(2) by (simp add: str)
  ultimately show ?case
    using eq amp by (subst unpack_params.simps) (simp add: p Let_def)
qed

section \<open>Round trip\<close>

text \<open>
  Requests whose parts can be told apart in the packed message: a method and a version; a path
  that starts with a slash and holds no separator; parameters and headers without the characters
  that end them. The body is arbitrary.
\<close>

definition plain :: "char set \<Rightarrow> string \<Rightarrow> bool" where
  "plain cs s \<longleftrightarrow> (\<forall>c\<in>insert (CHR 0x0D) cs. c \<notin> set s)"

definition heads_ok :: "(string \<times> string) list \<Rightarrow> bool" where
  "heads_ok heads \<longleftrightarrow> std_map heads \<and> (\<forall>(k, v)\<in>set heads. plain {CHR '':''} k \<and> plain {} v)"

definition url_ok :: "string \<Rightarrow> (string \<times> string) list \<Rightarrow> bool" where
  "url_ok path parms \<longleftrightarrow> path \<noteq> [] \<and> hd path = CHR ''/'' \<and> plain {CHR '' '', CHR '':'', CHR ''?''} path
     \<and> std_map parms
     \<and> (\<forall>(k, v)\<in>set parms. plain {CHR '' '', CHR '':'', CHR ''=''} k
          \<and> plain {CHR '' '', CHR '':'', CHR ''&''} v)"

definition req_ok :: "Request \<Rightarrow> bool" where
  "req_ok r \<longleftrightarrow> req_version r \<noteq> Unknown \<and> req_methon r \<noteq> Invalid
     \<and> url_ok (req_path r) (req_urlParms r) \<and> heads_ok (req_heads r)
     \<and> length (snd (req_pack r)) < 2 ^ 31"

text \<open>The end of the message can be told: by its \<open>Content-Length\<close>, or there is no body.\<close>

definition req_framed :: "Request \<Rightarrow> bool" where
  "req_framed r \<longleftrightarrow> content_length (req_heads r) = Some (std_to_string (int (length (req_content r))))
     \<or> content_length (req_heads r) = None \<and> req_content r = []"

text \<open>The path with its parameters, as the first line holds it.\<close>

definition url_text :: "string \<Rightarrow> (string \<times> string) list \<Rightarrow> string" where
  "url_text path parms = path @ (case parms of [] \<Rightarrow> [] | p # ps \<Rightarrow> ''?'' @ param_text p @ more_params ps)"

lemma packPathParam_url:
  assumes "req_path r \<noteq> []" and "hd (req_path r) = CHR ''/''"
  shows "packPathParam r s = s @ url_text (req_path r) (req_urlParms r)"
proof (cases "req_urlParms r")
  case Nil
  with assms show ?thesis by (simp add: packPathParam_def url_text_def)
next
  case (Cons p ps)
  let ?x = "s @ req_path r @ ''?'' @ param_text p @ more_params ps"
  have "butlast ((s @ req_path r) @ ''?'' @ pack_params (p # ps)) = ?x"
    unfolding params_joined using butlast_snoc [of ?x "CHR ''&''"] by simp
  with assms Cons show ?thesis by (simp add: packPathParam_def url_text_def)
qed

lemma url_text_plain:
  assumes "url_ok path parms"
  shows "plain {CHR '' '', CHR '':''} (url_text path parms)" and "url_text path parms \<noteq> []"
  using assms by (cases parms; fastforce simp: url_ok_def url_text_def plain_def)+

lemma unpackPath_url:
  assumes "url_ok path parms"
  shows "unpackPath (url_text path parms) r = (0, r\<lparr>req_path := path, req_urlParms := parms\<rparr>)"
proof -
  have "CHR '':'' \<notin> set (url_text path parms)"
    using url_text_plain(1) [OF assms] by (auto simp: plain_def)
  then have "std_find (url_text path parms) '':'' 0 = None"
    by (simp add: find_sub_absent)
  moreover have q: "CHR ''?'' \<notin> set path" using assms by (auto simp: url_ok_def plain_def)
  ultimately show ?thesis
  proof (cases parms)
    case Nil
    with \<open>std_find (url_text path parms) '':'' 0 = None\<close> q show ?thesis
      using find_sub_absent [of "CHR ''?''" path "[]"] by (simp add: unpackPath_def url_text_def)
  next
    case (Cons p ps)
    let ?str = "url_text path parms"
    have str: "?str = path @ CHR ''?'' # param_text p @ more_params ps"
      by (simp add: url_text_def Cons)
    have "std_find ?str ''?'' 0 = Some (length path)"
      using find_sub_skip [OF q, of "[]" "''?'' @ param_text p @ more_params ps"] by (simp add: str)
    moreover have "unpack_params ?str (length path) [] = fold (\<lambda>(k, v). map_set k v) (p # ps) []"
      using assms by (intro unpack_more_params [OF str])
        (auto simp: Cons url_ok_def param_ok_def plain_def)
    moreover have "fold (\<lambda>(k, v). map_set k v) (p # ps) [] = parms"
      using assms fold_map_set [of "[]" parms] by (simp add: url_ok_def Cons)
    moreover have "take (length path) ?str = path" by (simp add: str)
    ultimately show ?thesis
      using \<open>std_find ?str '':'' 0 = None\<close> by (simp add: unpackPath_def)
  qed
qed

lemma StrToMethon_toStr [simp]: "m \<noteq> Invalid \<Longrightarrow> StrToMethon (MethonToStr m) = m"
  by (cases m) (simp_all add: StrToMethon_def MethonToStr_def)

lemma MethonToStr_plain: "m \<noteq> Invalid \<Longrightarrow> MethonToStr m \<noteq> [] \<and> plain {CHR '' ''} (MethonToStr m)"
  by (cases m) (simp_all add: MethonToStr_def plain_def)

lemma HttpVersionToStr_plain: "v \<noteq> Unknown \<Longrightarrow> HttpVersionToStr v \<noteq> [] \<and> plain {CHR '' ''} (HttpVersionToStr v)"
  by (cases v) (simp_all add: HttpVersionToStr_def plain_def)

lemma unpackUrl_first_line:
  assumes "m \<noteq> Invalid" and "v \<noteq> Unknown" and "url_ok path parms"
  shows "unpackUrl (MethonToStr m @ '' '' @ url_text path parms @ '' '' @ HttpVersionToStr v) r
    = (0, r\<lparr>req_methon := m, req_path := path, req_urlParms := parms, req_version := v\<rparr>)"
proof -
  have "SplitStrOfSpace (MethonToStr m @ '' '' @ url_text path parms @ '' '' @ HttpVersionToStr v) []
      = (0, [MethonToStr m, url_text path parms, HttpVersionToStr v])"
    using assms MethonToStr_plain [of m] url_text_plain [of path parms] HttpVersionToStr_plain [of v]
    by (intro SplitStrOfSpace_words) (auto simp: plain_def)
  then show ?thesis
    using assms by (simp add: unpackUrl_def Let_def unpackPath_url GetHttpVersion_toStr)
qed

text \<open>Header lines.\<close>

abbreviation head_line :: "string \<times> string \<Rightarrow> string" where
  "head_line kv \<equiv> fst kv @ '': '' @ snd kv"

lemma pack_heads_lines: "l @ Crlf @ pack_heads heads = l @ more_lines (map head_line heads) @ Crlf"
proof -
  have "Crlf @ pack_heads heads = more_lines (map head_line heads) @ Crlf"
  proof (induction heads)
    case (Cons kv heads)
    have "pack_heads (kv # heads) = head_line kv @ Crlf @ pack_heads heads"
      by (cases kv) (simp add: pack_heads_def)
    with Cons show ?case by simp
  qed (simp add: pack_heads_def)
  then show ?thesis by simp
qed

lemma head_lines_ok:
  assumes "heads_ok heads"
  shows "\<forall>l\<in>set (map head_line heads). line l \<and> l \<noteq> []"
  using assms by (auto simp: heads_ok_def plain_def line_def)

lemma append_head_lines:
  assumes "heads_ok heads"
  shows "append_heads (map head_line heads) m = (True, fold (\<lambda>(k, v). map_set k v) heads m)"
proof -
  have "\<forall>(k, v)\<in>set heads. CHR '':'' \<notin> set k" using assms by (auto simp: heads_ok_def plain_def)
  then show ?thesis
  proof (induction heads arbitrary: m)
    case (Cons kv heads)
    obtain k v where kv: "kv = (k, v)" by (cases kv)
    with Cons AppendHead_line [of k v m] show ?case by simp
  qed simp
qed

lemma body_from_end:
  assumes "length (xs @ Crlf @ Crlf @ body) < 2 ^ 31"
  shows "body_from (xs @ Crlf @ Crlf @ body) (c_int (length xs)) = Some body"
proof -
  have n: "nat (int (length xs) + 4) = length xs + 4" by simp
  have len: "length xs + 4 \<le> length (xs @ Crlf @ Crlf @ body)" by (simp add: Crlf_def)
  have "length xs + 4 < 2 ^ 31" using assms len by linarith
  then have i: "c_int (length xs) = int (length xs)" and b: "int (length xs) + 4 < 2 ^ 31"
    by simp_all
  have "drop (length xs + 4) (xs @ Crlf @ Crlf @ body) = body" by (simp add: Crlf_def)
  then show ?thesis unfolding body_from_def i n substr_from_def using len b by simp
qed

lemma req_unpack_pack:
  assumes "req_ok r"
  shows "req_unpack (snd (req_pack r)) r0
    = Some (Success, r0\<lparr>req_version := req_version r, req_methon := req_methon r,
        req_path := req_path r, req_urlParms := req_urlParms r,
        req_heads := fold (\<lambda>(k, v). map_set k v) (req_heads r) (req_heads r0),
        req_content := req_content r\<rparr>)"
proof -
  let ?l = "MethonToStr (req_methon r) @ '' '' @ url_text (req_path r) (req_urlParms r) @ '' ''
      @ HttpVersionToStr (req_version r)"
  let ?ls = "map head_line (req_heads r)"
  have ok: "req_methon r \<noteq> Invalid" "req_version r \<noteq> Unknown"
    "url_ok (req_path r) (req_urlParms r)" "heads_ok (req_heads r)"
    using assms by (simp_all add: req_ok_def)
  have data: "snd (req_pack r) = ?l @ more_lines ?ls @ Crlf @ Crlf @ req_content r"
    using ok(3) pack_heads_lines [of ?l "req_heads r"]
    by (simp add: req_pack_def packPathParam_url url_ok_def Let_def)
  have l: "line ?l" "?l \<noteq> []"
    using MethonToStr_plain [OF ok(1)] url_text_plain [OF ok(3)] HttpVersionToStr_plain [OF ok(2)]
    by (auto simp: line_def plain_def)
  have "SplitHttpOfCRLF (snd (req_pack r)) [] = Some (c_int (length (?l @ more_lines ?ls)), ?l # ?ls)"
    unfolding data by (rule SplitHttpOfCRLF_lines [OF l head_lines_ok [OF ok(4)]])
  moreover have "length (snd (req_pack r)) < 2 ^ 31" using assms by (simp add: req_ok_def)
  then have "body_from (snd (req_pack r)) (c_int (length (?l @ more_lines ?ls))) = Some (req_content r)"
    and "c_int (length (?l @ more_lines ?ls)) \<noteq> -1"
    using body_from_end [of "?l @ more_lines ?ls" "req_content r"] unfolding data by simp_all
  ultimately show ?thesis
    using unpackUrl_first_line [OF ok(1-3)] append_head_lines [OF ok(4)]
    by (simp add: req_unpack_def)
qed

lemma stoi_length:
  assumes "n < 2 ^ 31"
  shows "stoi 10 (std_to_string (int n)) = Some (int n)"
  using stoi_to_base [of 10 n "[]" "[]"] assms by (simp add: std_to_string_def starts_digit_def)

lemma length_matches_nat:
  assumes "n < 2 ^ 31" and "length content < 2 ^ 31"
  shows "length_matches (int n) content \<longleftrightarrow> n = length content"
proof -
  have "(word_of_int (int n) :: uint64) = word_of_nat n" by simp
  moreover have "(word_of_nat n :: uint64) = word_of_nat (length content) \<longleftrightarrow> n = length content"
    using assms by (simp add: word_of_nat_eq_iff take_bit_nat_eq_self)
  ultimately show ?thesis unfolding length_matches_def by metis
qed

text \<open>Parsing is defined on every message that does not start with the end of a head.\<close>

lemma body_from_Some:
  "i + 4 \<le> length data \<Longrightarrow> length data < 2 ^ 31 \<Longrightarrow> body_from data (int i) = Some (drop (i + 4) data)"
proof -
  assume "i + 4 \<le> length data" "length data < 2 ^ 31"
  moreover have "nat (int i + 4) = i + 4" by simp
  ultimately show ?thesis by (simp add: body_from_def)
qed

lemma find_sub_take4: "take 4 data = Crlf @ Crlf \<Longrightarrow> find_sub (Crlf @ Crlf) data = Some 0"
  by (intro find_sub_prefix) simp

lemma req_complete:
  assumes "req_ok r"
    and "content_length (req_heads r) \<in> {None, Some (std_to_string (int (length (req_content r))))}"
  shows "req_unpackAndCompleted (snd (req_pack r)) Request_default
    = Some (Success, r\<lparr>req_value := []\<rparr>)"
proof -
  have heads: "fold (\<lambda>(k, v). map_set k v) (req_heads r) [] = req_heads r"
    using assms(1) fold_map_set [of "[]" "req_heads r"] by (simp add: req_ok_def heads_ok_def)
  have "req_unpack (snd (req_pack r)) Request_default = Some (Success, r\<lparr>req_value := []\<rparr>)"
    using req_unpack_pack [OF assms(1), of Request_default] heads
    by (simp add: Request_default_def Request_new_def)
  moreover have "length (req_content r) < 2 ^ 31"
    using assms(1) by (simp add: req_ok_def req_pack_def Let_def)
  then have "stoi 10 (std_to_string (int (length (req_content r)))) = Some (int (length (req_content r)))"
    by (rule stoi_length)
  ultimately show ?thesis
    using assms(2) by (auto simp: req_unpackAndCompleted_def length_matches_def)
qed

text \<open>
  A text that the server can take for one request: it parses as one, and the end of the body can be
  told, by a \<open>Content-Length\<close> that is a number, or there is no body. While it has not arrived in
  full it is incomplete.
\<close>

definition request_text :: "string \<Rightarrow> Request \<Rightarrow> bool" where
  "request_text data r \<longleftrightarrow> length data < 2 ^ 31 \<and> req_unpackAndCompleted data Request_default = Some (Success, r)
     \<and> (req_content r = [] \<or> (case content_length (req_heads r) of Some v \<Rightarrow> stoi 10 v \<noteq> None | None \<Rightarrow> False))"

lemma req_unpack_keep:
  assumes "req_unpack data r0 = Some (Success, r)" and "length data < 2 ^ 31"
    and "find_sub (Crlf @ Crlf) data = Some i" and "i + 4 \<le> n"
  shows "req_unpack (take n data) r0 = Some (Success, r\<lparr>req_content := take (n - (i + 4)) (drop (i + 4) data)\<rparr>)"
    and "req_content r = drop (i + 4) data"
proof -
  have i: "i + 4 \<le> length data" using find_sub_bound [OF assms(3)] by (simp add: Crlf_def)
  obtain ls where ls: "SplitHttpOfCRLF data [] = Some (int i, ls)"
    using split_lines_total [of data i 0 "[]"] assms(2,3) i by (auto simp: SplitHttpOfCRLF_def)
  then have cut: "SplitHttpOfCRLF (take n data) [] = Some (int i, ls)"
    using split_keep [OF assms(3,4)] by simp
  have body: "body_from data (int i) = Some (drop (i + 4) data)"
    "body_from (take n data) (int i) = Some (take (n - (i + 4)) (drop (i + 4) data))"
    using body_from_Some [of i data] body_from_Some [of i "take n data"] i assms(2,4) by (simp_all add: drop_take)
  have "index_at ls 0 \<noteq> None" using assms(1) ls by (cases "index_at ls 0") (auto simp: req_unpack_def)
  then obtain l where l: "index_at ls 0 = Some l" by blast
  obtain e r1 where url: "unpackUrl l r0 = (e, r1)" by fastforce
  obtain ok heads where heads: "append_heads (tl ls) (req_heads r1) = (ok, heads)" by fastforce
  show "req_unpack (take n data) r0 = Some (Success, r\<lparr>req_content := take (n - (i + 4)) (drop (i + 4) data)\<rparr>)"
    and "req_content r = drop (i + 4) data"
    using assms(1) unfolding req_unpack_def ls cut
    by (auto simp: body Let_def l url heads split: if_splits)
qed

lemma request_text_cut:
  assumes "request_text data r" and "n < length data"
  shows "\<exists>r'. req_unpackAndCompleted (take n data) Request_default = Some (Fail, r')"
proof -
  have short: "length data < 2 ^ 31" and whole: "req_unpackAndCompleted data Request_default = Some (Success, r)"
    using assms(1) by (simp_all add: request_text_def)
  from whole have unpack: "req_unpack data Request_default = Some (Success, r)"
    by (auto simp: req_unpackAndCompleted_def bind_eq_Some_conv split: option.splits if_splits prod.splits)
  then have "find_sub (Crlf @ Crlf) data \<noteq> None" by (cases "find_sub (Crlf @ Crlf) data") (simp_all add: req_unpack_def SplitHttpOfCRLF_def)
  then obtain i where i: "find_sub (Crlf @ Crlf) data = Some i" by blast
  show ?thesis
  proof (cases "n < i + 4")
    case True
    have "SplitHttpOfCRLF (take n data) [] = Some (-1, [])" by (rule split_cut [OF i True])
    then show ?thesis by (simp add: req_unpackAndCompleted_def req_unpack_def)
  next
    case False
    let ?x = "take (n - (i + 4)) (drop (i + 4) data)"
    have keep: "req_unpack (take n data) Request_default = Some (Success, r\<lparr>req_content := ?x\<rparr>)"
      and content: "req_content r = drop (i + 4) data"
      using req_unpack_keep [OF unpack short i, of n] False by simp_all
    have less: "length ?x < length (req_content r)" "length (req_content r) < 2 ^ 31"
      using False assms(2) short by (simp_all add: content)
    then have "req_content r \<noteq> []" by auto
    then obtain v k where v: "content_length (req_heads r) = Some v" "stoi 10 v = Some k"
      using assms(1) by (auto simp: request_text_def split: option.splits)
    have "length_matches k (req_content r)"
      using whole unpack v by (auto simp: req_unpackAndCompleted_def split: if_splits)
    then have "\<not> length_matches k ?x"
      using less by (auto simp: length_matches_def word_of_nat_eq_iff take_bit_nat_eq_self simp del: length_take)
    then show ?thesis using keep v by (simp add: req_unpackAndCompleted_def)
  qed
qed

lemma request_text_pack:
  assumes "req_ok r" and "req_framed r"
  shows "request_text (snd (req_pack r)) (r\<lparr>req_value := []\<rparr>)"
proof -
  have "length (snd (req_pack r)) < 2 ^ 31" using assms(1) by (simp add: req_ok_def)
  moreover from this have "length (req_content r) < 2 ^ 31" by (simp add: req_pack_def Let_def)
  ultimately show ?thesis
    using assms req_complete [OF assms(1)] stoi_length by (auto simp: request_text_def req_framed_def)
qed

section \<open>Properties\<close>

text \<open>C7: packing a well-formed request and parsing the message gives the request back: method, version, path,
  parameters, headers and body, whatever the body holds; the \<open>Content-Length\<close> header is absent or says the
  body's length. Well-formed (\<open>req_ok\<close>) is a request with a known method and version; a path that starts with
  '/' and has no space, ':' or '?'; parameters and headers that are in the order of a \<open>std::map\<close>, with no space
  or ':' in a parameter, no '=' in its name and no '&' in its value, and no ':' in the name of a header; no
  carriage return in any of these; and a message of less than 2 GiB. \<open>unpackPath_colon\<close>, below, shows what a
  ':' in the target does. Only the route value, which is not sent, is not kept.\<close>

theorem request_roundtrip:
  assumes "req_ok r"
    and "content_length (req_heads r) \<in> {None, Some (std_to_string (int (length (req_content r))))}"
  shows "req_unpackAndCompleted (snd (req_pack r)) Request_default
    = Some (Success, r\<lparr>req_value := []\<rparr>)"
  using assms by (rule req_complete)

definition example_request :: Request where
  "example_request = (Request_new Http1_1 Post)\<lparr>req_path := ''/sum'',
     req_urlParms := [(''a'', ''1''), (''b'', ''x=2'')],
     req_heads := [(''Content-Length'', ''5''), (''Host'', ''uv'')], req_content := ''he'' @ Crlf @ ''o''\<rparr>"

theorem request_roundtrip_witness:
  "req_unpackAndCompleted (snd (req_pack example_request)) Request_default
    = Some (Success, example_request)"
proof -
  have "length (snd (req_pack example_request)) < 100" by code_simp
  moreover have "url_ok (req_path example_request) (req_urlParms example_request)" by code_simp
  moreover have "heads_ok (req_heads example_request)" by code_simp
  ultimately have "req_ok example_request"
    by (simp add: req_ok_def) (simp add: example_request_def Request_new_def)
  moreover have "content_length (req_heads example_request)
      = Some (std_to_string (int (length (req_content example_request))))" by code_simp
  ultimately have "req_unpackAndCompleted (snd (req_pack example_request)) Request_default
      = Some (Success, example_request\<lparr>req_value := []\<rparr>)"
    by (intro request_roundtrip) simp_all
  then show ?thesis by (simp add: example_request_def Request_new_def)
qed

text \<open>C29: parsing ends on every message of less than 2 GiB and is defined, with one exception: a
  message that starts with an empty head makes \<open>unpack\<close> read the first element of an empty vector.\<close>

theorem req_unpack_defined:
  assumes "length data < 2 ^ 31"
  shows "req_unpackAndCompleted data r = None \<longleftrightarrow> take 4 data = Crlf @ Crlf"
proof -
  have "req_unpack data r = None \<longleftrightarrow> take 4 data = Crlf @ Crlf"
    using assms
  proof (cases rule: SplitHttpOfCRLF_cases)
    case none
    then have "take 4 data \<noteq> Crlf @ Crlf" using find_sub_take4 [of data] by auto
    with none show ?thesis by (simp add: req_unpack_def)
  next
    case empty
    then show ?thesis by (simp add: req_unpack_def)
  next
    case (lines i l ls)
    then have "take 4 data \<noteq> Crlf @ Crlf" using find_sub_take4 [of data] by auto
    with lines body_from_Some [OF lines(4) assms] show ?thesis
      by (auto simp: req_unpack_def index_at_def Let_def split: prod.split)
  qed
  moreover have "req_unpackAndCompleted data r = None \<longleftrightarrow> req_unpack data r = None"
    by (cases "req_unpack data r") (auto simp: req_unpackAndCompleted_def split: option.splits)
  ultimately show ?thesis by simp
qed

theorem req_unpack_defined_witness:
  "req_unpackAndCompleted (Crlf @ Crlf @ ''x'') Request_default = None
    \<and> req_unpackAndCompleted ''GET / HTTP/1.1'' Request_default \<noteq> None"
  using req_unpack_defined [of "Crlf @ Crlf @ ''x''" Request_default]
    req_unpack_defined [of "''GET / HTTP/1.1''" Request_default]
  by (simp add: Crlf_def)

text \<open>A colon anywhere in the target is taken for the start of a route value: the query is not
  parsed, and the path keeps it.\<close>

theorem unpackPath_colon:
  assumes "CHR '':'' \<notin> set p"
  shows "unpackPath (p @ '':'' @ v) r = (0, r\<lparr>req_urlParms := [], req_path := p @ '':'', req_value := v\<rparr>)"
  using find_sub_skip [OF assms, of "[]" "'':'' @ v"] by (simp add: unpackPath_def)

theorem unpackPath_colon_witness:
  "req_path (snd (unpackPath ''/alarm?at=12:30'' Request_default)) = ''/alarm?at=12:''
    \<and> getUrlParam ''at'' (snd (unpackPath ''/alarm?at=12:30'' Request_default)) = ''''"
  using unpackPath_colon [of "''/alarm?at=12''" "''30''" Request_default]
  by (simp add: getUrlParam_def map_get_def)

end
