(* ===== verification/Response.thy ===== *)
theory Response
  imports Request "HOL-Library.Sublist"
begin

text \<open>
  HTTP responses (\<open>uv/http/Response.cpp\<close>): accessors, packing, parsing, and the test whether a
  body is complete, by its \<open>Content-Length\<close> or chunk by chunk. The header loops are those of
  \<open>Request\<close>. Running out of memory is not modelled.
\<close>

section \<open>State\<close>

datatype StatusCode =
  OK | BadRequest | Unauthorized | Forbidden | NotFound | InternalServerError | ServerUnavailable

fun code_int :: "StatusCode \<Rightarrow> int" where
  "code_int OK = 200"
| "code_int BadRequest = 400"
| "code_int Unauthorized = 401"
| "code_int Forbidden = 403"
| "code_int NotFound = 404"
| "code_int InternalServerError = 500"
| "code_int ServerUnavailable = 503"

text \<open>The field of the enum type holds whatever \<open>int\<close> a message gives.\<close>

record Response =
  resp_version :: HttpVersion
  statusCode :: int
  statusInfo :: string
  resp_heads :: "(string \<times> string) list"
  resp_content :: string

definition Response_new :: "HttpVersion \<Rightarrow> int \<Rightarrow> Response" where
  "Response_new version code =
     \<lparr>resp_version = version, statusCode = code, statusInfo = [], resp_heads = [], resp_content = []\<rparr>"

definition Response_default :: Response where
  "Response_default = Response_new Http1_1 (code_int OK)"

section \<open>Accessors\<close>

definition resp_setVersion :: "HttpVersion \<Rightarrow> Response \<Rightarrow> Response" where
  "resp_setVersion version r = r\<lparr>resp_version := version\<rparr>"

definition setStatus :: "int \<Rightarrow> string \<Rightarrow> Response \<Rightarrow> Response" where
  "setStatus code info r = r\<lparr>statusCode := code, statusInfo := info\<rparr>"

definition resp_getVersion :: "Response \<Rightarrow> HttpVersion" where
  "resp_getVersion r = resp_version r"

definition getStatusCode :: "Response \<Rightarrow> int" where
  "getStatusCode r = statusCode r"

definition getStatusInfo :: "Response \<Rightarrow> string" where
  "getStatusInfo r = statusInfo r"

definition resp_appendHead :: "string \<Rightarrow> string \<Rightarrow> Response \<Rightarrow> Response" where
  "resp_appendHead key val r = r\<lparr>resp_heads := map_set key val (resp_heads r)\<rparr>"

definition resp_getHead :: "string \<Rightarrow> Response \<Rightarrow> string" where
  "resp_getHead key r = (case map_get (resp_heads r) key of None \<Rightarrow> '''' | Some v \<Rightarrow> v)"

definition resp_swapContent :: "string \<Rightarrow> Response \<Rightarrow> Response \<times> string" where
  "resp_swapContent body r = (r\<lparr>resp_content := body\<rparr>, resp_content r)"

definition resp_getContent :: "Response \<Rightarrow> string" where
  "resp_getContent r = resp_content r"

section \<open>Packing and parsing\<close>

definition resp_pack :: "Response \<Rightarrow> int \<times> string" where
  "resp_pack r =
     (let data = HttpVersionToStr (resp_version r) @ '' '' @ std_to_string (statusCode r) @ '' ''
        @ statusInfo r @ Crlf
      in (0, data @ pack_heads (resp_heads r) @ Crlf @ resp_content r))"

text \<open>
  The status is kept as the \<open>int\<close> that \<open>stoi\<close> gives; the C++ stores it in an enumeration, whose value is
  unspecified for numbers beyond its range of 0 to 511.
\<close>

definition parseStatus :: "string \<Rightarrow> Response \<Rightarrow> int \<times> Response" where
  "parseStatus str r =
     (case snd (SplitStrOfSpace str []) of
        [v, code, info] \<Rightarrow>
          let r = r\<lparr>resp_version := GetHttpVersion v\<rparr>
          in (case stoi 10 code of
                Some n \<Rightarrow> (0, r\<lparr>statusCode := n, statusInfo := info\<rparr>)
              | None \<Rightarrow> (-1, r))
      | _ \<Rightarrow> (-1, r))"

definition resp_unpack :: "string \<Rightarrow> Response \<Rightarrow> (ParseResult \<times> Response) option" where
  "resp_unpack data r =
     do {
       (pos, headList) \<leftarrow> SplitHttpOfCRLF data [];
       if pos = -1 then Some (Fail, r)
       else
         do {
           first \<leftarrow> index_at headList 0;
           let (rst, r) = parseStatus first r;
           if rst \<noteq> 0 then Some (ParseError, r)
           else
             (case append_heads (tl headList) (resp_heads r) of (ok, heads) \<Rightarrow>
                let r = r\<lparr>resp_heads := heads\<rparr>
                in if \<not> ok then Some (ParseError, r)
                   else map_option (\<lambda>content. (Success, r\<lparr>resp_content := content\<rparr>))
                          (body_from data pos))
         }
     }"

text \<open>
  One round of the chunk loop. \<open>p1\<close> is before the line with the chunk's size, at the line end of the
  chunk before; the size is an \<open>int\<close> converted to \<open>uint64_t\<close>. The result is the parse result, with
  the joined chunks when the last chunk has been seen.
\<close>

definition chunk_round ::
  "string \<Rightarrow> nat \<times> string \<Rightarrow> ((nat \<times> string) + (ParseResult \<times> string option)) option"
where
  "chunk_round content = (\<lambda>(p1, temp).
     case std_find content Crlf (p1 + 1) of
       None \<Rightarrow> Some (Inr (Fail, None))
     | Some p2 \<Rightarrow>
         (case stoi 16 (take (p2 - p1) (drop p1 content)) of
            None \<Rightarrow> Some (Inr (ParseError, None))
          | Some n \<Rightarrow>
              let num = word_of_int n :: uint64
              in if num = 0 then Some (Inr (Success, Some temp))
                 else
                   let p1' = unat (word_of_nat (p2 + 2) + num)
                   in if length content < p1' then Some (Inr (Fail, None))
                      else Some (Inl (p1', temp @ take (unat num) (drop (p2 + 2) content)))))"

definition isCompletedChunked :: "Response \<Rightarrow> (ParseResult \<times> Response) option" where
  "isCompletedChunked r =
     (case endless (chunk_round (resp_content r)) (0, []) of
        None \<Rightarrow> None
      | Some (rst, Some temp) \<Rightarrow> Some (rst, r\<lparr>resp_content := temp\<rparr>)
      | Some (rst, None) \<Rightarrow> Some (rst, r))"

definition resp_unpackAndCompleted :: "string \<Rightarrow> Response \<Rightarrow> (ParseResult \<times> Response) option" where
  "resp_unpackAndCompleted data r =
     do {
       (rst, r) \<leftarrow> resp_unpack data r;
       if rst = Success
       then
         (case content_length (resp_heads r) of
            Some v \<Rightarrow>
              (case stoi 10 v of
                 Some n \<Rightarrow> Some (if length_matches n (resp_content r) then Success else Fail, r)
               | None \<Rightarrow> Some (Fail, r))
          | None \<Rightarrow>
              if map_get (resp_heads r) ''Transfer-Encoding'' = Some ''chunked''
              then isCompletedChunked r
              else Some (Fail, r))
       else Some (Fail, r)
     }"

section \<open>Round trip\<close>

definition resp_ok :: "Response \<Rightarrow> bool" where
  "resp_ok r \<longleftrightarrow> resp_version r \<noteq> Unknown \<and> 0 \<le> statusCode r \<and> statusCode r < 2 ^ 31
     \<and> statusInfo r \<noteq> [] \<and> plain {} (statusInfo r) \<and> heads_ok (resp_heads r)
     \<and> length (snd (resp_pack r)) < 2 ^ 31"

lemma to_string_plain:
  assumes "0 \<le> n"
  shows "std_to_string n \<noteq> [] \<and> plain {CHR '' ''} (std_to_string n)"
proof -
  have "c \<noteq> CHR '' '' \<and> c \<noteq> CHR 0x0D" if c: "c \<in> set (to_base 10 (nat n))" for c
  proof -
    obtain d where "d < 10" "c = digit_char d" using to_base_digits [of 10 c "nat n"] c by auto
    then show ?thesis using digit_char_plain(1) [of d] by (auto simp: isspace_def)
  qed
  then show ?thesis using assms by (auto simp: std_to_string_def plain_def)
qed

lemma parseStatus_line:
  assumes "v \<noteq> Unknown" and "0 \<le> n" and "n < 2 ^ 31" and "info \<noteq> []"
  shows "parseStatus (HttpVersionToStr v @ '' '' @ std_to_string n @ '' '' @ info) r
    = (0, r\<lparr>resp_version := v, statusCode := n, statusInfo := info\<rparr>)"
proof -
  have "SplitStrOfSpace (HttpVersionToStr v @ '' '' @ std_to_string n @ '' '' @ info) []
      = (0, [HttpVersionToStr v, std_to_string n, info])"
    using assms HttpVersionToStr_plain [of v] to_string_plain [of n]
    by (intro SplitStrOfSpace_words) (auto simp: plain_def)
  moreover have "stoi 10 (std_to_string n) = Some n"
    using stoi_to_base [of 10 "nat n" "[]" "[]"] assms(2,3)
    by (simp add: std_to_string_def starts_digit_def)
  ultimately show ?thesis
    using assms(1) by (simp add: parseStatus_def GetHttpVersion_toStr)
qed

lemma resp_pack_lines:
  "snd (resp_pack r) = (HttpVersionToStr (resp_version r) @ '' '' @ std_to_string (statusCode r) @ '' ''
      @ statusInfo r) @ more_lines (map head_line (resp_heads r)) @ Crlf @ Crlf @ resp_content r"
  using pack_heads_lines [of "HttpVersionToStr (resp_version r) @ '' '' @ std_to_string (statusCode r) @ '' ''
      @ statusInfo r" "resp_heads r"]
  by (simp add: resp_pack_def Let_def)

lemma status_line_ok:
  assumes "resp_version r \<noteq> Unknown" and "0 \<le> statusCode r" and "plain {} (statusInfo r)"
  shows "line (HttpVersionToStr (resp_version r) @ '' '' @ std_to_string (statusCode r) @ '' '' @ statusInfo r)"
  using assms HttpVersionToStr_plain [of "resp_version r"] to_string_plain [of "statusCode r"]
  by (auto simp: line_def plain_def)

lemma resp_split:
  assumes "resp_version r \<noteq> Unknown" and "0 \<le> statusCode r" and "plain {} (statusInfo r)"
    and "heads_ok (resp_heads r)" and "length (snd (resp_pack r)) < 2 ^ 31"
  shows "\<exists>pos. SplitHttpOfCRLF (snd (resp_pack r)) []
      = Some (pos, (HttpVersionToStr (resp_version r) @ '' '' @ std_to_string (statusCode r) @ '' ''
          @ statusInfo r) # map head_line (resp_heads r))
    \<and> pos \<noteq> -1 \<and> body_from (snd (resp_pack r)) pos = Some (resp_content r)"
proof -
  let ?l = "HttpVersionToStr (resp_version r) @ '' '' @ std_to_string (statusCode r) @ '' '' @ statusInfo r"
  let ?xs = "?l @ more_lines (map head_line (resp_heads r))"
  have "SplitHttpOfCRLF (snd (resp_pack r)) [] = Some (c_int (length ?xs), ?l # map head_line (resp_heads r))"
    unfolding resp_pack_lines using status_line_ok [OF assms(1-3)] head_lines_ok [OF assms(4)]
    by (intro SplitHttpOfCRLF_lines) auto
  moreover have "body_from (snd (resp_pack r)) (c_int (length ?xs)) = Some (resp_content r)"
    and "c_int (length ?xs) \<noteq> -1"
    using body_from_end [of ?xs "resp_content r"] assms(5) unfolding resp_pack_lines by simp_all
  ultimately show ?thesis by blast
qed

lemma resp_unpack_pack:
  assumes "resp_ok r"
  shows "resp_unpack (snd (resp_pack r)) r0
    = Some (Success, r0\<lparr>resp_version := resp_version r, statusCode := statusCode r,
        statusInfo := statusInfo r,
        resp_heads := fold (\<lambda>(k, v). map_set k v) (resp_heads r) (resp_heads r0),
        resp_content := resp_content r\<rparr>)"
proof -
  have ok: "resp_version r \<noteq> Unknown" "0 \<le> statusCode r" "statusCode r < 2 ^ 31" "statusInfo r \<noteq> []"
    "plain {} (statusInfo r)" "heads_ok (resp_heads r)" "length (snd (resp_pack r)) < 2 ^ 31"
    using assms by (simp_all add: resp_ok_def)
  from resp_split [OF ok(1,2,5-7)] obtain pos
    where "SplitHttpOfCRLF (snd (resp_pack r)) []
      = Some (pos, (HttpVersionToStr (resp_version r) @ '' '' @ std_to_string (statusCode r) @ '' ''
          @ statusInfo r) # map head_line (resp_heads r))"
      and "pos \<noteq> -1" and "body_from (snd (resp_pack r)) pos = Some (resp_content r)" by blast
  then show ?thesis
    using parseStatus_line [OF ok(1-4)] append_head_lines [OF ok(6)]
    by (simp add: resp_unpack_def index_at_def)
qed

text \<open>A response with a \<open>Content-Length\<close> that has not arrived in full.\<close>

definition resp_framed :: "Response \<Rightarrow> bool" where
  "resp_framed r \<longleftrightarrow> content_length (resp_heads r) = Some (std_to_string (int (length (resp_content r))))"

text \<open>Only the end of the connection ends a message without a length and without chunks.\<close>

definition resp_open :: "Response \<Rightarrow> bool" where
  "resp_open r \<longleftrightarrow> content_length (resp_heads r) = None
     \<and> map_get (resp_heads r) ''Transfer-Encoding'' \<noteq> Some ''chunked''"

lemma resp_incomplete:
  assumes "resp_ok r" and "resp_framed r \<and> n < length (snd (resp_pack r)) \<or> resp_open r"
  shows "\<exists>r'. resp_unpackAndCompleted (take n (snd (resp_pack r))) Response_default = Some (Fail, r')"
proof -
  let ?l = "HttpVersionToStr (resp_version r) @ '' '' @ std_to_string (statusCode r) @ '' '' @ statusInfo r"
  define h where "h = ?l @ more_lines (map head_line (resp_heads r))"
  have h: "snd (resp_pack (r\<lparr>resp_content := x\<rparr>)) = h @ Crlf @ Crlf @ x" for x
    unfolding resp_pack_lines h_def by simp
  have data: "snd (resp_pack r) = h @ Crlf @ Crlf @ resp_content r" using h [of "resp_content r"] by simp
  have "line ?l" "heads_ok (resp_heads r)"
    using assms(1) status_line_ok [of r] by (simp_all add: resp_ok_def)
  then have find: "find_sub (Crlf @ Crlf) (h @ Crlf @ Crlf @ x) = Some (length h)" for x
    using find_body [of ?l "map head_line (resp_heads r)" x] head_lines_ok [of "resp_heads r"]
    by (simp add: h_def)
  show ?thesis
  proof (cases "n < length h + 4")
    case True
    have "SplitHttpOfCRLF (take n (snd (resp_pack r))) [] = Some (-1, [])"
      unfolding data by (rule split_cut [OF find True])
    then show ?thesis by (simp add: resp_unpackAndCompleted_def resp_unpack_def)
  next
    case False
    then obtain m where n: "n = length h + 4 + m" using le_Suc_ex not_less by metis
    define x where "x = take m (resp_content r)"
    let ?r = "r\<lparr>resp_content := x\<rparr>"
    have cut: "take n (snd (resp_pack r)) = snd (resp_pack ?r)"
      unfolding h data x_def n by simp
    have len: "length x \<le> length (resp_content r)" "length (resp_content r) < 2 ^ 31"
      using assms(1) by (simp_all add: data x_def resp_ok_def)
    have short: "resp_framed r \<Longrightarrow> \<not> resp_open r" "\<not> resp_open r \<Longrightarrow> length x < length (resp_content r)"
      using assms by (auto simp: data x_def n resp_framed_def resp_open_def)
    have "resp_ok ?r" using assms(1) len unfolding resp_ok_def h data by simp
    moreover have "fold (\<lambda>(k, v). map_set k v) (resp_heads r) [] = resp_heads r"
      using assms(1) fold_map_set [of "[]" "resp_heads r"] by (simp add: resp_ok_def heads_ok_def)
    ultimately obtain r' where "resp_unpack (snd (resp_pack ?r)) Response_default = Some (Success, r')"
      "resp_heads r' = resp_heads r" "resp_content r' = x"
      using resp_unpack_pack [of ?r Response_default] by (simp add: Response_default_def Response_new_def)
    then show ?thesis
      unfolding cut using assms(2) len short stoi_length [OF len(2)]
      by (auto simp: resp_framed_def resp_open_def resp_unpackAndCompleted_def length_matches_nat)
  qed
qed

section \<open>Chunks\<close>

text \<open>The chunked form of a body: every chunk behind its size in hexadecimal.\<close>

definition chunk_head :: "string \<Rightarrow> string" where
  "chunk_head c = to_base 16 (length c) @ Crlf"

definition chunks_text :: "string list \<Rightarrow> string" where
  "chunks_text cs = concat (map (\<lambda>c. chunk_head c @ c @ Crlf) cs) @ ''0'' @ Crlf"

definition chunks_ok :: "string list \<Rightarrow> bool" where
  "chunks_ok cs \<longleftrightarrow> (\<forall>c\<in>set cs. c \<noteq> [] \<and> length c < 2 ^ 31)"

lemma chunks_text_simps:
  "chunks_text [] = to_base 16 0 @ Crlf"
  "chunks_text (c # cs) = to_base 16 (length c) @ Crlf @ c @ Crlf @ chunks_text cs"
  by (simp_all add: chunks_text_def chunk_head_def to_base.simps digit_char_def)

lemma line_digits: "line (to_base 16 n)"
proof -
  have "c \<noteq> CHR 0x0D" if c: "c \<in> set (to_base 16 n)" for c
  proof -
    obtain d where "d < 16" "c = digit_char d" using to_base_digits [of 16 c n] c by auto
    then show ?thesis using digit_char_plain(1) [of d] by (auto simp: isspace_def)
  qed
  then show ?thesis by (auto simp: line_def)
qed

text \<open>The line with the size: behind the line end of the chunk before, or at the start.\<close>

lemma chunk_size_line:
  assumes "sep \<in> {[], Crlf}" and "length xs = p1" and "n < 2 ^ 31"
    and "content = xs @ sep @ to_base 16 n @ Crlf @ rest"
  shows "std_find content Crlf (p1 + 1) = Some (p1 + length sep + length (to_base 16 n))"
    and "stoi 16 (take (length sep + length (to_base 16 n)) (drop p1 content)) = Some (int n)"
proof -
  obtain d ds where ds: "to_base 16 n = d # ds" by (cases "to_base 16 n") auto
  have l: "line ds" "line (CHR 0x0A # to_base 16 n)"
    using line_digits [of n] by (simp_all add: line_def ds)
  show "std_find content Crlf (p1 + 1) = Some (p1 + length sep + length (to_base 16 n))"
  proof (cases "sep = []")
    case True
    then show ?thesis
      using std_find_app [of "xs @ [d]" "p1 + 1" "ds @ Crlf @ rest" Crlf] find_Crlf [OF l(1), of rest]
      by (simp add: assms(2,4) ds)
  next
    case False
    then have "content = (xs @ [CHR 0x0D]) @ (CHR 0x0A # to_base 16 n) @ Crlf @ rest"
      using assms(1,4) by (simp add: Crlf_def)
    then have "std_find content Crlf (p1 + 1) = Some (p1 + 1 + Suc (length (to_base 16 n)))"
      using std_find_app [of "xs @ [CHR 0x0D]" "p1 + 1" "(CHR 0x0A # to_base 16 n) @ Crlf @ rest" Crlf]
        find_Crlf [OF l(2), of rest] assms(2) by simp
    then show ?thesis using False assms(1) by simp
  qed
  have "take (length sep + length (to_base 16 n)) (drop p1 content) = sep @ to_base 16 n @ []"
    using assms(2,4) by simp
  moreover have "\<forall>c\<in>set sep. isspace c" using assms(1) by (auto simp: isspace_def Crlf_def)
  ultimately show "stoi 16 (take (length sep + length (to_base 16 n)) (drop p1 content)) = Some (int n)"
    using stoi_to_base [of 16 n "[]" sep] assms(3) by (simp add: starts_digit_def)
qed

lemma chunk_round_last:
  assumes "sep \<in> {[], Crlf}" and "length xs = p1" and "content = xs @ sep @ to_base 16 0 @ Crlf @ rest"
  shows "chunk_round content (p1, temp) = Some (Inr (Success, Some temp))"
  using chunk_size_line [OF assms(1,2) _ assms(3)] by (simp add: chunk_round_def)

lemma chunk_round_next:
  assumes "sep \<in> {[], Crlf}" and "length xs = p1" and "0 < n" and "n < 2 ^ 31"
    and "content = xs @ sep @ to_base 16 n @ Crlf @ rest" and "length content < 2 ^ 63"
  shows "chunk_round content (p1, temp) =
    (if length rest < n then Some (Inr (Fail, None))
     else Some (Inl (length (xs @ sep @ to_base 16 n @ Crlf) + n, temp @ take n rest)))"
proof -
  let ?p2 = "p1 + length sep + length (to_base 16 n)"
  have n: "n < 2 ^ 64" and p2: "?p2 + 2 + n < 2 ^ 64"
    using assms(2,4,5,6) by auto
  have num: "unat (word_of_nat n :: uint64) = n" "(word_of_nat n :: uint64) \<noteq> 0"
    using n assms(3) by (auto dest: arg_cong [where f = unat])
  have "unat (word_of_nat (?p2 + 2) + word_of_nat n :: uint64) = ?p2 + 2 + n"
    using p2 by (rule unat_sum64)
  moreover have "drop (?p2 + 2) content = rest" using assms(2,5) by simp
  moreover have "length content = ?p2 + 2 + length rest" using assms(2,5) by simp
  ultimately show ?thesis
    using chunk_size_line [OF assms(1,2,4,5)] num assms(2)
    by (simp add: chunk_round_def Let_def del: of_nat_add)
qed

lemma chunks_decode:
  assumes "content = xs @ sep @ chunks_text cs @ tail" and "sep \<in> {[], Crlf}" and "chunks_ok cs"
    and "length content < 2 ^ 63"
  shows "endless (chunk_round content) (length xs, temp) = Some (Success, Some (temp @ concat cs))"
  using assms(1-3)
proof (induction cs arbitrary: xs sep temp)
  case Nil
  then show ?case
    using chunk_round_last [OF Nil(2) refl, where content = content and rest = tail and temp = temp]
    by (intro endless_stop) (simp add: chunks_text_simps)
next
  case (Cons c cs)
  let ?xs = "xs @ sep @ to_base 16 (length c) @ Crlf"
  have "chunk_round content (length xs, temp) = Some (Inl (length (?xs @ c), temp @ c))"
    using chunk_round_next [OF Cons.prems(2) refl, where n = "length c" and content = content
        and rest = "c @ Crlf @ chunks_text cs @ tail" and temp = temp] Cons.prems assms(4)
    by (simp add: chunks_text_simps chunks_ok_def)
  moreover have "endless (chunk_round content) (length (?xs @ c), temp @ c)
      = Some (Success, Some ((temp @ c) @ concat cs))"
    using Cons.prems by (intro Cons.IH [of _ Crlf]) (simp_all add: chunks_text_simps chunks_ok_def)
  ultimately show ?case by (simp add: endless_again)
qed

text \<open>What has arrived of a chunked body before its end is incomplete.\<close>

lemma strict_prefix_appendE:
  assumes "strict_prefix ys (as @ bs)"
  obtains "strict_prefix ys as" | zs where "ys = as @ zs" and "strict_prefix zs bs"
proof (cases "ys = as")
  case True
  with assms that(2) [of "[]"] show ?thesis by (auto simp: strict_prefix_def)
next
  case False
  with assms that show ?thesis unfolding strict_prefix_def prefix_append by auto
qed

lemma find_Crlf_cut:
  assumes "line l" and "strict_prefix zs (l @ Crlf)"
  shows "find_sub Crlf zs = None"
  using assms(2)
proof (rule strict_prefix_appendE)
  assume "strict_prefix zs l"
  then have "CHR 0x0D \<notin> set zs"
    using assms(1) set_mono_prefix [of zs l] by (auto simp: line_def strict_prefix_def)
  then show ?thesis by (simp add: Crlf_def find_sub_absent)
next
  fix ys assume "zs = l @ ys" "strict_prefix ys Crlf"
  then have "ys = [] \<or> ys = [CHR 0x0D]"
    by (auto simp: Crlf_def strict_prefix_def prefix_Cons)
  then show ?thesis
    using assms(1) \<open>zs = l @ ys\<close> find_sub_skip [of "CHR 0x0D" l "[CHR 0x0A]" ys]
    by (auto simp: line_def Crlf_def)
qed

lemma chunk_size_cut:
  assumes "sep \<in> {[], Crlf}" and "length xs = p1" and "content = xs @ ys"
    and "strict_prefix ys (sep @ to_base 16 n @ Crlf)"
  shows "std_find content Crlf (p1 + 1) = None"
proof (cases ys)
  case Nil
  then show ?thesis using assms(2,3) by (simp add: std_find_def)
next
  case (Cons y zs)
  obtain d ds where ds: "to_base 16 n = d # ds" by (cases "to_base 16 n") auto
  obtain l where "line l" "strict_prefix zs (l @ Crlf)"
  proof (cases "sep = []")
    case True
    then have "strict_prefix zs (ds @ Crlf)" using assms(4) by (simp add: Cons ds)
    moreover have "line ds" using line_digits [of n] by (simp add: ds line_def)
    ultimately show ?thesis using that by blast
  next
    case False
    then have "strict_prefix zs ((CHR 0x0A # to_base 16 n) @ Crlf)"
      using assms(1,4) by (simp add: Cons Crlf_def)
    moreover have "line (CHR 0x0A # to_base 16 n)" using line_digits [of n] by (simp add: line_def)
    ultimately show ?thesis using that by blast
  qed
  then have "find_sub Crlf zs = None" by (rule find_Crlf_cut)
  then show ?thesis using std_find_app [of "xs @ [y]" "p1 + 1" zs Crlf] assms(2,3) by (simp add: Cons)
qed

lemma chunks_incomplete:
  assumes "content = xs @ ys" and "strict_prefix ys (sep @ chunks_text cs)" and "sep \<in> {[], Crlf}"
    and "chunks_ok cs" and "length content < 2 ^ 63"
  shows "endless (chunk_round content) (length xs, temp) = Some (Fail, None)"
  using assms(1-4)
proof (induction cs arbitrary: xs ys sep temp)
  case Nil
  then have "std_find content Crlf (length xs + 1) = None"
    by (intro chunk_size_cut [of sep _ _ _ ys 0]) (simp_all add: chunks_text_simps)
  then show ?case by (intro endless_stop) (simp add: chunk_round_def)
next
  case (Cons c cs)
  let ?head = "sep @ to_base 16 (length c) @ Crlf"
  have "strict_prefix ys (?head @ c @ Crlf @ chunks_text cs)"
    using Cons.prems(2) by (simp add: chunks_text_simps)
  then show ?case
  proof (rule strict_prefix_appendE)
    assume "strict_prefix ys ?head"
    then have "std_find content Crlf (length xs + 1) = None"
      using Cons.prems by (intro chunk_size_cut [of sep _ _ _ ys]) simp_all
    then show ?thesis by (intro endless_stop) (simp add: chunk_round_def)
  next
    fix rest assume ys: "ys = ?head @ rest" and rest: "strict_prefix rest (c @ Crlf @ chunks_text cs)"
    have round: "chunk_round content (length xs, temp) =
        (if length rest < length c then Some (Inr (Fail, None))
         else Some (Inl (length (xs @ ?head) + length c, temp @ take (length c) rest)))"
      using chunk_round_next [OF Cons.prems(3) refl, where n = "length c" and content = content
          and rest = rest and temp = temp]
        Cons.prems(1,4) assms(5) ys by (simp add: chunks_ok_def)
    from rest show ?thesis
    proof (rule strict_prefix_appendE)
      assume "strict_prefix rest c"
      then have "length rest < length c" by (rule prefix_length_less)
      with round show ?thesis by (intro endless_stop) simp
    next
      fix zs assume zs: "rest = c @ zs" "strict_prefix zs (Crlf @ chunks_text cs)"
      have "endless (chunk_round content) (length (xs @ ?head @ c), temp @ c) = Some (Fail, None)"
        using Cons.prems zs ys by (intro Cons.IH [of _ zs Crlf]) (simp_all add: chunks_ok_def)
      moreover have "chunk_round content (length xs, temp) = Some (Inl (length (xs @ ?head @ c), temp @ c))"
        using round zs(1) by simp
      ultimately show ?thesis by (simp add: endless_again)
    qed
  qed
qed

lemma resp_complete:
  assumes "resp_ok r"
  shows "resp_unpack (snd (resp_pack r)) Response_default = Some (Success, r)
    \<and> (content_length (resp_heads r) = Some (std_to_string (int (length (resp_content r)))) \<longrightarrow>
        resp_unpackAndCompleted (snd (resp_pack r)) Response_default = Some (Success, r))"
proof -
  have heads: "fold (\<lambda>(k, v). map_set k v) (resp_heads r) [] = resp_heads r"
    using assms fold_map_set [of "[]" "resp_heads r"] by (simp add: resp_ok_def heads_ok_def)
  have unpack: "resp_unpack (snd (resp_pack r)) Response_default = Some (Success, r)"
    using resp_unpack_pack [OF assms, of Response_default] heads
    by (simp add: Response_default_def Response_new_def)
  have "length (resp_content r) < 2 ^ 31"
    using assms by (simp add: resp_ok_def resp_pack_def Let_def)
  then have "stoi 10 (std_to_string (int (length (resp_content r)))) = Some (int (length (resp_content r)))"
    by (rule stoi_length)
  with unpack show ?thesis by (simp add: resp_unpackAndCompleted_def length_matches_def)
qed

section \<open>Properties\<close>

text \<open>C8: packing a response and parsing the message gives the response back (status line, headers and
  body), for every response of less than 2 GiB with a version, a status that is not negative, a reason phrase
  without carriage return, and headers in the order of a \<open>std::map\<close> without carriage return or a ':' in
  a name; with a \<open>Content-Length\<close> that says the body's length it is complete as well.\<close>

theorem response_roundtrip:
  assumes "resp_ok r"
  shows "resp_unpack (snd (resp_pack r)) Response_default = Some (Success, r)
    \<and> (content_length (resp_heads r) = Some (std_to_string (int (length (resp_content r)))) \<longrightarrow>
        resp_unpackAndCompleted (snd (resp_pack r)) Response_default = Some (Success, r))"
  using assms by (rule resp_complete)

definition example_response :: Response where
  "example_response = (Response_new Http1_1 404)\<lparr>statusInfo := ''Not Found'',
     resp_heads := [(''Content-Length'', ''3'')], resp_content := ''no'' @ ''!''\<rparr>"

theorem response_roundtrip_witness:
  "resp_unpackAndCompleted (snd (resp_pack example_response)) Response_default
    = Some (Success, example_response)"
proof -
  have "length (snd (resp_pack example_response)) < 100" by code_simp
  moreover have "heads_ok (resp_heads example_response)" by code_simp
  ultimately have "resp_ok example_response"
    by (simp add: resp_ok_def) (simp add: example_response_def Response_new_def plain_def)
  moreover have "content_length (resp_heads example_response)
      = Some (std_to_string (int (length (resp_content example_response))))" by code_simp
  ultimately show ?thesis using response_roundtrip [of example_response] by blast
qed

text \<open>A response without a reason phrase, such as the one the default constructor makes, is packed
  with a status line that the library's own parser rejects, and \<open>unpackAndCompleted\<close> reports every
  parse error as an incomplete message.\<close>

theorem empty_reason_rejected:
  assumes "resp_version r \<noteq> Unknown" and "0 \<le> statusCode r" and "statusInfo r = []"
    and "heads_ok (resp_heads r)" and "length (snd (resp_pack r)) < 2 ^ 31"
  shows "resp_unpack (snd (resp_pack r)) r0 = Some (ParseError, r0)
    \<and> resp_unpackAndCompleted (snd (resp_pack r)) r0 = Some (Fail, r0)"
proof -
  let ?v = "HttpVersionToStr (resp_version r)" and ?n = "std_to_string (statusCode r)"
  let ?l = "?v @ '' '' @ ?n @ '' ''"
  have plain: "?v \<noteq> []" "CHR '' '' \<notin> set ?v" "?n \<noteq> []" "CHR '' '' \<notin> set ?n"
    using HttpVersionToStr_plain [OF assms(1)] to_string_plain [OF assms(2)] by (auto simp: plain_def)
  have 1: "std_find ?l '' '' 0 = Some (length ?v)"
    using find_sub_skip [OF plain(2), of "[]" "'' '' @ ?n @ '' ''"] by simp
  have 2: "std_find ?l '' '' (length ?v + 1) = Some (length ?v + 1 + length ?n)"
    using std_find_app [of "?v @ '' ''" "length ?v + 1" "?n @ '' ''" "'' ''"]
      find_sub_skip [OF plain(4), of "[]" "'' ''"] by simp
  have 3: "split_spaces ?l (length ?l) 2 [?v, ?n] = Inr (length ?l, [?v, ?n])"
    by (subst split_spaces.simps) simp
  have 4: "split_spaces ?l (length ?v + 1) 1 [?v] = Inr (length ?l, [?v, ?n])"
    using 2 3 plain(3) by (subst split_spaces.simps) (simp add: numeral_2_eq_2)
  have "split_spaces ?l 0 0 [] = Inr (length ?l, [?v, ?n])"
    using 1 4 plain(1) by (subst split_spaces.simps) simp
  then have "parseStatus ?l r0 = (-1, r0)"
    by (simp add: parseStatus_def SplitStrOfSpace_def)
  moreover from resp_split [OF assms(1,2) _ assms(4,5)] assms(3) obtain pos
    where "SplitHttpOfCRLF (snd (resp_pack r)) [] = Some (pos, ?l # map head_line (resp_heads r))"
      and "pos \<noteq> -1" by (auto simp: plain_def)
  ultimately have "resp_unpack (snd (resp_pack r)) r0 = Some (ParseError, r0)"
    by (simp add: resp_unpack_def index_at_def)
  then show ?thesis by (simp add: resp_unpackAndCompleted_def)
qed

theorem empty_reason_rejected_witness:
  "resp_unpack (snd (resp_pack Response_default)) Response_default = Some (ParseError, Response_default)"
proof -
  have "length (snd (resp_pack Response_default)) < 50" by code_simp
  then show ?thesis
    using empty_reason_rejected [of Response_default Response_default]
    by (simp add: Response_default_def Response_new_def heads_ok_def)
qed

text \<open>C23: a body in chunks is decoded to the joined chunks, whatever bytes they hold, and what has
  arrived of it before the end of its last line is reported as incomplete: the loop ends on all of
  them.\<close>

theorem chunked_body:
  assumes "chunks_ok cs" and "length (chunks_text cs @ rest) < 2 ^ 63"
  shows "isCompletedChunked (r\<lparr>resp_content := chunks_text cs @ rest\<rparr>)
      = Some (Success, r\<lparr>resp_content := concat cs\<rparr>)
    \<and> (strict_prefix part (chunks_text cs) \<longrightarrow>
        isCompletedChunked (r\<lparr>resp_content := part\<rparr>) = Some (Fail, r\<lparr>resp_content := part\<rparr>))"
proof -
  have "endless (chunk_round (chunks_text cs @ rest)) (0, []) = Some (Success, Some (concat cs))"
    using chunks_decode [of "chunks_text cs @ rest" "[]" "[]" cs rest "[]"] assms by simp
  moreover have "endless (chunk_round part) (0, []) = Some (Fail, None)"
    if "strict_prefix part (chunks_text cs)"
  proof -
    have "length part < 2 ^ 63" using prefix_length_less [OF that] assms(2) by simp
    then show ?thesis using chunks_incomplete [of part "[]" part "[]" cs "[]"] that assms(1) by simp
  qed
  ultimately show ?thesis by (simp add: isCompletedChunked_def)
qed

theorem chunked_body_witness:
  "isCompletedChunked (Response_default\<lparr>resp_content :=
      ''3'' @ Crlf @ ''a'' @ Crlf @ Crlf @ ''2'' @ Crlf @ ''bc'' @ Crlf @ ''0'' @ Crlf @ Crlf\<rparr>)
    = Some (Success, Response_default\<lparr>resp_content := ''a'' @ Crlf @ ''bc''\<rparr>)
  \<and> isCompletedChunked (Response_default\<lparr>resp_content := ''3'' @ Crlf @ ''a''\<rparr>)
    = Some (Fail, Response_default\<lparr>resp_content := ''3'' @ Crlf @ ''a''\<rparr>)"
proof -
  have enc: "chunks_text [''a'' @ Crlf, ''bc'']
      = ''3'' @ Crlf @ ''a'' @ Crlf @ Crlf @ ''2'' @ Crlf @ ''bc'' @ Crlf @ ''0'' @ Crlf" by code_simp
  have "chunks_ok [''a'' @ Crlf, ''bc'']" by (simp add: chunks_ok_def)
  moreover have "strict_prefix (''3'' @ Crlf @ ''a'') (chunks_text [''a'' @ Crlf, ''bc''])"
    unfolding enc by (simp add: Crlf_def)
  moreover have "length (chunks_text [''a'' @ Crlf, ''bc''] @ Crlf) < 2 ^ 63" unfolding enc by simp
  ultimately have
    "isCompletedChunked (Response_default\<lparr>resp_content := chunks_text [''a'' @ Crlf, ''bc''] @ Crlf\<rparr>)
        = Some (Success, Response_default\<lparr>resp_content := concat [''a'' @ Crlf, ''bc'']\<rparr>)
      \<and> isCompletedChunked (Response_default\<lparr>resp_content := ''3'' @ Crlf @ ''a''\<rparr>)
        = Some (Fail, Response_default\<lparr>resp_content := ''3'' @ Crlf @ ''a''\<rparr>)"
    using chunked_body by blast
  then show ?thesis unfolding enc by simp
qed

text \<open>C38: a chunk size that is negative and cancels the bytes of its own line sends the chunk loop back
  to where it was: on the body \<open>-4\<close> and a line end it runs for ever, so that one response of a
  server hangs the client's event loop.\<close>

theorem chunked_hangs:
  "isCompletedChunked (r\<lparr>resp_content := ''-4'' @ Crlf\<rparr>) = None
    \<and> rounds n (chunk_round (''-4'' @ Crlf)) (0, []) = Some (0, [])"
proof -
  let ?I = "\<lambda>s :: nat \<times> string. s = (0, [])"
  have "std_find (''-4'' @ Crlf) Crlf 1 = Some 2" "stoi 16 ''-4'' = Some (-4)" by code_simp+
  moreover have "take 2 (''-4'' @ Crlf) = ''-4''" "drop 4 (''-4'' @ Crlf) = []"
    by (simp_all add: Crlf_def)
  ultimately have "chunk_round (''-4'' @ Crlf) (0, []) = Some (Inl (0, []))"
    by (simp add: chunk_round_def Let_def)
  then have stay: "\<exists>s'. chunk_round (''-4'' @ Crlf) s = Some (Inl s') \<and> ?I s'" if "?I s" for s
    using that by simp
  have "endless (chunk_round (''-4'' @ Crlf)) (0, []) = None"
    by (rule endless_diverges(1) [where I = ?I, OF refl stay])
  moreover have "\<exists>s'. rounds n (chunk_round (''-4'' @ Crlf)) (0, []) = Some s' \<and> ?I s'"
    by (rule endless_diverges(2) [where I = ?I, OF refl stay])
  ultimately show ?thesis by (simp add: isCompletedChunked_def)
qed

end
