(* ===== verification/HttpServer.thy ===== *)
theory HttpServer
  imports ServerRuns RadixTree Response
begin

text \<open>
  The HTTP server (\<open>uv/http/HttpServer.cpp\<close>): a TCP server whose message callback collects the
  bytes of a connection in its buffer, parses them as a request after every piece, looks the path up
  in the routes of the method, and writes the response; the callback of the write closes the
  connection by its name. The user's request handlers are values that a parameter interprets.
\<close>

section \<open>The connection's buffer\<close>

text \<open>
  Append what has arrived and copy everything out again, as text. The status codes are ignored: data
  that does not fit is lost. A buffer is one of the two kinds, or there is none.
\<close>

definition buffer_take :: "'b PacketBuffer \<Rightarrow> uint8 list \<Rightarrow> 'b \<Rightarrow> ('b \<times> string) option" where
  "buffer_take ops data b =
     do {
       (_, b) \<leftarrow> append_op ops data b;
       (_, out) \<leftarrow> readBufferN_op ops [] (readSize_op ops b) b;
       Some (b, string_of out)
     }"

fun conn_take :: "uint64 \<Rightarrow> uint8 list \<Rightarrow> ConnBuffer \<Rightarrow> (ConnBuffer \<times> string) option" where
  "conn_take cbs data (ListBuf b) = map_option (\<lambda>(b, s). (ListBuf b, s)) (buffer_take ListBuffer_ops data b)"
| "conn_take cbs data (CycleBuf b) =
     map_option (\<lambda>(b, s). (CycleBuf b, s)) (buffer_take (CycleBuffer_ops cbs) data b)"
| "conn_take cbs data NoBuf = None"

fun conn_clear :: "uint64 \<Rightarrow> ConnBuffer \<Rightarrow> ConnBuffer" where
  "conn_clear cbs (ListBuf b) = ListBuf (snd (clear_op ListBuffer_ops b))"
| "conn_clear cbs (CycleBuf b) = CycleBuf (snd (clear_op (CycleBuffer_ops cbs) b))"
| "conn_clear cbs NoBuf = NoBuf"

definition set_buffer :: "nat \<Rightarrow> ConnBuffer \<Rightarrow> ('u, 'w) TcpServer \<Rightarrow> ('u, 'w) TcpServer" where
  "set_buffer i pb s = s\<lparr>objects := (objects s)(i := map_option (\<lambda>c. c\<lparr>conn_buffer := pb\<rparr>) (objects s i))\<rparr>"

section \<open>The server\<close>

text \<open>One radix tree per method; a route may hold a null \<open>std::function\<close>.\<close>

record 'h HttpServer =
  route :: "Methon \<Rightarrow> 'h option RadixTreeNode"

definition HttpServer_new :: "'h HttpServer" where
  "HttpServer_new = \<lparr>route = (\<lambda>_. RadixTree_new)\<rparr>"

abbreviation set_route :: "Methon \<Rightarrow> string \<Rightarrow> 'h option \<Rightarrow> 'h HttpServer \<Rightarrow> 'h HttpServer" where
  "set_route m path cb h \<equiv> h\<lparr>route := (route h)(m := tree_set path cb (route h m))\<rparr>"

definition http_Get :: "string \<Rightarrow> 'h option \<Rightarrow> 'h HttpServer \<Rightarrow> 'h HttpServer" where
  "http_Get path cb h = set_route Get path cb h"

definition http_Post :: "string \<Rightarrow> 'h option \<Rightarrow> 'h HttpServer \<Rightarrow> 'h HttpServer" where
  "http_Post path cb h = set_route Post path cb h"

definition http_Head :: "string \<Rightarrow> 'h option \<Rightarrow> 'h HttpServer \<Rightarrow> 'h HttpServer" where
  "http_Head path cb h = set_route Head path cb h"

definition http_Put :: "string \<Rightarrow> 'h option \<Rightarrow> 'h HttpServer \<Rightarrow> 'h HttpServer" where
  "http_Put path cb h = set_route Put path cb h"

definition http_Delete :: "string \<Rightarrow> 'h option \<Rightarrow> 'h HttpServer \<Rightarrow> 'h HttpServer" where
  "http_Delete path cb h = set_route Delete path cb h"

definition http_Connect :: "string \<Rightarrow> 'h option \<Rightarrow> 'h HttpServer \<Rightarrow> 'h HttpServer" where
  "http_Connect path cb h = set_route Connect path cb h"

definition http_Options :: "string \<Rightarrow> 'h option \<Rightarrow> 'h HttpServer \<Rightarrow> 'h HttpServer" where
  "http_Options path cb h = set_route Options path cb h"

definition http_Trace :: "string \<Rightarrow> 'h option \<Rightarrow> 'h HttpServer \<Rightarrow> 'h HttpServer" where
  "http_Trace path cb h = set_route Trace path cb h"

definition http_Patch :: "string \<Rightarrow> 'h option \<Rightarrow> 'h HttpServer \<Rightarrow> 'h HttpServer" where
  "http_Patch path cb h = set_route Patch path cb h"

text \<open>
  The callbacks that the HTTP server gives to its TCP server: its message handler, and the lambda
  that closes a connection by name when its response has been written. The application's own are
  interpreted by the environment it starts from; the lambda and the handler are added in two steps,
  since neither is run from within itself.
\<close>

datatype 'u HttpCb = AppCb 'u | WriteClose string | HttpMessage

definition close_env :: "('u HttpCb, 'w) Env \<Rightarrow> ('u HttpCb, 'w) Env" where
  "close_env env = env\<lparr>user := (\<lambda>f arg s.
     case f of WriteClose nm \<Rightarrow> closeConnection env nm s | _ \<Rightarrow> user env f arg s)\<rparr>"

definition http_onMesage ::
  "('u HttpCb, 'w) Env \<Rightarrow> ('h \<Rightarrow> Request \<Rightarrow> Response \<Rightarrow> Response) \<Rightarrow> 'h HttpServer \<Rightarrow> nat \<Rightarrow> uint8 list \<Rightarrow>
    ('u HttpCb, 'w) TcpServer \<Rightarrow> ('u HttpCb, 'w) TcpServer option"
where
  "http_onMesage env handler h i data s =
     do {
       c \<leftarrow> objects s i;
       if getPacketBuffer c = NoBuf
       then Some (log_srv Error ''http server need use data buffer.'' s)
       else
         do {
           (pb, out) \<leftarrow> conn_take (cycle_size env) data (getPacketBuffer c);
           (rst, req) \<leftarrow> req_unpackAndCompleted out Request_default;
           (if rst = ParseError then Some (set_buffer i (conn_clear (cycle_size env) pb) s)
            else if rst = Success then
              let s = set_buffer i (conn_clear (cycle_size env) pb) s
              in do {
                found \<leftarrow> tree_get (getPath req) (route h (getMethon req));
                (case found of
                   Some (Some callback) \<Rightarrow>
                     let resp = handler callback req Response_default;
                         respData = snd (resp_pack resp)
                     in srv_write (close_env env) (Some i) (bytes_of respData) (Some (WriteClose (Name c))) s
                 | _ \<Rightarrow> Some s)
              }
            else Some (set_buffer i pb s))
         }
     }"

definition http_env ::
  "('u HttpCb, 'w) Env \<Rightarrow> ('h \<Rightarrow> Request \<Rightarrow> Response \<Rightarrow> Response) \<Rightarrow> 'h HttpServer \<Rightarrow> ('u HttpCb, 'w) Env"
where
  "http_env env handler h = (close_env env)\<lparr>user := (\<lambda>f arg s.
     case (f, arg) of
       (HttpMessage, Message i buf) \<Rightarrow> http_onMesage env handler h i buf s
     | _ \<Rightarrow> user (close_env env) f arg s)\<rparr>"

text \<open>The constructor of the HTTP server sets the message callback of its TCP server.\<close>

definition http_server :: "'w Libuv \<Rightarrow> handle \<Rightarrow> 'w \<Rightarrow> ('u HttpCb, 'w) TcpServer" where
  "http_server u h w = srv_setMessageCallback (Some HttpMessage) (TcpServer_new u h True w)"

text \<open>The handler called once for every piece that arrives.\<close>

fun http_messages ::
  "('u HttpCb, 'w) Env \<Rightarrow> ('h \<Rightarrow> Request \<Rightarrow> Response \<Rightarrow> Response) \<Rightarrow> 'h HttpServer \<Rightarrow> nat \<Rightarrow> uint8 list list \<Rightarrow>
    ('u HttpCb, 'w) TcpServer \<Rightarrow> ('u HttpCb, 'w) TcpServer option"
where
  "http_messages env handler h i [] s = Some s"
| "http_messages env handler h i (p # ps) s =
     (case http_onMesage env handler h i p s of
        Some s \<Rightarrow> http_messages env handler h i ps s | None \<Rightarrow> None)"

section \<open>The buffer collects the pieces\<close>

context packet_buffer
begin

lemma buffer_take_ok:
  assumes "valid b" and "length (contents b) + length data \<le> cap"
    and "length (contents b) + length data < 2 ^ 31"
  shows "\<exists>b'. buffer_take ops data b = Some (b', string_of (contents b @ data)) \<and> valid b'
    \<and> contents b' = contents b @ data"
proof -
  obtain b' where b': "append_op ops data b = Some (0, b')" "valid b'" "contents b' = contents b @ data"
    using append_law [OF assms(1,2)] by blast
  moreover have "readBufferN_op ops [] (readSize_op ops b') b' = Some (0, contents b')"
    using read_law [OF b'(2), of "[]" "readSize_op ops b'"] unat_readSize [OF b'(2)] b'(3) assms(3) by simp
  ultimately show ?thesis by (simp add: buffer_take_def)
qed

lemma buffer_clear_ok: "valid b \<Longrightarrow> valid (snd (clear_op ops b)) \<and> contents (snd (clear_op ops b)) = []"
  using clear_law [of b] by auto

end

fun conn_bytes :: "ConnBuffer \<Rightarrow> uint8 list" where
  "conn_bytes (ListBuf b) = lb_buffer b"
| "conn_bytes (CycleBuf b) = cb_contents b"
| "conn_bytes NoBuf = []"

fun conn_valid :: "uint64 \<Rightarrow> ConnBuffer \<Rightarrow> bool" where
  "conn_valid cbs (ListBuf b) \<longleftrightarrow> lb_valid b"
| "conn_valid cbs (CycleBuf b) \<longleftrightarrow> cb_valid cbs b"
| "conn_valid cbs NoBuf \<longleftrightarrow> False"

fun conn_room :: "uint64 \<Rightarrow> ConnBuffer \<Rightarrow> nat" where
  "conn_room cbs (ListBuf b) = 2 ^ 64 - 1"
| "conn_room cbs (CycleBuf b) = unat cbs - 1"
| "conn_room cbs NoBuf = 0"

lemma conn_take_ok:
  assumes "conn_valid cbs pb" and "length (conn_bytes pb) + length data \<le> conn_room cbs pb"
    and "length (conn_bytes pb) + length data < 2 ^ 31"
  shows "\<exists>pb'. conn_take cbs data pb = Some (pb', string_of (conn_bytes pb @ data)) \<and> conn_valid cbs pb'
    \<and> conn_bytes pb' = conn_bytes pb @ data \<and> conn_room cbs pb' = conn_room cbs pb"
proof (cases pb)
  case (ListBuf b)
  then show ?thesis using list_buf.buffer_take_ok [of b data] assms by fastforce
next
  case (CycleBuf b)
  then show ?thesis using cycle_buf.buffer_take_ok [of cbs b data] assms by fastforce
qed (use assms in simp)

lemma conn_clear_ok:
  assumes "conn_valid cbs pb"
  shows "conn_valid cbs (conn_clear cbs pb) \<and> conn_bytes (conn_clear cbs pb) = []"
  using assms list_buf.buffer_clear_ok cycle_buf.buffer_clear_ok by (cases pb) auto

lemma set_buffer_simps [simp]:
  "objects (set_buffer i pb s) i = map_option (\<lambda>c. c\<lparr>conn_buffer := pb\<rparr>) (objects s i)"
  "set_buffer i pb' (set_buffer i pb s) = set_buffer i pb' s"
  by (simp_all add: set_buffer_def option.map_comp comp_def)

section \<open>A request in pieces\<close>

lemma http_piece:
  assumes "objects s i = Some c" and "conn_valid (cycle_size env) (conn_buffer c)"
    and "length (conn_bytes (conn_buffer c)) + length p \<le> conn_room (cycle_size env) (conn_buffer c)"
    and "length (conn_bytes (conn_buffer c)) + length p < 2 ^ 31"
    and "req_unpackAndCompleted (string_of (conn_bytes (conn_buffer c) @ p)) Request_default = Some (Fail, r')"
  shows "\<exists>pb. http_onMesage env handler h i p s = Some (set_buffer i pb s)
    \<and> conn_valid (cycle_size env) pb \<and> conn_bytes pb = conn_bytes (conn_buffer c) @ p
    \<and> conn_room (cycle_size env) pb = conn_room (cycle_size env) (conn_buffer c)"
proof -
  obtain pb where pb: "conn_take (cycle_size env) p (conn_buffer c)
      = Some (pb, string_of (conn_bytes (conn_buffer c) @ p))"
    "conn_valid (cycle_size env) pb" "conn_bytes pb = conn_bytes (conn_buffer c) @ p"
    "conn_room (cycle_size env) pb = conn_room (cycle_size env) (conn_buffer c)"
    using conn_take_ok [OF assms(2-4)] by blast
  moreover have "conn_buffer c \<noteq> NoBuf" using assms(2) by auto
  ultimately have "http_onMesage env handler h i p s = Some (set_buffer i pb s)"
    using assms(1,5) by (simp add: http_onMesage_def getPacketBuffer_def)
  with pb(2-4) show ?thesis by blast
qed

lemma http_last_piece:
  assumes "objects s i = Some c" and "conn_valid (cycle_size env) (conn_buffer c)"
    and "length (conn_bytes (conn_buffer c)) + length p \<le> conn_room (cycle_size env) (conn_buffer c)"
    and "length (conn_bytes (conn_buffer c)) + length p < 2 ^ 31"
    and "req_unpackAndCompleted (string_of (conn_bytes (conn_buffer c) @ p)) Request_default = Some (Success, r)"
  shows "\<exists>pb. conn_valid (cycle_size env) pb \<and> conn_bytes pb = []
    \<and> http_onMesage env handler h i p s = (case tree_get (req_path r) (route h (req_methon r)) of
        None \<Rightarrow> None
      | Some (Some (Some f)) \<Rightarrow>
          srv_write (close_env env) (Some i)
            (bytes_of (snd (resp_pack (handler f r Response_default)))) (Some (WriteClose (name c)))
            (set_buffer i pb s)
      | Some _ \<Rightarrow> Some (set_buffer i pb s))"
proof -
  obtain pb where pb: "conn_take (cycle_size env) p (conn_buffer c)
      = Some (pb, string_of (conn_bytes (conn_buffer c) @ p))" "conn_valid (cycle_size env) pb"
    using conn_take_ok [OF assms(2-4)] by blast
  let ?pb = "conn_clear (cycle_size env) pb"
  have "conn_buffer c \<noteq> NoBuf" using assms(2) by auto
  then have "http_onMesage env handler h i p s = (case tree_get (req_path r) (route h (req_methon r)) of
        None \<Rightarrow> None
      | Some (Some (Some f)) \<Rightarrow>
          srv_write (close_env env) (Some i)
            (bytes_of (snd (resp_pack (handler f r Response_default)))) (Some (WriteClose (name c)))
            (set_buffer i ?pb s)
      | Some _ \<Rightarrow> Some (set_buffer i ?pb s))"
    using assms(1,5) pb(1)
    by (simp add: http_onMesage_def getPacketBuffer_def getPath_def getMethon_def Name_def
        split: option.split)
  with conn_clear_ok [OF pb(2)] show ?thesis by blast
qed

lemma http_pieces:
  assumes "request_text D r"
    and "objects s i = Some c" and "conn_valid (cycle_size env) (conn_buffer c)"
    and "length D \<le> conn_room (cycle_size env) (conn_buffer c)"
    and "conn_bytes (conn_buffer c) @ concat ps = bytes_of D"
    and "\<forall>p \<in> set ps. p \<noteq> []" and "ps \<noteq> []"
  shows "\<exists>pb. conn_valid (cycle_size env) pb \<and> conn_bytes pb = []
    \<and> http_messages env handler h i ps s = (case tree_get (req_path r) (route h (req_methon r)) of
        None \<Rightarrow> None
      | Some (Some (Some f)) \<Rightarrow>
          srv_write (close_env env) (Some i)
            (bytes_of (snd (resp_pack (handler f r Response_default))))
            (Some (WriteClose (name c))) (set_buffer i pb s)
      | Some _ \<Rightarrow> Some (set_buffer i pb s))"
  using assms(2-7)
proof (induction ps arbitrary: s c)
  case (Cons p ps)
  let ?acc = "conn_bytes (conn_buffer c)"
  have short: "length D < 2 ^ 31" using assms(1) by (simp add: request_text_def)
  have len: "length ?acc + length p + length (concat ps) = length D"
    using arg_cong [OF Cons.prems(4), of length] by simp
  have "?acc @ p = take (length ?acc + length p) (bytes_of D)" by (simp flip: Cons.prems(4))
  then have str: "string_of (?acc @ p) = take (length ?acc + length p) D"
    by (simp only: string_of_take string_of_bytes_of)
  show ?case
  proof (cases "ps = []")
    case True
    have full: "req_unpackAndCompleted (string_of (?acc @ p)) Request_default = Some (Success, r)"
      using assms(1) len True str by (simp add: request_text_def)
    have room: "length ?acc + length p \<le> conn_room (cycle_size env) (conn_buffer c)"
      "length ?acc + length p < 2 ^ 31"
      using len short Cons.prems(3) True by simp_all
    have "http_messages env handler h i [p] s = http_onMesage env handler h i p s"
      by (simp split: option.split)
    then show ?thesis
      using http_last_piece [OF Cons.prems(1,2) room full, where handler = handler and h = h]
      unfolding True by simp
  next
    case False
    then have "0 < length (concat ps)" using Cons.prems(5) by (cases ps) auto
    with len have more: "length ?acc + length p < length D" by linarith
    then obtain r' where "req_unpackAndCompleted (string_of (?acc @ p)) Request_default = Some (Fail, r')"
      using request_text_cut [OF assms(1)] str by metis
    from http_piece [OF Cons.prems(1,2) _ _ this, where handler = handler and h = h] obtain pb where pb:
      "http_onMesage env handler h i p s = Some (set_buffer i pb s)" "conn_valid (cycle_size env) pb"
      "conn_bytes pb = ?acc @ p" "conn_room (cycle_size env) pb = conn_room (cycle_size env) (conn_buffer c)"
      using more short Cons.prems(3) by auto
    have nm: "name (c\<lparr>conn_buffer := pb\<rparr>) = name c" by simp
    show ?thesis
      using Cons.IH [of "set_buffer i pb s" "c\<lparr>conn_buffer := pb\<rparr>", unfolded set_buffer_simps(2) nm]
        pb Cons.prems False by simp
  qed
qed simp

text \<open>Nothing is written while bytes are missing.\<close>

lemma http_unanswered:
  assumes "request_text D r"
    and "objects s i = Some c" and "conn_valid (cycle_size env) (conn_buffer c)"
    and "length D \<le> conn_room (cycle_size env) (conn_buffer c)"
    and "conn_bytes (conn_buffer c) @ concat ps @ rest = bytes_of D" and "rest \<noteq> []"
  shows "\<exists>s'. http_messages env handler h i ps s = Some s' \<and> world s' = world s \<and> pending s' = pending s"
  using assms(2-5)
proof (induction ps arbitrary: s c)
  case (Cons p ps)
  let ?acc = "conn_bytes (conn_buffer c)"
  have short: "length D < 2 ^ 31" using assms(1) by (simp add: request_text_def)
  have len: "length ?acc + length p + length (concat ps) + length rest = length D"
    using arg_cong [OF Cons.prems(4), of length] by simp
  then have more: "length ?acc + length p < length D" using assms(6) by (cases rest) simp_all
  have "?acc @ p = take (length ?acc + length p) (bytes_of D)" by (simp flip: Cons.prems(4))
  then have str: "string_of (?acc @ p) = take (length ?acc + length p) D"
    by (simp only: string_of_take string_of_bytes_of)
  obtain r' where "req_unpackAndCompleted (string_of (?acc @ p)) Request_default = Some (Fail, r')"
    using request_text_cut [OF assms(1) more] str by metis
  from http_piece [OF Cons.prems(1,2) _ _ this, where handler = handler and h = h] obtain pb where pb:
    "http_onMesage env handler h i p s = Some (set_buffer i pb s)" "conn_valid (cycle_size env) pb"
    "conn_bytes pb = ?acc @ p" "conn_room (cycle_size env) pb = conn_room (cycle_size env) (conn_buffer c)"
    using more short Cons.prems(3) by auto
  have "world (set_buffer i pb s) = world s" "pending (set_buffer i pb s) = pending s"
    by (simp_all add: set_buffer_def)
  then show ?case
    using Cons.IH [of "set_buffer i pb s" "c\<lparr>conn_buffer := pb\<rparr>"] pb Cons.prems by simp
qed simp

section \<open>A server for examples\<close>

definition example_conn :: "'u ServerCb TcpConnection" where
  "example_conn = fst (TcpConnection_new sim_uv ListBufferMode 0 ''10.0.0.1:9'' 7 True sim_init)"

definition example_http_env :: "(unit HttpCb, Sim) Env" where
  "example_http_env = \<lparr>uv = sim_uv, inet = sim_inet, buffer_mode = ListBufferMode, cycle_size = 0,
     user = (\<lambda>f arg s. Some s)\<rparr>"

definition example_http_state :: "(unit HttpCb, Sim) TcpServer" where
  "example_http_state = addConnnection ''10.0.0.1:9'' 7
     ((http_server sim_uv 1 sim_init)\<lparr>objects := [7 \<mapsto> example_conn]\<rparr>)"

lemma example_facts:
  "req_ok example_request"
  "req_framed example_request"
  "20 < length (snd (req_pack example_request))"
  "length (snd (req_pack example_request)) < 100"
  "objects example_http_state 7 = Some example_conn" "pending example_http_state = []"
  "connected (example_conn :: unit HttpCb ServerCb TcpConnection)"
  "conn_valid (cycle_size example_http_env) (conn_buffer (example_conn :: unit HttpCb ServerCb TcpConnection))"
  "conn_bytes (conn_buffer (example_conn :: unit HttpCb ServerCb TcpConnection)) = []"
  "length (snd (req_pack example_request))
    \<le> conn_room (cycle_size example_http_env) (conn_buffer (example_conn :: unit HttpCb ServerCb TcpConnection))"
proof -
  show len: "20 < length (snd (req_pack example_request))" "length (snd (req_pack example_request)) < 100"
    by code_simp+
  have "url_ok (req_path example_request) (req_urlParms example_request)"
    "heads_ok (req_heads example_request)" by code_simp+
  then show "req_ok example_request"
    using len by (simp add: req_ok_def) (simp add: example_request_def Request_new_def)
  show "req_framed example_request" by code_simp
  show "objects example_http_state 7 = Some example_conn" "pending example_http_state = []"
    by (simp_all add: example_http_state_def addConnnection_def http_server_def srv_setMessageCallback_def
        TcpServer_new_def split: prod.split)
  show "connected (example_conn :: unit HttpCb ServerCb TcpConnection)"
    "conn_valid (cycle_size example_http_env) (conn_buffer (example_conn :: unit HttpCb ServerCb TcpConnection))"
    "conn_bytes (conn_buffer (example_conn :: unit HttpCb ServerCb TcpConnection)) = []"
    "length (snd (req_pack example_request))
      \<le> conn_room (cycle_size example_http_env) (conn_buffer (example_conn :: unit HttpCb ServerCb TcpConnection))"
    using len by (simp_all add: example_conn_def TcpConnection_new_def lb_valid_def ListBuffer_init_def)
qed

section \<open>The answer\<close>

lemma request_text_nonempty: "request_text D r \<Longrightarrow> bytes_of D \<noteq> []"
  by (auto simp: request_text_def bytes_of_def req_unpackAndCompleted_def req_unpack_def SplitHttpOfCRLF_def Crlf_def)

lemma http_answer:
  assumes "request_text D r"
    and "objects s i = Some c" and "connected c" and "conn_valid (cycle_size env) (conn_buffer c)"
    and "conn_bytes (conn_buffer c) = []"
    and "length D \<le> conn_room (cycle_size env) (conn_buffer c)"
    and "concat ps = bytes_of D" and "[] \<notin> set ps"
    and "tree_get (req_path r) (route h (req_methon r)) = Some (Some (Some f))"
    and "answer = bytes_of (snd (resp_pack (handler f r Response_default)))"
    and "uv_write (uv env) (conn_handle c) answer (world s) = (0, w)"
  shows "\<exists>s'. http_messages env handler h i ps s = Some s' \<and> world s' = w
    \<and> pending s' = pending s @ [(i, Some (UserWrite (WriteClose (name c))), answer)]
    \<and> map_option (conn_bytes \<circ> conn_buffer) (objects s' i) = Some []"
proof -
  have "ps \<noteq> []" using assms(7) request_text_nonempty [OF assms(1)] by auto
  with http_pieces [OF assms(1,2,4,6), of ps handler h] assms(5,7,8) obtain pb where pb:
    "conn_bytes pb = []" "http_messages env handler h i ps s = srv_write (close_env env) (Some i) answer
      (Some (WriteClose (name c))) (set_buffer i pb s)"
    by (auto simp: assms(9,10))
  moreover have "world (set_buffer i pb s) = world s" "pending (set_buffer i pb s) = pending s"
    by (simp_all add: set_buffer_def)
  ultimately show ?thesis
    using assms(2,3,11) by (simp add: srv_write_def write_to_def conn_write_def close_env_def)
qed

section \<open>Properties\<close>

text \<open>C16: a text of less than 2 GiB that parses as a request \<open>r\<close>, whoever made it, and either has no body
  or a \<open>Content-Length\<close> that is a number (which the parser has compared with the body), is answered
  exactly once however it is cut into pieces: when its last piece has arrived, with the response of the
  handler that the routes of \<open>r\<close>'s method give for \<open>r\<close>'s path (parameters and route value as parsed);
  nothing is written before, and the connection's buffer is empty again. It is so on a connection that
  is up and whose buffer is empty and has room for the whole text (a text that does not fit is lost),
  for a path that has a handler, and when \<open>uv_write\<close> returns 0; the bytes of the answer are those handed
  to that call.\<close>

theorem http_answers_once:
  assumes "request_text D r"
    and "objects s i = Some c" and "connected c" and "conn_valid (cycle_size env) (conn_buffer c)"
    and "conn_bytes (conn_buffer c) = []"
    and "length D \<le> conn_room (cycle_size env) (conn_buffer c)"
    and "concat ps = bytes_of D" and "[] \<notin> set ps"
    and "tree_get (req_path r) (route h (req_methon r)) = Some (Some (Some f))"
    and "answer = bytes_of (snd (resp_pack (handler f r Response_default)))"
    and "uv_write (uv env) (conn_handle c) answer (world s) = (0, w)"
  shows "(\<forall>k < length ps. \<exists>s'. http_messages env handler h i (take k ps) s = Some s'
      \<and> world s' = world s \<and> pending s' = pending s)
    \<and> (\<exists>s'. http_messages env handler h i ps s = Some s' \<and> world s' = w
      \<and> pending s' = pending s @ [(i, Some (UserWrite (WriteClose (name c))), answer)]
      \<and> map_option (conn_bytes \<circ> conn_buffer) (objects s' i) = Some [])"
proof -
  have "\<exists>s'. http_messages env handler h i (take k ps) s = Some s' \<and> world s' = world s \<and> pending s' = pending s"
    if "k < length ps" for k
  proof (rule http_unanswered [OF assms(1,2,4,6), of _ "concat (drop k ps)"])
    show "conn_bytes (conn_buffer c) @ concat (take k ps) @ concat (drop k ps) = bytes_of D"
      using assms(5,7) by (simp flip: concat_append)
    show "concat (drop k ps) \<noteq> []"
      using that assms(8) nth_mem [OF that] by (cases "ps ! k") (auto simp: Cons_nth_drop_Suc [symmetric])
  qed
  then show ?thesis using http_answer [where handler = handler, OF assms] by blast
qed

text \<open>A request that \<open>pack\<close> would not make: a path with a value, header lines that are not in order.\<close>

definition example_text :: string where
  "example_text = ''GET /value:12 HTTP/1.1'' @ Crlf @ ''Host: uv'' @ Crlf @ ''Accept: text'' @ Crlf @ Crlf"

theorem http_answers_once_witness:
  "\<exists>s'. http_messages example_http_env (\<lambda>f req resp. fst (resp_swapContent (getValue req) resp))
       (http_Get ''/value:'' (Some ()) HttpServer_new) 7
       [take 20 (bytes_of example_text), drop 20 (bytes_of example_text)] example_http_state = Some s'
     \<and> length (pending s') = 1"
proof -
  let ?h = "http_Get ''/value:'' (Some ()) HttpServer_new"
    and ?r = "(Request_new Http1_1 Get)\<lparr>req_path := ''/value:'', req_value := ''12'',
      req_heads := [(''Accept'', ''text''), (''Host'', ''uv'')]\<rparr>"
  let ?ps = "[take 20 (bytes_of example_text), drop 20 (bytes_of example_text)]"
  have len: "length example_text = 50" by code_simp
  have "req_unpackAndCompleted example_text Request_default = Some (Success, ?r)" by code_simp
  then have D: "request_text example_text ?r" using len by (simp add: request_text_def Request_new_def)
  have "bytes_of example_text \<noteq> []" using len length_bytes_of [of example_text] by (metis length_0_conv zero_neq_numeral)
  then have "concat ?ps = bytes_of example_text" "[] \<notin> set ?ps" using len by auto
  moreover have "tree_get (req_path ?r) (route ?h (req_methon ?r)) = Some (Some (Some ()))"
    by code_simp
  moreover have "uv_write (uv example_http_env) h d w = (0, sim_log (UvWrite h d) w)" for h d w
    by (simp add: example_http_env_def sim_uv_def)
  moreover have "length example_text
      \<le> conn_room (cycle_size example_http_env) (conn_buffer (example_conn :: unit HttpCb ServerCb TcpConnection))"
    using len by (simp add: example_conn_def TcpConnection_new_def ListBuffer_init_def)
  ultimately show ?thesis
    using http_answers_once [OF D example_facts(5,7,8,9) _ _ _ _ refl, of ?ps ?h "()"
        "\<lambda>f req resp. fst (resp_swapContent (getValue req) resp)"] example_facts(6) by fastforce
qed

text \<open>C33: a complete request whose method has no route at all dereferences the null root of that
  method's tree: on a server with \<open>Get\<close> routes only, any other method brings the process down.\<close>

theorem http_no_route_crash:
  assumes "req_ok r" and "req_framed r"
    and "objects s i = Some c" and "conn_valid (cycle_size env) (conn_buffer c)"
    and "conn_bytes (conn_buffer c) = []"
    and "length (snd (req_pack r)) \<le> conn_room (cycle_size env) (conn_buffer c)"
    and "route h (req_methon r) = RadixTree_new"
  shows "http_onMesage env handler h i (bytes_of (snd (req_pack r))) s = None"
proof -
  have "bytes_of (snd (req_pack r)) \<noteq> []" by (simp add: req_pack_def bytes_of_def Crlf_def Let_def)
  moreover have "tree_get (req_path r) (route h (req_methon r)) = None"
    by (simp add: assms(7) tree_get_def RadixTree_new_def)
  ultimately have "http_messages env handler h i [bytes_of (snd (req_pack r))] s = None"
    using http_pieces [OF request_text_pack [OF assms(1,2)] assms(3,4,6),
        of "[bytes_of (snd (req_pack r))]" handler h] assms(5) by auto
  then show ?thesis by (simp split: option.splits)
qed

theorem http_no_route_crash_witness:
  "http_onMesage example_http_env (\<lambda>f req resp. resp) (http_Get ''/'' (Some ()) HttpServer_new) 7
     (bytes_of (snd (req_pack example_request))) example_http_state = None"
proof -
  have "route (http_Get ''/'' (Some ()) HttpServer_new) (req_methon example_request) = RadixTree_new"
    by (simp add: http_Get_def HttpServer_new_def example_request_def Request_new_def)
  then show ?thesis by (rule http_no_route_crash [OF example_facts(1,2,5,8-10)])
qed

text \<open>C32: when a peer disconnects before the response to its request has been written, libuv ends the
  write with an error while the connection is closing; the callback of the write then closes the
  connection again by its name, which destroys the connection, and libuv's report that the handle is
  closed uses the destroyed object.\<close>

theorem http_disconnect_crash:
  assumes "libuv (uv env)" and "objects s i = Some c" and "name c = nm" and "conn_handle c = i"
    and "getConnnection nm s = Some i" and "is_closing env s i" and "onConnectCloseCb s = None"
    and "pending s = [(i, Some (UserWrite (WriteClose nm)), buf)]"
  shows "\<exists>s'. on_written (http_env env handler h) 0 st s = Some s'
    \<and> objects s' i = None \<and> on_closed (http_env env handler h) i s' = None"
proof -
  let ?c = "c\<lparr>onMessageCallback := None, onConnectCloseCallback := None,
    closeCompleteCallback := Some CloseLambda\<rparr>"
  let ?w = "if uv_is_active (uv env) i (world s) then uv_read_stop (uv env) i (world s) else world s"
  let ?s = "s\<lparr>pending := [], world := ?w, objects := (objects s)(i \<mapsto> ?c)\<rparr>"
  have "closeConnection env nm (s\<lparr>pending := []\<rparr>) = close_done env nm ?s"
    using assms libuv.closing [OF assms(1)]
    by (simp add: closeConnection_def conn_close_def CloseComplete_def run_if_def Let_def getConnnection_def)
  also have "\<dots> = Some (removeConnnection nm ?s)"
    using assms(5,7) by (simp add: close_done_def getConnnection_def run_user_def)
  finally have "on_written (http_env env handler h) 0 st s = Some (removeConnnection nm ?s)"
    using assms(8) by (simp add: on_written_def index_at_def write_done_def run_act_def http_env_def close_env_def)
  moreover have "objects (removeConnnection nm ?s) i = None"
    using assms(5) by (simp add: removeConnnection_def getConnnection_def)
  ultimately show ?thesis by (simp add: on_closed_def)
qed

definition example_peer_leaves :: "(unit HttpCb, Sim) TcpServer option" where
  "example_peer_leaves =
     (let env = http_env example_http_env (\<lambda>f req resp. fst (resp_swapContent ''ok'' resp))
            (http_Get ''/'' (Some ()) HttpServer_new);
          msg = bytes_of (''GET / HTTP/1.1'' @ Crlf @ Crlf)
      in do {
           s \<leftarrow> onAccept env 7 (http_server sim_uv 1 sim_init);
           s \<leftarrow> on_read env 7 (int (length msg)) msg s;
           on_read env 7 (-1) [] s
         })"

theorem http_disconnect_crash_witness:
  "\<exists>s s'. example_peer_leaves = Some s
     \<and> on_written (http_env example_http_env (\<lambda>f req resp. fst (resp_swapContent ''ok'' resp))
           (http_Get ''/'' (Some ()) HttpServer_new)) 0 (-125) s = Some s'
     \<and> on_closed (http_env example_http_env (\<lambda>f req resp. fst (resp_swapContent ''ok'' resp))
           (http_Get ''/'' (Some ()) HttpServer_new)) 7 s' = None"
proof -
  have "case example_peer_leaves of None \<Rightarrow> False | Some s \<Rightarrow>
      (case objects s 7 of None \<Rightarrow> False | Some c \<Rightarrow> name c = ''127.0.0.1:1792'' \<and> conn_handle c = 7)
      \<and> getConnnection ''127.0.0.1:1792'' s = Some 7 \<and> is_closing example_http_env s 7
      \<and> onConnectCloseCb s = None \<and> length (pending s) = 1
      \<and> fst (hd (pending s)) = 7 \<and> fst (snd (hd (pending s))) = Some (UserWrite (WriteClose ''127.0.0.1:1792''))"
    by code_simp
  then obtain s c where s: "example_peer_leaves = Some s" "objects s 7 = Some c" "name c = ''127.0.0.1:1792''"
    "conn_handle c = 7" "getConnnection ''127.0.0.1:1792'' s = Some 7" "is_closing example_http_env s 7"
    "onConnectCloseCb s = None"
    and "length (pending s) = 1" "fst (hd (pending s)) = 7"
      "fst (snd (hd (pending s))) = Some (UserWrite (WriteClose ''127.0.0.1:1792''))"
    by (auto split: option.splits)
  then have "pending s = [(7, Some (UserWrite (WriteClose ''127.0.0.1:1792'')), snd (snd (hd (pending s))))]"
    by (cases "pending s") (auto simp: prod_eq_iff)
  moreover have "libuv (uv example_http_env)" using sim.libuv_axioms by (simp add: example_http_env_def)
  ultimately show ?thesis using http_disconnect_crash [OF _ s(2-7)] s(1) by blast
qed

end
