(* ===== verification/HttpClient.thy ===== *)
theory HttpClient
  imports TcpClient Response
begin

text \<open>
  The HTTP client (\<open>uv/http/HttpClient.cpp\<close>): it owns a TCP client whose status and message
  callbacks are its methods. A method returns the client, what it writes through the TCP client, and
  the calls of the user's callback; \<open>hc_event\<close> runs the methods on what a TCP event passes to them.
\<close>

section \<open>State\<close>

datatype ReqResult = RespSuccess | ConnectFail | ParseFail | Unknow

record 'c HttpClient =
  hc_callback :: "'c option"
  hc_req :: Request
  hc_buffer :: "uint8 list"
  hc_connected :: bool

type_synonym 'c RespCall = "'c \<times> ReqResult \<times> Response option"

definition HttpClient_new :: "'c HttpClient" where
  "HttpClient_new = \<lparr>hc_callback = None, hc_req = Request_default,
     hc_buffer = resize 20480 [], hc_connected = False\<rparr>"

text \<open>The callbacks that it gives to its TCP client.\<close>

datatype HcBind = HcStatus | HcMessage | HcDelete

text \<open>The destructor closes a connected client and deletes it when that is done, or at once.\<close>

definition HttpClient_delete ::
  "(HcBind, 'w) ClientEnv \<Rightarrow> 'c HttpClient \<Rightarrow> (HcBind, 'w) TcpClient \<Rightarrow> (HcBind, 'w) TcpClient option option"
where
  "HttpClient_delete env hc cl =
     (if hc_connected hc then map_option Some (cl_close env (Some HcDelete) cl) else Some None)"

section \<open>Operations\<close>

definition hc_Req ::
  "(HcBind, 'w) ClientEnv \<Rightarrow> handle \<Rightarrow> SocketAddr \<Rightarrow> Request \<Rightarrow> 'c HttpClient \<times> (HcBind, 'w) TcpClient \<Rightarrow>
    'c HttpClient \<times> (HcBind, 'w) TcpClient"
where
  "hc_Req env h addr req = (\<lambda>(hc, cl).
     let hc = hc\<lparr>hc_req := req, hc_buffer := []\<rparr>;
         cl = setConnectStatusCallback (Some HcStatus) cl;
         cl = cl_setMessageCallback (Some HcMessage) cl
     in (hc, cl_connect env h addr cl))"

definition setOnResp :: "'c option \<Rightarrow> 'c HttpClient \<Rightarrow> 'c HttpClient" where
  "setOnResp cb hc = hc\<lparr>hc_callback := cb\<rparr>"

definition onResp :: "ReqResult \<Rightarrow> Response option \<Rightarrow> 'c HttpClient \<Rightarrow> 'c RespCall list" where
  "onResp rst resp hc = (case hc_callback hc of Some f \<Rightarrow> [(f, rst, resp)] | None \<Rightarrow> [])"

definition hc_onConnectStatus ::
  "ConnectStatus \<Rightarrow> 'c HttpClient \<Rightarrow> ('c HttpClient \<times> string option \<times> 'c RespCall list) option"
where
  "hc_onConnectStatus st hc =
     (case st of
        OnConnectSuccess \<Rightarrow>
          (let hc = hc\<lparr>hc_connected := True\<rparr>
           in Some (hc, Some (snd (req_pack (hc_req hc))), []))
      | OnConnnectFail \<Rightarrow>
          (let hc = hc\<lparr>hc_connected := False\<rparr> in Some (hc, None, onResp ConnectFail None hc))
      | OnConnnectClose \<Rightarrow>
          (let hc = hc\<lparr>hc_connected := False\<rparr>
           in do {
             (rst, resp) \<leftarrow> resp_unpack (string_of (hc_buffer hc)) Response_default;
             Some (hc, None,
               if rst = Success then onResp RespSuccess (Some resp) hc else onResp ParseFail None hc)
           }))"

text \<open>The sizes are cut to \<open>unsigned\<close>. The log is the last component.\<close>

definition hc_onMessage ::
  "uint8 list \<Rightarrow> 'c HttpClient \<Rightarrow> ('c HttpClient \<times> 'c RespCall list \<times> string list) option"
where
  "hc_onMessage data hc =
     (let bufsize = word_of_nat (length (hc_buffer hc)) :: uint32;
          datasize = bufsize + word_of_nat (length data)
      in do {
        buffer \<leftarrow> copy_to (resize (unat datasize) (hc_buffer hc)) (unat bufsize) data;
        let hc = hc\<lparr>hc_buffer := buffer\<rparr>;
        (rst, resp) \<leftarrow> resp_unpackAndCompleted (string_of buffer) Response_default;
        Some (if rst = Success then (hc, onResp RespSuccess (Some resp) hc, [])
              else if rst = ParseError
              then (hc\<lparr>hc_buffer := []\<rparr>, [], [''parse http's response error.''])
              else (hc, [], []))
      })"

section \<open>Events\<close>

text \<open>What the TCP client passes to its callbacks, in order, runs the methods.\<close>

fun hc_calls ::
  "(HcBind, 'w) ClientEnv \<Rightarrow> ClientArg list \<Rightarrow> 'c HttpClient \<times> (HcBind, 'w) TcpClient \<Rightarrow>
    (('c HttpClient \<times> (HcBind, 'w) TcpClient) \<times> 'c RespCall list) option"
where
  "hc_calls env [] x = Some (x, [])"
| "hc_calls env (StatusArg st # as) (hc, cl) =
     do {
       (hc, data, out) \<leftarrow> hc_onConnectStatus st hc;
       cl \<leftarrow> (case data of
         Some str \<Rightarrow> map_option fst (cl_write env (bytes_of str) None cl) | None \<Rightarrow> Some cl);
       (x, outs) \<leftarrow> hc_calls env as (hc, cl);
       Some (x, out @ outs)
     }"
| "hc_calls env (MessageArg buf # as) (hc, cl) =
     do {
       (hc, out, _) \<leftarrow> hc_onMessage buf hc;
       (x, outs) \<leftarrow> hc_calls env as (hc, cl);
       Some (x, out @ outs)
     }"
| "hc_calls env (_ # as) x = hc_calls env as x"

definition hc_event ::
  "(HcBind, 'w) ClientEnv \<Rightarrow> HcBind ClientEvent \<Rightarrow> 'c HttpClient \<times> (HcBind, 'w) TcpClient \<Rightarrow>
    (('c HttpClient \<times> (HcBind, 'w) TcpClient) \<times> 'c RespCall list) option"
where
  "hc_event env e = (\<lambda>(hc, cl).
     do {
       cl' \<leftarrow> cl_event env e cl;
       hc_calls env (drop (length (calls cl)) (calls cl')) (hc, cl')
     })"

fun hc_messages ::
  "uint8 list list \<Rightarrow> 'c HttpClient \<Rightarrow> ('c HttpClient \<times> 'c RespCall list) option"
where
  "hc_messages [] hc = Some (hc, [])"
| "hc_messages (p # ps) hc =
     do {
       (hc, out, _) \<leftarrow> hc_onMessage p hc;
       (hc, outs) \<leftarrow> hc_messages ps hc;
       Some (hc, out @ outs)
     }"

section \<open>A response in pieces\<close>

lemma hc_piece:
  assumes "length (hc_buffer hc) + length p < 2 ^ 31"
    and "resp_unpackAndCompleted (string_of (hc_buffer hc @ p)) Response_default = Some (rst, resp)"
    and "rst \<noteq> ParseError"
  shows "hc_onMessage p hc = Some (hc\<lparr>hc_buffer := hc_buffer hc @ p\<rparr>,
    if rst = Success then onResp RespSuccess (Some resp) hc else [], [])"
proof -
  have n: "unat (word_of_nat (length (hc_buffer hc)) + word_of_nat (length p) :: uint32)
      = length (hc_buffer hc) + length p" "unat (word_of_nat (length (hc_buffer hc)) :: uint32) = length (hc_buffer hc)"
    using assms(1) by (simp_all add: unat_of_nat flip: of_nat_add)
  have "copy_to (resize (length (hc_buffer hc) + length p) (hc_buffer hc)) (length (hc_buffer hc)) p
      = Some (hc_buffer hc @ p)"
    by (simp add: resize_def)
  then show ?thesis
    using assms(2,3) by (cases rst) (simp_all add: hc_onMessage_def n onResp_def Let_def)
qed

lemma hc_pieces:
  assumes "resp_ok r" and "resp_framed r \<or> resp_open r"
    and "hc_buffer hc @ concat ps = bytes_of (snd (resp_pack r))" and "[] \<notin> set ps" and "ps \<noteq> []"
  shows "hc_messages ps hc = Some (hc\<lparr>hc_buffer := bytes_of (snd (resp_pack r))\<rparr>,
    if resp_framed r then onResp RespSuccess (Some r) hc else [])"
  using assms(3-5)
proof (induction ps arbitrary: hc)
  case (Cons p ps)
  let ?D = "snd (resp_pack r)" and ?n = "length (hc_buffer hc) + length p"
  have short: "length ?D < 2 ^ 31" using assms(1) by (simp add: resp_ok_def)
  have len: "?n + length (concat ps) = length ?D"
    using arg_cong [OF Cons.prems(1), of length] by simp
  have "hc_buffer hc @ p = take ?n (bytes_of ?D)" by (simp flip: Cons.prems(1))
  then have str: "string_of (hc_buffer hc @ p) = take ?n ?D"
    by (simp only: string_of_take string_of_bytes_of)
  show ?case
  proof (cases "ps = []")
    case True
    then have all: "string_of (hc_buffer hc @ p) = ?D" using len str by simp
    have fits: "length (hc_buffer hc) + length p < 2 ^ 31" using len short by linarith
    show ?thesis
    proof (cases "resp_framed r")
      case framed: True
      then have "resp_unpackAndCompleted (string_of (hc_buffer hc @ p)) Response_default = Some (Success, r)"
        using resp_complete [OF assms(1)] all by (simp add: resp_framed_def)
      from hc_piece [OF fits this] show ?thesis using framed True Cons.prems(1) by simp
    next
      case False
      with assms(2) obtain r' where
        "resp_unpackAndCompleted (string_of (hc_buffer hc @ p)) Response_default = Some (Fail, r')"
        using resp_incomplete [OF assms(1), of "length ?D"] all by auto
      from hc_piece [OF fits this] show ?thesis using False True Cons.prems(1) by simp
    qed
  next
    case False
    then have "0 < length (concat ps)" using Cons.prems(2) by (cases ps) auto
    with len have "?n < length ?D" by linarith
    then obtain r' where "resp_unpackAndCompleted (string_of (hc_buffer hc @ p)) Response_default = Some (Fail, r')"
      using resp_incomplete [OF assms(1)] assms(2) str by metis
    from hc_piece [OF _ this] have "hc_onMessage p hc = Some (hc\<lparr>hc_buffer := hc_buffer hc @ p\<rparr>, [], [])"
      using len short by simp
    moreover have "hc_messages ps (hc\<lparr>hc_buffer := hc_buffer hc @ p\<rparr>)
        = Some (hc\<lparr>hc_buffer := bytes_of ?D\<rparr>, if resp_framed r then onResp RespSuccess (Some r) hc else [])"
      using Cons.IH [of "hc\<lparr>hc_buffer := hc_buffer hc @ p\<rparr>"] Cons.prems False by (simp add: onResp_def)
    ultimately show ?thesis by simp
  qed
qed simp

lemma hc_response:
  assumes "resp_ok r" and "resp_framed r \<or> resp_open r"
    and "hc_buffer hc = []" and "hc_callback hc = Some f"
    and "concat ps = bytes_of (snd (resp_pack r))" and "[] \<notin> set ps"
  shows "\<exists>hc1 hc2.
      hc_messages ps hc = Some (hc1, if resp_framed r then [(f, RespSuccess, Some r)] else [])
    \<and> hc_onConnectStatus OnConnnectClose hc1 = Some (hc2, None, [(f, RespSuccess, Some r)])"
proof -
  have "ps \<noteq> []" using assms(5) by (auto simp: resp_pack_lines bytes_of_def Crlf_def)
  from hc_pieces [OF assms(1,2) _ assms(6) this, of hc] assms(3,5)
  have "hc_messages ps hc = Some (hc\<lparr>hc_buffer := bytes_of (snd (resp_pack r))\<rparr>,
      if resp_framed r then [(f, RespSuccess, Some r)] else [])"
    using assms(4) by (simp add: onResp_def)
  moreover have "resp_unpack (snd (resp_pack r)) Response_default = Some (Success, r)"
    using resp_complete [OF assms(1)] by simp
  ultimately show ?thesis using assms(4) by (simp add: hc_onConnectStatus_def onResp_def)
qed

section \<open>Properties\<close>

text \<open>A response that arrives in pieces of any sizes and whose \<open>Content-Length\<close> says its size is
  delivered to the user when its last piece has arrived, and not before, and once more when the
  connection is closed afterwards, since the buffer is kept; a response that has neither a length nor
  chunks is delivered once, when the connection is closed.\<close>

theorem http_client_response:
  assumes "resp_ok r" and "resp_framed r \<or> resp_open r"
    and "hc_buffer hc = []" and "hc_callback hc = Some f"
    and "concat ps = bytes_of (snd (resp_pack r))" and "[] \<notin> set ps"
  shows "\<exists>hc1 hc2.
      hc_messages ps hc = Some (hc1, if resp_framed r then [(f, RespSuccess, Some r)] else [])
    \<and> hc_onConnectStatus OnConnnectClose hc1 = Some (hc2, None, [(f, RespSuccess, Some r)])"
  using assms by (rule hc_response)

theorem http_client_response_witness:
  "\<exists>hc. hc_messages [take 9 (bytes_of (snd (resp_pack example_response))), drop 9 (bytes_of (snd (resp_pack example_response)))]
     (HttpClient_new\<lparr>hc_buffer := [], hc_callback := Some ()\<rparr>) = Some (hc, [((), RespSuccess, Some example_response)])"
proof -
  let ?D = "snd (resp_pack example_response)"
  have len: "9 < length ?D" "length ?D < 100" by code_simp+
  have "heads_ok (resp_heads example_response)" by code_simp
  then have ok: "resp_ok example_response"
    using len by (simp add: resp_ok_def) (simp add: example_response_def Response_new_def plain_def)
  have framed: "resp_framed example_response" by code_simp
  have "bytes_of ?D \<noteq> []" using len length_bytes_of [of ?D] by (metis less_zeroE list.size(3))
  then have "concat [take 9 (bytes_of ?D), drop 9 (bytes_of ?D)] = bytes_of ?D"
    "[] \<notin> set [take 9 (bytes_of ?D), drop 9 (bytes_of ?D)]" using len by auto
  from http_client_response [OF ok disjI1 [OF framed] _ _ this,
      of "HttpClient_new\<lparr>hc_buffer := [], hc_callback := Some ()\<rparr>" "()"] framed
  show ?thesis by auto
qed

end
