(* ===== verification/HttpExample.thy ===== *)
theory HttpExample
  imports HttpServer HttpClient
begin

text \<open>
  An HTTP client and an HTTP server together, and the example server with its five routes and
  handlers (\<open>examples/http_server/main.cpp\<close>). A \<open>std::function\<close> of the example is an HOL function, so
  the server's interpretation of its handlers is the identity.
\<close>

section \<open>A request and its answer\<close>

text \<open>
  The client writes its request when it is connected; the server gets it in pieces and writes an
  answer, which the client gets in pieces; then the server closes the connection.
\<close>

definition exchange ::
  "('u HttpCb, 'w) Env \<Rightarrow> ('h \<Rightarrow> Request \<Rightarrow> Response \<Rightarrow> Response) \<Rightarrow> 'h HttpServer \<Rightarrow> nat \<Rightarrow>
    ('u HttpCb, 'w) TcpServer \<Rightarrow> 'c HttpClient \<Rightarrow> (uint8 list \<Rightarrow> uint8 list list) \<Rightarrow> (uint8 list \<Rightarrow> uint8 list list) \<Rightarrow>
    ('c RespCall list \<times> 'c RespCall list) option"
where
  "exchange env handler h i s hc up down =
     do {
       (hc, data, _) \<leftarrow> hc_onConnectStatus OnConnectSuccess hc;
       str \<leftarrow> data;
       s' \<leftarrow> http_messages env handler h i (up (bytes_of str)) s;
       answer \<leftarrow> (case drop (length (pending s)) (pending s') of [(_, _, buf)] \<Rightarrow> Some buf | _ \<Rightarrow> None);
       (hc, out) \<leftarrow> hc_messages (down answer) hc;
       (hc, _, out') \<leftarrow> hc_onConnectStatus OnConnnectClose hc;
       Some (out, out')
     }"

lemma exchange_ok:
  assumes "req_ok (hc_req hc)" and "req_framed (hc_req hc)" and "hc_buffer hc = []" and "hc_callback hc = Some g"
    and "objects s i = Some c" and "connected c" and "conn_valid (cycle_size env) (conn_buffer c)"
    and "conn_bytes (conn_buffer c) = []"
    and "length (snd (req_pack (hc_req hc))) \<le> conn_room (cycle_size env) (conn_buffer c)"
    and "tree_get (req_path (hc_req hc)) (route h (req_methon (hc_req hc))) = Some (Some (Some f))"
    and "resp = handler f ((hc_req hc)\<lparr>req_value := []\<rparr>) Response_default"
    and "resp_ok resp" and "resp_framed resp \<or> resp_open resp"
    and "\<forall>w. fst (uv_write (uv env) (conn_handle c) (bytes_of (snd (resp_pack resp))) w) = 0"
    and "cuts up" and "cuts down"
  shows "exchange env handler h i s hc up down
    = Some (if resp_framed resp then [(g, RespSuccess, Some resp)] else [], [(g, RespSuccess, Some resp)])"
proof -
  let ?hc = "hc\<lparr>hc_connected := True\<rparr>" and ?str = "snd (req_pack (hc_req hc))"
  have start: "hc_onConnectStatus OnConnectSuccess hc = Some (?hc, Some ?str, [])"
    by (simp add: hc_onConnectStatus_def)
  obtain w where "uv_write (uv env) (conn_handle c) (bytes_of (snd (resp_pack resp))) (world s) = (0, w)"
    using assms(14) by (metis prod.collapse)
  from http_answer [where handler = handler and ps = "up (bytes_of ?str)",
      OF request_text_pack [OF assms(1,2)] assms(5-9) _ _ _ _ this, of h f] assms(10,11,15)
  obtain s' where s': "http_messages env handler h i (up (bytes_of ?str)) s = Some s'"
    "pending s' = pending s @ [(i, Some (UserWrite (WriteClose (name c))), bytes_of (snd (resp_pack resp)))]"
    by (auto simp: cuts_def)
  from hc_response [OF assms(12,13), of ?hc g "down (bytes_of (snd (resp_pack resp)))"] assms(3,4,16)
  obtain hc1 hc2 where "hc_messages (down (bytes_of (snd (resp_pack resp)))) ?hc
      = Some (hc1, if resp_framed resp then [(g, RespSuccess, Some resp)] else [])"
    "hc_onConnectStatus OnConnnectClose hc1 = Some (hc2, None, [(g, RespSuccess, Some resp)])"
    by (auto simp: cuts_def)
  with start s' show ?thesis by (simp add: exchange_def)
qed

section \<open>The example server\<close>

abbreviation ok_response :: "string \<Rightarrow> Response \<Rightarrow> Response" where
  "ok_response str resp \<equiv>
     fst (resp_swapContent str (resp_appendHead ''Server'' ''uv-cpp''
       (setStatus (code_int OK) ''OK'' (resp_setVersion Http1_1 resp))))"

definition func1 :: "Request \<Rightarrow> Response \<Rightarrow> Response" where
  "func1 req resp = (let str = ''test~'' in ok_response str resp)"

definition func2 :: "Request \<Rightarrow> Response \<Rightarrow> Response" where
  "func2 req resp = (let str = getPath req in ok_response str resp)"

definition func3 :: "Request \<Rightarrow> Response \<Rightarrow> Response" where
  "func3 req resp = (let str = ''value is ''; str = str @ getValue req in ok_response str resp)"

text \<open>\<open>std::to_string\<close> of a \<open>double\<close> that is an integer, as a sum of two \<open>int\<close>s is: six decimals.\<close>

definition double_to_string :: "int \<Rightarrow> string" where
  "double_to_string n = std_to_string n @ ''.000000''"

definition func4 :: "Request \<Rightarrow> Response \<Rightarrow> Response" where
  "func4 req resp =
     (let value1 = getUrlParam ''param1'' req;
          value2 = getUrlParam ''param2'' req;
          sum = do { num1 \<leftarrow> stoi 10 value1; num2 \<leftarrow> stoi 10 value2;
                     Some (''sum :'' @ double_to_string (num1 + num2)) };
          str = (case sum of Some str \<Rightarrow> str | None \<Rightarrow> ''param is not num.'')
      in ok_response str resp)"

definition func5 :: "Request \<Rightarrow> Response \<Rightarrow> Response" where
  "func5 req resp = (let str = ''uv-cpp default page.'' in ok_response str resp)"

type_synonym OnHttpReqCallback = "Request \<Rightarrow> Response \<Rightarrow> Response"

definition example_routes :: "OnHttpReqCallback HttpServer" where
  "example_routes =
     (let server = HttpServer_new;
          server = http_Get ''/test'' (Some func1) server;
          server = http_Get ''/some*'' (Some func2) server;
          server = http_Get ''/value:'' (Some func3) server;
          server = http_Get ''/sum'' (Some func4) server
      in http_Get ''/*'' (Some func5) server)"

section \<open>The routes\<close>

lemma leaf_get:
  assumes "k \<noteq> []" and "WildCard \<notin> set k"
  shows "getNode (Node False k Null n v) key =
    (if common k key = 0 then if is_Null n then Some None else getNode n key
     else Some (if key = k then Some v else None))"
proof -
  have "last k \<noteq> WildCard" using assms by (metis last_in_set)
  moreover have "common k key = length k \<and> length k = length key \<longleftrightarrow> key = k"
    using common_full [of k key] by auto
  ultimately show ?thesis using GetCommomStringLength_le [of k key] by (auto simp: Let_def)
qed

lemma wild_get:
  assumes "WildCard \<notin> set p"
  shows "getNode (Node False (p @ [WildCard]) Null n v) key =
    (if take (length p) key = p
     then Some (if take 1 (drop (length p) key) = [WildCard] \<and> length p + 1 < length key then None else Some v)
     else if common p key = 0 then if is_Null n then Some None else getNode n key
     else Some None)"
proof (cases "take (length p) key = p")
  case True
  then obtain r where "key = p @ r" by (metis append_take_drop_id)
  then show ?thesis
    using common_snoc [OF assms, of key] by (cases r) (auto simp: Let_def)
next
  case False
  then have "common p key < length p"
    using GetCommomStringLength_le(1) [of p key] GetCommomStringLength_take [of p key]
    by (cases "common p key = length p") auto
  with False show ?thesis using common_snoc [OF assms, of key] by (auto simp: Let_def)
qed

lemma example_tree:
  "route example_routes Get =
     Node True ''/''
       (Node False ''test'' Null
         (Node True ''s'' (Node False ''ome*'' Null (Node False ''um'' Null Null (Some func4)) (Some func2))
           (Node False ''value:'' Null (Node False ''*'' Null Null (Some func5)) (Some func3)) (Some func2))
         (Some func1))
       Null (Some func1)"
  by (simp add: example_routes_def http_Get_def HttpServer_new_def RadixTree_new_def tree_set_def)

declare getNode.simps(2) [simp del]

text \<open>What the example answers to a path, as a table.\<close>

definition example_table :: "string \<Rightarrow> OnHttpReqCallback option" where
  "example_table path =
     (if path = ''/test'' then Some func1
      else if take 5 path = ''/some'' \<and> \<not> (take 1 (drop 5 path) = ''*'' \<and> 6 < length path) then Some func2
      else if path = ''/value:'' then Some func3
      else if path = ''/sum'' then Some func4
      else if take 1 path = ''/'' \<and> 1 < length path \<and> path ! 1 \<notin> {CHR ''t'', CHR ''s'', CHR ''v''}
        \<and> \<not> (path ! 1 = CHR ''*'' \<and> 2 < length path) then Some func5
      else None)"

lemma get_s_node:
  "getNode (Node False ''ome*'' Null (Node False ''um'' Null Null v4) v2) key = Some
    (if take 3 key = ''ome'' \<and> \<not> (take 1 (drop 3 key) = ''*'' \<and> 4 < length key) then Some v2
     else if key = ''um'' then Some v4 else None)"
proof -
  have plain: "WildCard \<notin> set ''ome''" "WildCard \<notin> set ''um''" by (simp_all add: WildCard_def)
  have "common ''ome'' key \<noteq> 0 \<Longrightarrow> key \<noteq> ''um''" by auto
  then show ?thesis
    using wild_get [OF plain(1), of "Node False ''um'' Null Null v4" v2 key]
      leaf_get [OF _ plain(2), of Null v4 key]
    by (simp add: WildCard_def numeral_eq_Suc)
qed

lemma get_v_node:
  "getNode (Node False ''value:'' Null (Node False ''*'' Null Null v5) v3) (b # r) = Some
    (if b # r = ''value:'' then Some v3 else if b = CHR ''v'' \<or> b = CHR ''*'' \<and> r \<noteq> [] then None else Some v5)"
proof -
  have plain: "WildCard \<notin> set ''value:''" "WildCard \<notin> set ([] :: string)" by (simp_all add: WildCard_def)
  show ?thesis
    using wild_get [OF plain(2), of Null v5 "b # r"] leaf_get [OF _ plain(1), of "Node False ''*'' Null Null v5" v3 "b # r"]
    by (auto simp: WildCard_def)
qed

lemma example_children:
  "getNode (child (route example_routes Get)) (b # r) = Some (map_option Some (example_table (CHR ''/'' # b # r)))"
proof -
  have plain: "WildCard \<notin> set ''test''" by (simp add: WildCard_def)
  note test = leaf_get [OF _ plain]
  consider "b = CHR ''t''" | "b = CHR ''s''" | "b \<notin> {CHR ''t'', CHR ''s''}" by auto
  then show ?thesis
  proof cases
    case 1
    then show ?thesis unfolding example_tree by (simp add: test example_table_def WildCard_def)
  next
    case 2
    then show ?thesis
      unfolding example_tree
      by (cases r) (simp_all add: test getNode.simps(2) [of _ "''s''"] get_s_node example_table_def WildCard_def)
  next
    case 3
    then show ?thesis
      unfolding example_tree
      by (simp add: test getNode.simps(2) [of _ "''s''"] get_v_node example_table_def WildCard_def) blast
  qed
qed

lemma example_get: "tree_get path (route example_routes Get) = Some (map_option Some (example_table path))"
proof (cases path)
  case Nil
  then show ?thesis by (simp add: tree_get_def getNode.simps(2) example_tree example_table_def WildCard_def)
next
  case (Cons a r)
  show ?thesis
  proof (cases "a = CHR ''/''")
    case False
    with Cons show ?thesis
      by (simp add: tree_get_def getNode.simps(2) example_tree example_table_def WildCard_def)
  next
    case True
    show ?thesis
    proof (cases r)
      case Nil
      with True Cons show ?thesis
        by (simp add: tree_get_def getNode.simps(2) example_tree example_table_def WildCard_def)
    next
      case (Cons b r')
      have "tree_get path (route example_routes Get) = getNode (child (route example_routes Get)) (b # r')"
        using True Cons \<open>path = a # r\<close> by (simp add: tree_get_def getNode.simps(2) example_tree WildCard_def)
      then show ?thesis
        using True Cons \<open>path = a # r\<close> by (simp add: example_children)
    qed
  qed
qed

section \<open>The sum\<close>

definition sum_request :: "nat \<Rightarrow> nat \<Rightarrow> Request" where
  "sum_request a b =
     appendUrlParam ''param2'' (std_to_string (int b)) (appendUrlParam ''param1'' (std_to_string (int a))
       (setPath ''/sum'' (Request_new Http1_1 Get)))"

definition sum_response :: "nat \<Rightarrow> nat \<Rightarrow> Response" where
  "sum_response a b = ok_response (''sum :'' @ double_to_string (int (a + b))) Response_default"

lemma to_base_length: "n < 10 ^ k \<Longrightarrow> 0 < k \<Longrightarrow> length (to_base 10 n) \<le> k"
proof (induction k arbitrary: n)
  case (Suc k)
  show ?case
  proof (cases "n < 10")
    case False
    then have "n div 10 < 10 ^ k" "0 < k" using Suc.prems by (cases k; auto simp: less_mult_imp_div_less)+
    with Suc.IH show ?thesis by (subst to_base.simps) simp
  qed (subst to_base.simps, simp)
qed simp

lemma number_plain:
  assumes "\<forall>c\<in>insert (CHR 0x0D) cs. digit_val 10 c = None"
  shows "plain cs (std_to_string (int n))"
  using to_base_all_digits [of 10 n] assms by (fastforce simp: plain_def std_to_string_def)

lemma sum_request_ok:
  assumes "a < 2 ^ 31" and "b < 2 ^ 31"
  shows "req_ok (sum_request a b)" and "req_framed (sum_request a b)" and "length (snd (req_pack (sum_request a b))) \<le> 100"
    and "req_path (sum_request a b) = ''/sum''" and "req_methon (sum_request a b) = Get"
proof -
  have len: "length (std_to_string (int n)) \<le> 10" if "n < 2 ^ 31" for n
    using to_base_length [of n 10] that by (simp add: std_to_string_def)
  have r: "sum_request a b = \<lparr>req_version = Http1_1, req_methon = Get, req_path = ''/sum'', req_value = [],
      req_urlParms = [(''param1'', std_to_string (int a)), (''param2'', std_to_string (int b))],
      req_heads = [], req_content = []\<rparr>"
    by (simp add: sum_request_def appendUrlParam_def setPath_def Request_new_def map_insert_def map_get_def)
  then show path: "req_path (sum_request a b) = ''/sum''" and m: "req_methon (sum_request a b) = Get" by simp_all
  have "plain {CHR '' '', CHR '':'', CHR ''&''} (std_to_string (int n))" for n
    by (rule number_plain) (simp add: digit_val_def)
  then have url: "url_ok (req_path (sum_request a b)) (req_urlParms (sum_request a b))"
    by (simp add: r url_ok_def plain_def std_map_def)
  show short: "length (snd (req_pack (sum_request a b))) \<le> 100"
    using len [OF assms(1)] len [OF assms(2)]
    by (simp add: r req_pack_def packPathParam_def pack_params_def pack_heads_def MethonToStr_def
        HttpVersionToStr_def Let_def)
  with url show "req_ok (sum_request a b)" by (simp add: req_ok_def r heads_ok_def)
  show "req_framed (sum_request a b)" by (simp add: req_framed_def r content_length_def map_get_def)
qed

lemmas response_defs = sum_response_def resp_appendHead_def setStatus_def resp_setVersion_def
  resp_swapContent_def Response_default_def Response_new_def map_insert_def map_get_def

lemma sum_response_ok:
  assumes "a < 2 ^ 31" and "b < 2 ^ 31"
  shows "func4 ((sum_request a b)\<lparr>req_value := []\<rparr>) Response_default = sum_response a b"
    and "resp_ok (sum_response a b)" and "resp_open (sum_response a b)"
proof -
  have "stoi 10 (std_to_string (int a)) = Some (int a)" "stoi 10 (std_to_string (int b)) = Some (int b)"
    using assms by (simp_all add: stoi_length)
  then show "func4 ((sum_request a b)\<lparr>req_value := []\<rparr>) Response_default = sum_response a b"
    by (simp add: func4_def sum_request_def sum_response_def getUrlParam_def appendUrlParam_def setPath_def
        Request_new_def map_insert_def map_get_def)
  have "length (std_to_string (int a + int b)) \<le> 10"
    using to_base_length [of "a + b" 10] assms by (simp add: std_to_string_def nat_add_distrib)
  moreover have "std_to_string 200 = ''200''" by code_simp
  ultimately have "length (snd (resp_pack (sum_response a b))) < 2 ^ 31"
    by (simp add: response_defs resp_pack_def pack_heads_def double_to_string_def HttpVersionToStr_def Let_def)
  then show "resp_ok (sum_response a b)"
    by (simp add: response_defs resp_ok_def heads_ok_def plain_def std_map_def)
  show "resp_open (sum_response a b)"
    by (simp add: response_defs resp_open_def content_length_def)
qed

section \<open>Properties\<close>

text \<open>C6: on the whole way from one side to the other: a well-formed request that an HTTP client sends when it is
  connected, cut into any pieces, is answered by the handler of its route, and the response, cut into
  any pieces, is given to the client's callback, once when the connection is closed and before that
  when its \<open>Content-Length\<close> says that it is complete. Well-formed: the request is one that
  the round trip of Request covers (\<open>req_ok\<close>), it has no body or a \<open>Content-Length\<close> that says the body's length
  (\<open>req_framed\<close>; a body without one is answered as soon as the head has arrived), and it fits the buffer of
  the server's connection, which is up and whose buffer is empty; the response is \<open>resp_ok\<close> with a right
  \<open>Content-Length\<close> or with none and no chunks. Both sides' writes are taken by libuv with the bytes that
  they have at the call.\<close>

theorem http_exchange:
  assumes "req_ok (hc_req hc)" and "req_framed (hc_req hc)" and "hc_buffer hc = []" and "hc_callback hc = Some g"
    and "objects s i = Some c" and "connected c" and "conn_valid (cycle_size env) (conn_buffer c)"
    and "conn_bytes (conn_buffer c) = []"
    and "length (snd (req_pack (hc_req hc))) \<le> conn_room (cycle_size env) (conn_buffer c)"
    and "tree_get (req_path (hc_req hc)) (route h (req_methon (hc_req hc))) = Some (Some (Some f))"
    and "resp = handler f ((hc_req hc)\<lparr>req_value := []\<rparr>) Response_default"
    and "resp_ok resp" and "resp_framed resp \<or> resp_open resp"
    and "\<forall>w. fst (uv_write (uv env) (conn_handle c) (bytes_of (snd (resp_pack resp))) w) = 0"
    and "cuts up" and "cuts down"
  shows "exchange env handler h i s hc up down
    = Some (if resp_framed resp then [(g, RespSuccess, Some resp)] else [], [(g, RespSuccess, Some resp)])"
  using assms by (rule exchange_ok)

theorem http_exchange_witness:
  "exchange example_http_env (\<lambda>f req resp. example_response) (http_Post ''/sum'' (Some ()) HttpServer_new) 7
     example_http_state (HttpClient_new\<lparr>hc_req := example_request, hc_buffer := [], hc_callback := Some ''cb''\<rparr>)
     whole whole
   = Some ([(''cb'', RespSuccess, Some example_response)], [(''cb'', RespSuccess, Some example_response)])"
proof -
  let ?hc = "HttpClient_new\<lparr>hc_req := example_request, hc_buffer := [], hc_callback := Some ''cb''\<rparr>"
    and ?h = "http_Post ''/sum'' (Some ()) HttpServer_new"
  have req: "hc_req ?hc = example_request" "hc_buffer ?hc = []" "hc_callback ?hc = Some ''cb''" by simp_all
  have route: "tree_get (req_path example_request) (route ?h (req_methon example_request)) = Some (Some (Some ()))"
    by code_simp
  have "length (snd (resp_pack example_response)) < 100" "heads_ok (resp_heads example_response)" by code_simp+
  then have ok: "resp_ok example_response"
    by (simp add: resp_ok_def) (simp add: example_response_def Response_new_def plain_def)
  have framed: "resp_framed example_response" by code_simp
  have "fst (uv_write (uv example_http_env) h d w) = 0" for h d w
    by (simp add: example_http_env_def sim_uv_def)
  then have "exchange example_http_env (\<lambda>f req resp. example_response) ?h 7 example_http_state ?hc whole whole
    = Some (if resp_framed example_response then [(''cb'', RespSuccess, Some example_response)] else [],
        [(''cb'', RespSuccess, Some example_response)])"
    using ok framed example_facts route cuts_whole
    by (intro http_exchange) (simp_all del: HttpClient.simps add: req)
  with framed show ?thesis by simp
qed

text \<open>The \<open>/sum\<close> service of the example, from end to end: a client that asks for the sum of two
  numbers below \<open>2 ^ 31\<close> gets a response that says their exact sum, exactly once, however the request
  and the response are cut on the way.\<close>

theorem sum_service:
  assumes "a < 2 ^ 31" and "b < 2 ^ 31"
    and "hc_req hc = sum_request a b" and "hc_buffer hc = []" and "hc_callback hc = Some g"
    and "objects s i = Some c" and "connected c" and "conn_valid (cycle_size env) (conn_buffer c)"
    and "conn_bytes (conn_buffer c) = []" and "100 \<le> conn_room (cycle_size env) (conn_buffer c)"
    and "\<forall>d w. fst (uv_write (uv env) (conn_handle c) d w) = 0" and "cuts up" and "cuts down"
  shows "\<exists>resp. exchange env (\<lambda>f. f) example_routes i s hc up down = Some ([], [(g, RespSuccess, Some resp)])
    \<and> resp_content resp = ''sum :'' @ std_to_string (int (a + b)) @ ''.000000''"
proof -
  note req = sum_request_ok [OF assms(1,2)] and resp = sum_response_ok [OF assms(1,2)]
  have "tree_get ''/sum'' (route example_routes Get) = Some (Some (Some func4))"
    by (simp add: example_get example_table_def)
  then have "exchange env (\<lambda>f. f) example_routes i s hc up down
      = Some (if resp_framed (sum_response a b) then [(g, RespSuccess, Some (sum_response a b))] else [],
          [(g, RespSuccess, Some (sum_response a b))])"
    using assms req resp by (intro exchange_ok [where f = func4]) auto
  moreover have "\<not> resp_framed (sum_response a b)" using resp(3) by (simp add: resp_framed_def resp_open_def)
  moreover have "resp_content (sum_response a b) = ''sum :'' @ std_to_string (int (a + b)) @ ''.000000''"
    by (simp add: sum_response_def resp_swapContent_def double_to_string_def)
  ultimately show ?thesis by simp
qed

theorem sum_service_witness:
  "\<exists>resp. exchange example_http_env (\<lambda>f. f) example_routes 7 example_http_state
       (HttpClient_new\<lparr>hc_req := sum_request 100 23, hc_buffer := [], hc_callback := Some ''cb''\<rparr>) whole whole
     = Some ([], [(''cb'', RespSuccess, Some resp)]) \<and> resp_content resp = ''sum :123.000000''"
proof -
  let ?hc = "HttpClient_new\<lparr>hc_req := sum_request 100 23, hc_buffer := [], hc_callback := Some ''cb''\<rparr>"
  have "hc_req ?hc = sum_request 100 23" "hc_buffer ?hc = []" "hc_callback ?hc = Some ''cb''" by simp_all
  moreover have "100 \<le> conn_room (cycle_size example_http_env)
      (conn_buffer (example_conn :: unit HttpCb ServerCb TcpConnection))"
    by (simp add: example_conn_def TcpConnection_new_def ListBuffer_init_def)
  moreover have "\<forall>d w. fst (uv_write (uv example_http_env) h d w) = 0" for h
    by (simp add: example_http_env_def sim_uv_def)
  moreover have "std_to_string (int (100 + 23)) = ''123''" by code_simp
  ultimately show ?thesis
    using sum_service [of 100 23 ?hc "''cb''" example_http_state 7 example_conn example_http_env whole whole]
      example_facts(5,7-9) cuts_whole by simp
qed

text \<open>The example server answers \<open>GET\<close> of every path as a table says: the four routes, and the
  default page; but paths that start with \<open>/t\<close>, \<open>/s\<close> or \<open>/v\<close> and are no route, and \<open>/\<close> itself, are not
  found, so that they get no answer at all instead of the default page.\<close>

theorem example_answers:
  "tree_get path (route example_routes Get) = Some (map_option Some (example_table path))"
  by (rule example_get)

end
