(* ===== verification/EventLoop.thy ===== *)
theory EventLoop
  imports Libuv
begin

text \<open>
  The event loop and its hand-over queue (\<open>uv/EventLoop.cpp\<close>, \<open>uv/Async.cpp\<close>). \<open>Async\<close> takes
  functions from any thread and runs them on the loop's thread. The operations are modelled one by
  one; the threads are modelled by a step relation whose steps are the operations' critical
  sections (a push under the mutex, the test of \<open>handle_\<close> with the wake-up, the swap under the
  mutex, one call) and the two halves of \<open>init\<close>, between which \<open>handle_\<close> points to a handle that is
  not initialised. \<open>uv_run\<close>, which runs callbacks that may do anything to the loop, is a parameter
  on the pair of loop and world.
\<close>

section \<open>Async\<close>

text \<open>\<open>handle_\<close> is null until \<open>init\<close>, which stores the new handle before it initialises it (\<open>Raw\<close>); the
  close callback deletes the handle and keeps the pointer.\<close>

datatype AsyncHandle = NullHandle | Raw handle | Live handle | Deleted

record 'cb Async =
  async_handle :: AsyncHandle
  callbacks :: "'cb list"
  onCloseComplet :: bool

definition Async_new :: "'cb Async" where
  "Async_new = \<lparr>async_handle = NullHandle, callbacks = [], onCloseComplet = False\<rparr>"

text \<open>The two halves of \<open>runInThisLoop\<close>: the push, then the test of \<open>handle_\<close>; the result of the
  second is the handle to signal, and it is undefined when the handle is not initialised or has been
  deleted. A pointer that is not null stays so: the test and the call of \<open>uv_async_send\<close> are one step.\<close>

definition async_push :: "'cb \<Rightarrow> 'cb Async \<Rightarrow> 'cb Async" where
  "async_push callback a = a\<lparr>callbacks := callbacks a @ [callback]\<rparr>"

definition async_signal :: "'cb Async \<Rightarrow> handle option option" where
  "async_signal a =
     (case async_handle a of NullHandle \<Rightarrow> Some None | Live h \<Rightarrow> Some (Some h) | _ \<Rightarrow> None)"

definition async_runInThisLoop ::
  "'w Libuv \<Rightarrow> 'cb \<Rightarrow> 'cb Async \<Rightarrow> 'w \<Rightarrow> ('cb Async \<times> 'w) option"
where
  "async_runInThisLoop uv callback a w =
     (let a = async_push callback a
      in case async_signal a of
           None \<Rightarrow> None
         | Some None \<Rightarrow> Some (a, w)
         | Some (Some h) \<Rightarrow> Some (a, uv_async_send uv h w))"

text \<open>\<open>init\<close>: the assignment of \<open>new uv_async_t\<close> to \<open>handle_\<close>, then \<open>uv_async_init\<close> with a first signal.\<close>

definition async_create :: "handle \<Rightarrow> 'cb Async \<Rightarrow> 'cb Async" where
  "async_create h a = a\<lparr>async_handle := Raw h\<rparr>"

definition async_start :: "'w Libuv \<Rightarrow> handle \<Rightarrow> 'cb Async \<Rightarrow> 'w \<Rightarrow> 'cb Async \<times> 'w" where
  "async_start uv h a w = (a\<lparr>async_handle := Live h\<rparr>, uv_async_send uv h (uv_async_init uv h w))"

definition async_init :: "'w Libuv \<Rightarrow> handle \<Rightarrow> 'cb Async \<Rightarrow> 'w \<Rightarrow> 'cb Async \<times> 'w" where
  "async_init uv h a w =
     (if async_handle a = NullHandle then async_start uv h (async_create h a) w else (a, w))"

text \<open>\<open>process\<close>: swap the queue with an empty one, then run its functions in order.\<close>

definition process_swap :: "'cb Async \<Rightarrow> 'cb list \<times> 'cb Async" where
  "process_swap a = (callbacks a, a\<lparr>callbacks := []\<rparr>)"

fun process_run :: "('cb \<Rightarrow> 's \<Rightarrow> 's) \<Rightarrow> 'cb list \<Rightarrow> 's \<Rightarrow> 's" where
  "process_run call [] s = s"
| "process_run call (func # cbs) s = process_run call cbs (call func s)"

definition async_process :: "('cb \<Rightarrow> 'cb Async \<times> 'x \<Rightarrow> 'cb Async \<times> 'x) \<Rightarrow> 'cb Async \<times> 'x \<Rightarrow> 'cb Async \<times> 'x" where
  "async_process call = (\<lambda>(a, x). case process_swap a of (cbs, a) \<Rightarrow> process_run call cbs (a, x))"

text \<open>\<open>close\<close> stores the callback that stops the loop; the close callback runs it and deletes.\<close>

definition async_close :: "'w Libuv \<Rightarrow> 'cb Async \<Rightarrow> 'w \<Rightarrow> ('cb Async \<times> 'w) option" where
  "async_close uv a w =
     (let a = a\<lparr>onCloseComplet := True\<rparr>
      in case async_handle a of
           Live h \<Rightarrow> Some (a, if \<not> uv_is_closing uv h w then uv_close uv h w else w)
         | _ \<Rightarrow> None)"

definition onCloseCompleted :: "'cb Async \<Rightarrow> 'cb Async \<times> bool" where
  "onCloseCompleted a = (a\<lparr>async_handle := Deleted\<rparr>, onCloseComplet a)"

section \<open>EventLoop\<close>

datatype Mode = Default | New

datatype Status = NotRun | Runed | Stop

record 'cb EventLoop =
  loopThreadId :: nat
  evloop :: nat
  async :: "'cb Async"
  status :: Status

text \<open>The constructor; \<open>n\<close> is the loop that \<open>new uv_loop_t\<close> makes. Thread 0 is the default
  \<open>std::thread::id\<close>, which is no thread.\<close>

definition EventLoop_make :: "'w Libuv \<Rightarrow> Mode \<Rightarrow> nat \<Rightarrow> 'w \<Rightarrow> 'cb EventLoop \<times> 'w" where
  "EventLoop_make uv mode n w =
     (case (if mode = New then (n, uv_loop_init uv n w) else (uv_default_loop uv, w)) of
        (lp, w) \<Rightarrow> (\<lparr>loopThreadId = 0, evloop = lp, async = Async_new, status = NotRun\<rparr>, w))"

definition EventLoop_new :: "'w Libuv \<Rightarrow> nat \<Rightarrow> 'w \<Rightarrow> 'cb EventLoop \<times> 'w" where
  "EventLoop_new uv n w = EventLoop_make uv New n w"

text \<open>\<open>DefaultLoop\<close>: the function's static object, which the first call makes.\<close>

definition DefaultLoop ::
  "'w Libuv \<Rightarrow> 'cb EventLoop option \<Rightarrow> 'w \<Rightarrow> 'cb EventLoop \<times> 'cb EventLoop option \<times> 'w"
where
  "DefaultLoop uv defaultLoop w =
     (case defaultLoop of
        Some l \<Rightarrow> (l, defaultLoop, w)
      | None \<Rightarrow> (case EventLoop_make uv Default 0 w of (l, w) \<Rightarrow> (l, Some l, w)))"

text \<open>The destructor; the Boolean says whether the \<open>Async\<close> and the \<open>uv_loop_t\<close> are deleted. The
  result of \<open>uv_loop_close\<close> is dropped.\<close>

definition EventLoop_delete :: "'w Libuv \<Rightarrow> 'cb EventLoop \<Rightarrow> 'w \<Rightarrow> bool \<times> 'w" where
  "EventLoop_delete uv l w =
     (if evloop l \<noteq> uv_default_loop uv then (True, snd (uv_loop_close uv (evloop l) w)) else (False, w))"

definition loop_handle :: "'cb EventLoop \<Rightarrow> nat" where
  "loop_handle l = evloop l"

text \<open>The common part of \<open>run\<close> and \<open>runNoWait\<close>; \<open>self\<close> is the calling thread, \<open>h\<close> a new handle.\<close>

definition loop_enter ::
  "'w Libuv \<Rightarrow> nat \<Rightarrow> handle \<Rightarrow> 'cb EventLoop \<Rightarrow> 'w \<Rightarrow> 'cb EventLoop \<times> 'w"
where
  "loop_enter uv self h l w =
     (case async_init uv h (async l) w of (a, w) \<Rightarrow>
        (l\<lparr>async := a, loopThreadId := self, status := Runed\<rparr>, w))"

definition loop_run ::
  "'w Libuv \<Rightarrow> ('cb EventLoop \<times> 'w \<Rightarrow> int \<times> 'cb EventLoop \<times> 'w) \<Rightarrow> nat \<Rightarrow> handle \<Rightarrow>
    'cb EventLoop \<Rightarrow> 'w \<Rightarrow> int \<times> 'cb EventLoop \<times> 'w"
where
  "loop_run uv uv_run self h l w =
     (if status l = NotRun
      then (case uv_run (loop_enter uv self h l w) of (rst, l, w) \<Rightarrow> (rst, l\<lparr>status := Stop\<rparr>, w))
      else (-1, l, w))"

definition runNoWait ::
  "'w Libuv \<Rightarrow> ('cb EventLoop \<times> 'w \<Rightarrow> int \<times> 'cb EventLoop \<times> 'w) \<Rightarrow> nat \<Rightarrow> handle \<Rightarrow>
    'cb EventLoop \<Rightarrow> 'w \<Rightarrow> int \<times> 'cb EventLoop \<times> 'w"
where
  "runNoWait uv uv_run_nowait self h l w =
     (if status l = NotRun
      then (case uv_run_nowait (loop_enter uv self h l w) of (rst, l, w) \<Rightarrow>
              (rst, l\<lparr>status := NotRun\<rparr>, w))
      else (-1, l, w))"

definition loop_stop :: "'w Libuv \<Rightarrow> 'cb EventLoop \<Rightarrow> 'w \<Rightarrow> (int \<times> 'cb EventLoop \<times> 'w) option" where
  "loop_stop uv l w =
     (if status l = Runed
      then map_option (\<lambda>(a, w). (0, l\<lparr>async := a\<rparr>, w)) (async_close uv (async l) w)
      else Some (-1, l, w))"

text \<open>libuv reports the handle of a stopped loop closed: the stored callback calls \<open>uv_stop\<close>.\<close>

definition loop_closed :: "'w Libuv \<Rightarrow> 'cb EventLoop \<Rightarrow> 'w \<Rightarrow> 'cb EventLoop \<times> 'w" where
  "loop_closed uv l w =
     (case onCloseCompleted (async l) of
        (a, stored) \<Rightarrow> (l\<lparr>async := a\<rparr>, if stored then uv_stop uv (loop_handle l) w else w))"

definition isStoped :: "'cb EventLoop \<Rightarrow> bool" where
  "isStoped l \<longleftrightarrow> status l = Stop"

definition getStatus :: "'cb EventLoop \<Rightarrow> Status" where
  "getStatus l = status l"

definition isRunInLoopThread :: "nat \<Rightarrow> 'cb EventLoop \<Rightarrow> bool" where
  "isRunInLoopThread self l = (if status l = Runed then self = loopThreadId l else False)"

text \<open>The third component is what the caller runs itself, before \<open>runInThisLoop\<close> returns.\<close>

definition runInThisLoop ::
  "'w Libuv \<Rightarrow> nat \<Rightarrow> 'cb option \<Rightarrow> 'cb EventLoop \<Rightarrow> 'w \<Rightarrow> ('cb EventLoop \<times> 'w \<times> 'cb list) option"
where
  "runInThisLoop uv self func l w =
     (case func of
        None \<Rightarrow> Some (l, w, [])
      | Some f \<Rightarrow>
          (if isRunInLoopThread self l \<or> isStoped l then Some (l, w, [f])
           else map_option (\<lambda>(a, w). (l\<lparr>async := a\<rparr>, w, []))
                  (async_runInThisLoop uv f (async l) w)))"

definition GetErrorMessage :: "'w Libuv \<Rightarrow> int \<Rightarrow> string" where
  "GetErrorMessage uv st = (if st = -1 then ''the connection is disconnected'' else uv_strerror uv st)"

section \<open>Threads\<close>

text \<open>
  Any number of posting threads and the loop's thread. \<open>pushed\<close> holds the threads that have pushed
  and not yet tested \<open>handle_\<close>; \<open>wake\<close> is libuv's pending flag, which \<open>uv_async_send\<close> sets and the
  loop clears before it calls back (several sends may give one call); \<open>batch\<close> is the local queue
  of \<open>process\<close>; \<open>posted\<close> and \<open>ran\<close> record history. \<open>misused\<close> says that a poster has signalled a handle
  that was not initialised, which is undefined: of what follows nothing is claimed.
\<close>

datatype LoopPc = Polling | Woken | Processing

record 'cb Hub =
  hub :: "'cb Async"
  wake :: bool
  loop_pc :: LoopPc
  pushed :: "nat set"
  batch :: "'cb list"
  posted :: "'cb list"
  ran :: "'cb list"
  misused :: bool

definition Hub_init :: "'cb Hub" where
  "Hub_init = \<lparr>hub = Async_new, wake = False, loop_pc = Polling, pushed = {}, batch = [],
     posted = [], ran = [], misused = False\<rparr>"

inductive hub_step :: "'cb Hub \<Rightarrow> 'cb Hub \<Rightarrow> bool" where
  push: "t \<notin> pushed s \<Longrightarrow>
    hub_step s (s\<lparr>hub := async_push f (hub s), pushed := insert t (pushed s),
      posted := posted s @ [f]\<rparr>)"
| signal: "t \<in> pushed s \<Longrightarrow> async_signal (hub s) = Some r \<Longrightarrow>
    hub_step s (s\<lparr>pushed := pushed s - {t}, wake := (wake s \<or> r \<noteq> None)\<rparr>)"
| misuse: "t \<in> pushed s \<Longrightarrow> async_signal (hub s) = None \<Longrightarrow>
    hub_step s (s\<lparr>pushed := pushed s - {t}, misused := True\<rparr>)"
| create: "async_handle (hub s) = NullHandle \<Longrightarrow> hub_step s (s\<lparr>hub := async_create h (hub s)\<rparr>)"
| init: "async_handle (hub s) = Raw h \<Longrightarrow>
    hub_step s (s\<lparr>hub := (hub s)\<lparr>async_handle := Live h\<rparr>, wake := True\<rparr>)"
| wakeup: "wake s \<Longrightarrow> loop_pc s = Polling \<Longrightarrow>
    hub_step s (s\<lparr>wake := False, loop_pc := Woken\<rparr>)"
| swap: "loop_pc s = Woken \<Longrightarrow> process_swap (hub s) = (cbs, a) \<Longrightarrow>
    hub_step s (s\<lparr>hub := a, batch := cbs, loop_pc := Processing\<rparr>)"
| call: "loop_pc s = Processing \<Longrightarrow> batch s = func # cbs \<Longrightarrow>
    hub_step s (s\<lparr>batch := cbs, ran := ran s @ [func]\<rparr>)"
| finish: "loop_pc s = Processing \<Longrightarrow> batch s = [] \<Longrightarrow>
    hub_step s (s\<lparr>loop_pc := Polling\<rparr>)"

inductive hub_reachable :: "'cb Hub \<Rightarrow> bool" where
  start: "hub_reachable Hub_init"
| step: "hub_reachable s \<Longrightarrow> hub_step s s' \<Longrightarrow> hub_reachable s'"

inductive_cases hub_stepE: "hub_step s s'"

text \<open>Order is kept and nothing is lost or run twice; a waiting function is never forgotten.\<close>

definition hub_inv :: "'cb Hub \<Rightarrow> bool" where
  "hub_inv s \<longleftrightarrow> ran s @ batch s @ callbacks (hub s) = posted s
     \<and> (batch s \<noteq> [] \<longrightarrow> loop_pc s = Processing)
     \<and> (callbacks (hub s) \<noteq> [] \<longrightarrow> wake s \<or> loop_pc s = Woken \<or> pushed s \<noteq> {}
          \<or> (\<forall>h. async_handle (hub s) \<noteq> Live h))
     \<and> async_handle (hub s) \<noteq> Deleted"

lemma hub_step_inv: "hub_step s s' \<Longrightarrow> hub_inv s \<Longrightarrow> hub_inv s'"
  by (induction rule: hub_step.induct)
    (auto simp: hub_inv_def async_push_def async_signal_def async_create_def process_swap_def
      split: AsyncHandle.splits)

lemma hub_reachable_inv: "hub_reachable s \<Longrightarrow> hub_inv s"
proof (induction rule: hub_reachable.induct)
  case start
  show ?case by (simp add: hub_inv_def Hub_init_def Async_new_def)
next
  case (step s s')
  then show ?case by (blast intro: hub_step_inv)
qed

section \<open>Properties\<close>

text \<open>C9: for any number of posting threads and any interleaving with the two halves of \<open>init\<close> and with the
  loop, as long as no poster has signalled the handle between its \<open>new\<close> and \<open>uv_async_init\<close>: the loop's
  thread runs the posted functions in the order of their pushes, none lost and none twice; no wake-up is
  lost: when no poster is between push and signal, no signal is pending and the loop is polling on an
  initialised handle, everything that was posted has run; and a poster's next step can only fail in that
  window. That it does fail there is \<open>handover_before_init\<close>.\<close>

theorem async_handover:
  assumes "hub_reachable s" and "\<not> misused s"
  shows "posted s = ran s @ batch s @ callbacks (hub s)
    \<and> (pushed s = {} \<and> \<not> wake s \<and> loop_pc s = Polling \<and> async_handle (hub s) = Live h
        \<longrightarrow> ran s = posted s)
    \<and> (\<forall>s'. hub_step s s' \<and> misused s' \<longrightarrow> (\<exists>h. async_handle (hub s) = Raw h))"
proof -
  have inv: "hub_inv s" using assms(1) by (rule hub_reachable_inv)
  have "\<exists>h. async_handle (hub s) = Raw h" if step: "hub_step s s'" and bad: "misused s'" for s'
    using step
  proof cases
    case (misuse t)
    with inv show ?thesis by (auto simp: hub_inv_def async_signal_def split: AsyncHandle.splits)
  qed (use assms(2) bad in simp_all)
  then show ?thesis using inv by (auto simp: hub_inv_def)
qed

text \<open>A post before \<open>init\<close>, then one from a second thread that overtakes the first one's signal.\<close>

lemma hub_reach_push: "hub_reachable s \<Longrightarrow> t \<notin> pushed s \<Longrightarrow>
    hub_reachable (s\<lparr>hub := async_push f (hub s), pushed := insert t (pushed s), posted := posted s @ [f]\<rparr>)"
  by (blast intro: hub_reachable.step hub_step.push)

theorem async_handover_witness:
  "\<exists>s. hub_reachable s \<and> pushed s = {1} \<and> callbacks (hub s) = [7 :: nat]
    \<and> posted s = ran s @ batch s @ [7]"
proof -
  let ?h = "Hub_init :: nat Hub"
  have "hub_reachable (?h\<lparr>hub := async_push 7 (hub ?h), pushed := insert 1 (pushed ?h),
      posted := posted ?h @ [7]\<rparr>)" (is "hub_reachable ?s")
    by (rule hub_reach_push [OF hub_reachable.start]) (simp add: Hub_init_def)
  moreover have "\<not> misused ?s" by (simp add: Hub_init_def)
  ultimately have "hub_reachable ?s \<and> posted ?s = ran ?s @ batch ?s @ callbacks (hub ?s)"
    using async_handover by blast
  then show ?thesis
    by (intro exI [of _ ?s]) (simp add: Hub_init_def Async_new_def async_push_def)
qed

text \<open>
  The window is real: a poster that has pushed before \<open>init\<close> may signal the handle that \<open>init\<close> has
  stored and not yet initialised.
\<close>

theorem handover_before_init:
  assumes "hub_reachable s" and "async_handle (hub s) = NullHandle" and "t \<notin> pushed s"
  shows "\<exists>s1 s2 s3. hub_step s s1 \<and> hub_step s1 s2 \<and> hub_step s2 s3 \<and> posted s3 = posted s @ [f] \<and> misused s3"
proof -
  let ?s1 = "s\<lparr>hub := async_push f (hub s), pushed := insert t (pushed s), posted := posted s @ [f]\<rparr>"
  let ?s2 = "?s1\<lparr>hub := async_create 5 (hub ?s1)\<rparr>"
  have "hub_step s ?s1" using assms(3) by (rule hub_step.push)
  moreover have "hub_step ?s1 ?s2" by (rule hub_step.create) (simp add: async_push_def assms(2))
  moreover have "hub_step ?s2 (?s2\<lparr>pushed := pushed ?s2 - {t}, misused := True\<rparr>)"
    by (rule hub_step.misuse) (simp_all add: async_create_def async_signal_def)
  ultimately show ?thesis by fastforce
qed

theorem handover_before_init_witness:
  "\<exists>s1 s2 s3. hub_step (Hub_init :: nat Hub) s1 \<and> hub_step s1 s2 \<and> hub_step s2 s3 \<and> misused s3"
  using handover_before_init [OF hub_reachable.start, of 1 "7 :: nat"]
  by (fastforce simp: Hub_init_def Async_new_def)

text \<open>An event loop runs once: whatever \<open>uv_run\<close> does, after \<open>run\<close> the status is \<open>Stop\<close>, every
  later \<open>run\<close>, \<open>runNoWait\<close> and \<open>stop\<close> returns -1 and changes nothing, and a function handed over
  then is run by the calling thread itself instead of being queued for a loop that has gone.\<close>

theorem loop_runs_once:
  assumes "loop_run uv uv_run self h l w = (rst, l', w')" and "status l \<noteq> Runed"
  shows "status l' = Stop
    \<and> loop_run uv uv_run2 self2 h2 l' v = (-1, l', v)
    \<and> runNoWait uv uv_run2 self2 h2 l' v = (-1, l', v)
    \<and> loop_stop uv l' v = Some (-1, l', v)
    \<and> runInThisLoop uv self2 (Some f) l' v = Some (l', v, [f])"
  using assms
  by (cases "status l")
    (auto simp: loop_run_def runNoWait_def loop_stop_def runInThisLoop_def isStoped_def split: prod.splits)

theorem loop_runs_once_witness:
  "let (l, w) = EventLoop_new sim_uv 1 sim_init; (r, l, w) = loop_run sim_uv (Pair 0) 1 5 l w
   in r = 0 \<and> loop_run sim_uv (Pair 0) 1 6 (l :: nat EventLoop) w = (-1, l, w)"
proof -
  obtain l w where new: "EventLoop_new sim_uv 1 sim_init = (l :: nat EventLoop, w)"
    and status: "status l = NotRun"
    by (simp add: EventLoop_new_def EventLoop_make_def)
  obtain r l1 w1 where run: "loop_run sim_uv (Pair 0) 1 5 l w = (r, l1, w1)"
    by (cases "loop_run sim_uv (Pair 0) 1 5 l w")
  moreover have "r = 0" using run status by (simp add: loop_run_def split: prod.splits)
  ultimately show ?thesis using loop_runs_once [OF run] new status by simp
qed

text \<open>Once the loop's thread has completed a stop request, the pointer \<open>handle_\<close> dangles while
  the status is still \<open>Runed\<close>: a function handed over by another thread before \<open>uv_run\<close> has
  returned, and a second \<open>stop\<close>, use the deleted handle.\<close>

theorem handover_after_stop:
  assumes "status l = Runed" and "async_handle (async l) = Live h" and "self \<noteq> loopThreadId l"
  shows "\<exists>l1 w1. loop_stop uv l w = Some (0, l1, w1)
    \<and> (let l2 = l1\<lparr>async := fst (onCloseCompleted (async l1))\<rparr>
       in \<forall>w2. runInThisLoop uv self (Some f) l2 w2 = None \<and> loop_stop uv l2 w2 = None)"
  using assms
  by (simp add: loop_stop_def async_close_def Let_def onCloseCompleted_def runInThisLoop_def
      isRunInLoopThread_def isStoped_def async_runInThisLoop_def async_signal_def async_push_def)

theorem handover_after_stop_witness:
  "\<exists>l1 w1. loop_stop sim_uv \<lparr>loopThreadId = 1, evloop = 1, async = \<lparr>async_handle = Live 5, callbacks = [],
        onCloseComplet = False\<rparr>, status = Runed\<rparr> sim_init = Some (0, l1, w1)
    \<and> runInThisLoop sim_uv 2 (Some ''f'')
        (l1\<lparr>async := fst (onCloseCompleted (async l1))\<rparr>) w1 = None"
  using handover_after_stop [of "\<lparr>loopThreadId = 1, evloop = 1, async = \<lparr>async_handle = Live 5, callbacks = [],
        onCloseComplet = False\<rparr>, status = Runed\<rparr>" 5 2 sim_uv sim_init "''f''"]
  by (auto simp: Let_def)

end
