(* ===== verification/UdpDns.thy ===== *)
theory UdpDns
  imports SocketAddr EventLoop Watchers
begin

text \<open>
  Datagrams (\<open>uv/Udp.cpp\<close>) and name lookup (\<open>uv/DnsGet.cpp\<close>). Callbacks are values; an operation
  returns the calls it makes. Lookup and the conversion of addresses to text are the system's.
\<close>

section \<open>Udp\<close>

text \<open>\<open>ipv_\<close> has no value before \<open>bindAndRead\<close>.\<close>

record 'cb Udp =
  udp_ipv :: "IPV option"
  udp_handle :: handle
  udp_onClose :: "'cb option"
  udp_onMessageCb :: "'cb option"

definition Udp_new :: "'w Libuv \<Rightarrow> handle \<Rightarrow> 'w \<Rightarrow> 'cb Udp \<times> 'w" where
  "Udp_new uv h w =
     (\<lparr>udp_ipv = None, udp_handle = h, udp_onClose = None, udp_onMessageCb = None\<rparr>, uv_udp_init uv h w)"

definition bindAndRead :: "'w Libuv \<Rightarrow> SocketAddr \<Rightarrow> 'cb Udp \<Rightarrow> 'w \<Rightarrow> int \<times> 'cb Udp \<times> 'w" where
  "bindAndRead uv addr u w =
     (let u = u\<lparr>udp_ipv := Some (Ipv addr)\<rparr>
      in case uv_udp_bind uv (udp_handle u) (Addr addr) w of (rst, w) \<Rightarrow>
           if rst \<noteq> 0 then (rst, u, w)
           else (case uv_udp_recv_start uv (udp_handle u) w of (rst, w) \<Rightarrow> (rst, u, w)))"

definition udp_send :: "'w Libuv \<Rightarrow> SocketAddr \<Rightarrow> uint8 list \<Rightarrow> 'cb Udp \<Rightarrow> 'w \<Rightarrow> int \<times> 'w" where
  "udp_send uv dest buf u w = uv_udp_send uv (udp_handle u) buf (Addr dest) w"

text \<open>The callback of a send request: what it logs.\<close>

definition send_done :: "'w Libuv \<Rightarrow> int \<Rightarrow> string list" where
  "send_done uv st = (if st \<noteq> 0 then [''udp send error :'' @ GetErrorMessage uv st] else [])"

definition udp_onCloseCompleted :: "'cb Udp \<Rightarrow> 'cb list" where
  "udp_onCloseCompleted u = run_if (udp_onClose u)"

definition udp_close :: "'w Libuv \<Rightarrow> 'cb option \<Rightarrow> 'cb Udp \<Rightarrow> 'w \<Rightarrow> ('cb Udp \<times> 'w \<times> 'cb list) option" where
  "udp_close uv callback u w =
     (let u = u\<lparr>udp_onClose := callback\<rparr>;
          h = udp_handle u;
          w = (if uv_is_active uv h w then uv_udp_recv_stop uv h w else w)
      in if \<not> uv_is_closing uv h w then Some (u, uv_close uv h w, [])
         else Some (u, w, udp_onCloseCompleted u))"

text \<open>A sender of the other family, or a message before \<open>bindAndRead\<close>, is undefined.\<close>

definition udp_onMessage ::
  "Inet \<Rightarrow> Sockaddr \<Rightarrow> uint8 list \<Rightarrow> 'cb Udp \<Rightarrow> ('cb \<times> SocketAddr \<times> uint8 list) list option"
where
  "udp_onMessage inet sender data u =
     (case udp_onMessageCb u of
        Some f \<Rightarrow>
          do {
            ver \<leftarrow> udp_ipv u;
            addr \<leftarrow> SocketAddr_of inet sender ver;
            Some [(f, addr, data)]
          }
      | None \<Rightarrow> Some [])"

definition udp_setMessageCallback :: "'cb option \<Rightarrow> 'cb Udp \<Rightarrow> 'cb Udp" where
  "udp_setMessageCallback cb u = u\<lparr>udp_onMessageCb := cb\<rparr>"

text \<open>The calls and the log of the receive callback.\<close>

definition udp_onMesageReceive ::
  "'w Libuv \<Rightarrow> Inet \<Rightarrow> int \<Rightarrow> uint8 list \<Rightarrow> Sockaddr \<Rightarrow> 'cb Udp \<Rightarrow>
    (('cb \<times> SocketAddr \<times> uint8 list) list \<times> string list) option"
where
  "udp_onMesageReceive uv inet nread buf addr u =
     (if nread < 0 then Some ([], [''udp read error :'' @ GetErrorMessage uv nread])
      else if 0 < nread
      then map_option (\<lambda>calls. (calls, [])) (udp_onMessage inet addr (take (nat nread) buf) u)
      else Some ([], []))"

sublocale libuv \<subseteq> udp: close_protocol
  "\<lambda>u. uv_is_closing uv (udp_handle u)" "udp_close uv" udp_onCloseCompleted
  by unfold_locales (auto simp: udp_close_def udp_onCloseCompleted_def run_if_def Let_def closing)

section \<open>DNSGet\<close>

record 'cb DNSGet =
  dns_callback :: "'cb option"
  dns_handle :: handle

record addrinfo =
  ai_protocol :: int
  ai_addr :: Sockaddr

text \<open>\<open>uv_ip4_name\<close> and \<open>uv_ip6_name\<close> write a name into a buffer: its content before and after.\<close>

record IpName =
  ip4_name :: "Sockaddr \<Rightarrow> string \<Rightarrow> string"
  ip6_name :: "Sockaddr \<Rightarrow> string \<Rightarrow> string"

definition DNSGet_new :: "handle \<Rightarrow> 'cb DNSGet" where
  "DNSGet_new h = \<lparr>dns_callback = None, dns_handle = h\<rparr>"

definition setOnDNSCallback :: "'cb option \<Rightarrow> 'cb DNSGet \<Rightarrow> 'cb DNSGet" where
  "setOnDNSCallback cb d = d\<lparr>dns_callback := cb\<rparr>"

definition GetIP :: "'w Libuv \<Rightarrow> string \<Rightarrow> string \<Rightarrow> 'cb DNSGet \<Rightarrow> 'w \<Rightarrow> int \<times> 'w" where
  "GetIP uv hostname service d w = uv_getaddrinfo uv (dns_handle d) hostname service w"

definition IPPROTO_TCP :: int where "IPPROTO_TCP = 6"
definition IPPROTO_IP :: int where "IPPROTO_IP = 0"
definition IPPROTO_IPV6 :: int where "IPPROTO_IPV6 = 41"

definition OnCallback :: "IpName \<Rightarrow> int \<Rightarrow> addrinfo \<Rightarrow> 'cb DNSGet \<Rightarrow> ('cb \<times> int \<times> string) list" where
  "OnCallback names st res d =
     (case dns_callback d of
        Some f \<Rightarrow>
          if st < 0 then [(f, st, [])]
          else
            let ip = replicate 32 (CHR 0x00);
                ip = (if ai_protocol res = IPPROTO_TCP \<or> ai_protocol res = IPPROTO_IP
                      then ip4_name names (ai_addr res) ip
                      else if ai_protocol res = IPPROTO_IPV6
                      then ip6_name names (ai_addr res) ip
                      else ip)
            in [(f, st, ip)]
      | None \<Rightarrow> [])"

text \<open>The lookup's callback; a request whose data pointer is null is ignored.\<close>

definition onDNSGet :: "IpName \<Rightarrow> int \<Rightarrow> addrinfo \<Rightarrow> 'cb DNSGet option \<Rightarrow> ('cb \<times> int \<times> string) list" where
  "onDNSGet names st res ptr = (case ptr of Some d \<Rightarrow> OnCallback names st res d | None \<Rightarrow> [])"

section \<open>Properties\<close>

text \<open>What \<open>uv_ip4_name\<close> documents: the name and a terminating zero, when they fit.\<close>

definition writes_name :: "(Sockaddr \<Rightarrow> string) \<Rightarrow> (Sockaddr \<Rightarrow> string \<Rightarrow> string) \<Rightarrow> bool" where
  "writes_name nm write \<longleftrightarrow> (\<forall>a dst. length (nm a) < length dst \<longrightarrow>
     write a dst = nm a @ [CHR 0x00] @ drop (Suc (length (nm a))) dst)"

text \<open>A successful lookup gives the user the address behind which the string holds zero characters
  up to its fixed size of 32: as a \<open>std::string\<close> it is never equal to the address, and a
  \<open>SocketAddr\<close> made from it prints the zeros before its port.\<close>

theorem dns_name_padded:
  assumes "writes_name nm (ip4_name names)" and "length (nm (ai_addr res)) < 32"
    and "dns_callback d = Some f" and "0 \<le> st" and "ai_protocol res = IPPROTO_TCP"
  shows "\<exists>ip. onDNSGet names st res (Some d) = [(f, st, ip)]
    \<and> ip = nm (ai_addr res) @ replicate (32 - length (nm (ai_addr res))) (CHR 0x00)
    \<and> ip \<noteq> nm (ai_addr res)
    \<and> toStr (SocketAddr_new inet ip 80 Ipv4)
        = nm (ai_addr res) @ replicate (32 - length (nm (ai_addr res))) (CHR 0x00) @ '':80''"
proof -
  let ?n = "length (nm (ai_addr res))"
  have "ip4_name names (ai_addr res) (replicate 32 (CHR 0x00))
      = nm (ai_addr res) @ [CHR 0x00] @ drop (Suc ?n) (replicate 32 (CHR 0x00))"
    using assms(1,2) unfolding writes_name_def by (metis length_replicate)
  also have "[CHR 0x00] @ drop (Suc ?n) (replicate 32 (CHR 0x00)) = replicate (32 - ?n) (CHR 0x00)"
    using assms(2) by (simp add: Suc_diff_Suc flip: replicate_Suc)
  finally have ip: "onDNSGet names st res (Some d)
      = [(f, st, nm (ai_addr res) @ replicate (32 - ?n) (CHR 0x00))]"
    using assms(3-5) by (simp add: onDNSGet_def OnCallback_def)
  have "std_to_string 80 = ''80''" by code_simp
  with ip assms(2) show ?thesis by (simp add: toStr_def SocketAddr_new_def)
qed

theorem dns_name_padded_witness:
  "\<exists>ip. onDNSGet \<lparr>ip4_name = (\<lambda>a dst. take (length dst) (''10.0.0.1'' @ [CHR 0x00] @ drop 9 dst)),
       ip6_name = (\<lambda>a dst. dst)\<rparr> 0 \<lparr>ai_protocol = 6, ai_addr = In4 [10, 0, 0, 1] 0\<rparr>
       (Some (setOnDNSCallback (Some ()) (DNSGet_new 1))) = [((), 0, ip)] \<and> length ip = 32"
proof -
  let ?names = "\<lparr>ip4_name = (\<lambda>a dst. take (length dst) (''10.0.0.1'' @ [CHR 0x00] @ drop 9 dst)),
    ip6_name = (\<lambda>a dst. dst)\<rparr>"
  have "writes_name (\<lambda>a. ''10.0.0.1'') (ip4_name ?names)"
    by (simp add: writes_name_def eval_nat_numeral)
  from dns_name_padded [OF this, where res = "\<lparr>ai_protocol = 6, ai_addr = In4 [10, 0, 0, 1] 0\<rparr>"
      and d = "setOnDNSCallback (Some ()) (DNSGet_new 1)" and f = "()" and st = 0 and inet = sim_inet]
  show ?thesis by (simp add: setOnDNSCallback_def DNSGet_new_def IPPROTO_TCP_def)
qed

end
