(* ===== verification/HttpGet.thy ===== *)
theory HttpGet
  imports HttpClient UdpDns
begin

text \<open>
  The example that looks a name up and fetches a page (\<open>examples/http_client/main.cpp\<close>), and the one that
  only looks a name up (\<open>examples/dns/main.cpp\<close>). What a callback does besides its calls of the library
  is a list of outputs.
\<close>

section \<open>The callbacks\<close>

datatype GetOut = LogOut Level string | WriteFile string string | PrintLine string | DeleteClient

text \<open>\<open>onHttpResp\<close>: a null response that is read is undefined.\<close>

definition onHttpResp :: "ReqResult \<Rightarrow> Response option \<Rightarrow> GetOut list option" where
  "onHttpResp error resp =
     (if error = ConnectFail then Some [LogOut Error ''connect server fail.'']
      else if error = ParseFail then Some [LogOut Error ''parse http response fail.'']
      else
        do {
          r \<leftarrow> resp;
          Some [WriteFile ''test.html'' (resp_getContent r), PrintLine ''write test.htmt success'', DeleteClient]
        })"

text \<open>The request that \<open>onGetIp\<close> builds.\<close>

definition get_request :: Request where
  "get_request =
     (let req = setPath ''/search'' Request_default;
          req = appendUrlParam ''q'' ''uv-cpp'' req;
          req = req_appendHead ''Host'' ''cn.bing.com'' req;
          req = req_appendHead ''Connection'' ''keep - alive'' req
      in req_appendHead ''Accept-Language'' ''en'' req)"

text \<open>\<open>onGetIp\<close>: the new client, if there is one, whose TCP client makes the socket \<open>h\<close>.\<close>

definition get_onGetIp ::
  "(HcBind, 'w) ClientEnv \<Rightarrow> handle \<Rightarrow> bool \<Rightarrow> int \<Rightarrow> string \<Rightarrow> 'w \<Rightarrow>
    GetOut list \<times> (unit HttpClient \<times> (HcBind, 'w) TcpClient) option"
where
  "get_onGetIp env h noDelay st str w =
     (if st < 0 then ([LogOut Error (GetErrorMessage (cl_uv env) st)], None)
      else
        let addr = SocketAddr_new (cl_inet env) str 80 Ipv4;
            hc = setOnResp (Some ()) HttpClient_new
        in ([LogOut Debug (''get ip:'' @ str)], Some (hc_Req env h addr get_request (hc, TcpClient_new noDelay w))))"

text \<open>\<open>main\<close> of both examples: the lookup, and the message when it cannot start.\<close>

definition lookup_main :: "'w Libuv \<Rightarrow> handle \<Rightarrow> string \<Rightarrow> string \<Rightarrow> 'w \<Rightarrow> unit DNSGet \<times> GetOut list \<times> 'w" where
  "lookup_main uv h hostname service w =
     (let d = setOnDNSCallback (Some ()) (DNSGet_new h)
      in case GetIP uv hostname service d w of (rst, w) \<Rightarrow>
           (d, if rst \<noteq> 0 then [LogOut Error (GetErrorMessage uv rst)] else [], w))"

definition get_main :: "'w Libuv \<Rightarrow> handle \<Rightarrow> 'w \<Rightarrow> unit DNSGet \<times> GetOut list \<times> 'w" where
  "get_main uv h w = lookup_main uv h ''cn.bing.com'' ''80'' w"

text \<open>The \<open>service\<close> of \<open>GetIP\<close> is by default empty.\<close>

definition dns_main :: "'w Libuv \<Rightarrow> handle \<Rightarrow> 'w \<Rightarrow> unit DNSGet \<times> GetOut list \<times> 'w" where
  "dns_main uv h w = lookup_main uv h ''www.github.com'' [] w"

definition dns_onGetIp :: "'w Libuv \<Rightarrow> int \<Rightarrow> string \<Rightarrow> GetOut list" where
  "dns_onGetIp uv st str = (if st < 0 then [LogOut Error (GetErrorMessage uv st)] else [PrintLine str])"

text \<open>The client's callbacks run until one of them has deleted the client.\<close>

fun run_resps :: "unit RespCall list \<Rightarrow> GetOut list option" where
  "run_resps [] = Some []"
| "run_resps ((_, error, resp) # rest) =
     do {
       out \<leftarrow> onHttpResp error resp;
       (if DeleteClient \<in> set out then Some out else map_option ((@) out) (run_resps rest))
     }"

section \<open>Properties\<close>

text \<open>The text that goes over the wire: the heads in the order of a \<open>std::map\<close>.\<close>

definition get_text :: string where
  "get_text = ''GET /search?q=uv-cpp HTTP/1.1'' @ Crlf @ ''Accept-Language: en'' @ Crlf
     @ ''Connection: keep - alive'' @ Crlf @ ''Host: cn.bing.com'' @ Crlf @ Crlf"

lemma get_request_text: "snd (req_pack get_request) = get_text"
  by code_simp

text \<open>C26: the example fetches its page: after a successful lookup the client's only calls of libuv make
  its socket \<open>h\<close> and connect it to port 80 of the IPv4 address that was found; it
  asks for the page with exactly the text above, and when a response whose
  \<open>Content-Length\<close> says its size has arrived, in whatever pieces, its content is written to the file
  once and the client is deleted once, whose TCP connection is then closing.\<close>

theorem http_get_page:
  assumes "libuv (cl_uv env)" and "0 \<le> st" and "resp_ok r" and "resp_framed r" and "cuts down"
    and "get_onGetIp env h noDelay st str w = (out, Some (hc, cl))"
  shows "socket cl = Some h \<and> cl_ipv cl = Ipv4 \<and> out = [LogOut Debug (''get ip:'' @ str)]
    \<and> cl_world cl = uv_tcp_connect (cl_uv env) h (uv_ip4_addr (cl_inet env) str 80)
        (if noDelay then uv_tcp_nodelay (cl_uv env) h (uv_tcp_init (cl_uv env) h w)
         else uv_tcp_init (cl_uv env) h w)
    \<and> (\<exists>hc1 hc2. hc_onConnectStatus OnConnectSuccess hc = Some (hc1, Some get_text, [])
        \<and> hc_messages (down (bytes_of (snd (resp_pack r)))) hc1 = Some (hc2, [((), RespSuccess, Some r)])
        \<and> run_resps [((), RespSuccess, Some r)]
            = Some [WriteFile ''test.html'' (resp_getContent r), PrintLine ''write test.htmt success'', DeleteClient]
        \<and> (\<forall>cl' c. connection cl' = Some c \<and> \<not> uv_is_closing (cl_uv env) (conn_handle c) (cl_world cl') \<longrightarrow>
            (\<exists>cl''. HttpClient_delete env hc2 cl' = Some (Some cl'')
              \<and> uv_is_closing (cl_uv env) (conn_handle c) (cl_world cl''))))"
proof -
  have hc: "hc = HttpClient_new\<lparr>hc_callback := Some (), hc_req := get_request, hc_buffer := []\<rparr>"
    and cl: "socket cl = Some h" "cl_ipv cl = Ipv4" "out = [LogOut Debug (''get ip:'' @ str)]"
    using assms(2,6) by (auto simp: get_onGetIp_def hc_Req_def setOnResp_def cl_connect_def update_socket_def
        SocketAddr_new_def Ipv_def Let_def)
  have con: "cl_world cl = uv_tcp_connect (cl_uv env) h (uv_ip4_addr (cl_inet env) str 80)
      (if noDelay then uv_tcp_nodelay (cl_uv env) h (uv_tcp_init (cl_uv env) h w) else uv_tcp_init (cl_uv env) h w)"
    using assms(2,6) by (auto simp: get_onGetIp_def hc_Req_def cl_connect_def update_socket_def
        SocketAddr_new_def Addr_def TcpClient_new_def setConnectStatusCallback_def cl_setMessageCallback_def Let_def)
  let ?hc1 = "hc\<lparr>hc_connected := True\<rparr>" and ?ps = "down (bytes_of (snd (resp_pack r)))"
  have start: "hc_onConnectStatus OnConnectSuccess hc = Some (?hc1, Some get_text, [])"
    by (simp add: hc_onConnectStatus_def hc get_request_text)
  have ps: "concat ?ps = bytes_of (snd (resp_pack r))" "[] \<notin> set ?ps" using assms(5) by (simp_all add: cuts_def)
  moreover from ps(1) have "?ps \<noteq> []" by (auto simp: resp_pack_lines bytes_of_def Crlf_def)
  ultimately have "hc_messages ?ps ?hc1 = Some (?hc1\<lparr>hc_buffer := bytes_of (snd (resp_pack r))\<rparr>, [((), RespSuccess, Some r)])"
    using hc_pieces [OF assms(3) disjI1 [OF assms(4)], of ?hc1 ?ps] assms(4) by (simp add: hc onResp_def)
  moreover have "\<exists>cl''. HttpClient_delete env (?hc1\<lparr>hc_buffer := b\<rparr>) cl' = Some (Some cl'')
      \<and> uv_is_closing (cl_uv env) (conn_handle c) (cl_world cl'')"
    if "connection cl' = Some c \<and> \<not> uv_is_closing (cl_uv env) (conn_handle c) (cl_world cl')" for b cl' c
    using that libuv.closing [OF assms(1)]
    by (auto simp: HttpClient_delete_def cl_close_def close_conn_def conn_close_def run_closed_def Let_def)
  ultimately show ?thesis using start cl con by (fastforce simp: onHttpResp_def)
qed

definition get_env :: "(HcBind, Sim) ClientEnv" where
  "get_env = \<lparr>cl_uv = sim_uv, cl_inet = sim_inet, cl_mode = NoBuffer, cl_cycle = 0, cl_user = (\<lambda>f arg s. Some s)\<rparr>"

theorem http_get_page_witness:
  "\<exists>hc cl hc1 hc2. get_onGetIp get_env 3 True 0 ''10.0.0.1'' sim_init
       = ([LogOut Debug ''get ip:10.0.0.1''], Some (hc, cl))
     \<and> cl_world cl = uv_tcp_connect sim_uv 3 (In4 [127, 0, 0, 1] (80 * 256))
         (uv_tcp_nodelay sim_uv 3 (uv_tcp_init sim_uv 3 sim_init))
     \<and> hc_onConnectStatus OnConnectSuccess hc = Some (hc1, Some get_text, [])
     \<and> hc_messages (map (\<lambda>b. [b]) (bytes_of (snd (resp_pack example_response)))) hc1
         = Some (hc2, [((), RespSuccess, Some example_response)])"
proof -
  let ?D = "snd (resp_pack example_response)"
  have len: "length ?D < 100" by code_simp
  have "heads_ok (resp_heads example_response)" by code_simp
  then have ok: "resp_ok example_response"
    using len by (simp add: resp_ok_def) (simp add: example_response_def Response_new_def plain_def)
  have framed: "resp_framed example_response" by code_simp
  have uv: "libuv (cl_uv get_env)" using sim.libuv_axioms by (simp add: get_env_def)
  have bytes: "cuts (map (\<lambda>b. [b]))" by (auto simp: cuts_def)
  obtain out hc cl where "get_onGetIp get_env 3 True 0 ''10.0.0.1'' sim_init = (out, Some (hc, cl))"
    by (simp add: get_onGetIp_def hc_Req_def Let_def)
  moreover have "uv_ip4_addr (cl_inet get_env) ''10.0.0.1'' 80 = In4 [127, 0, 0, 1] (80 * 256)" by code_simp
  moreover have "cl_uv get_env = sim_uv" by (simp add: get_env_def)
  ultimately show ?thesis using http_get_page [OF uv _ ok framed bytes] by fastforce
qed

end
