(* ===== verification/Rpc.thy ===== *)
theory Rpc
  imports Packet TcpServer TcpClient
begin

text \<open>
  The RPC example (\<open>examples/rpc\<close>): the messages \<open>Req\<close> and \<open>Resp\<close> of \<open>protocol.hpp\<close>, the server that
  answers a request with the sum of its parameters, and the client and controller that wait for the
  answer. Numbers go over the wire in the byte order of the host, which is a parameter.
\<close>

section \<open>The protocol\<close>

record Req =
  params :: "32 word list"

record Resp =
  param :: "64 word"

text \<open>\<open>(int) params.size () * 4\<close>: an overflow is undefined.\<close>

definition Req_size :: "Req \<Rightarrow> int option" where
  "Req_size r =
     (let n = c_int (length (params r)) * 4 in if - (2 ^ 31) \<le> n \<and> n < 2 ^ 31 then Some n else None)"

text \<open>The loop copies the parameters one after the other.\<close>

fun copy_params :: "DataMode \<Rightarrow> 32 word list \<Rightarrow> uint8 list \<Rightarrow> nat \<Rightarrow> uint8 list option" where
  "copy_params host [] data pos = Some data"
| "copy_params host (p # ps) data pos =
     do { data \<leftarrow> copy_to data pos (PackNum host p); copy_params host ps data (pos + 4) }"

definition Req_pack :: "DataMode \<Rightarrow> uint8 list \<Rightarrow> int \<Rightarrow> Req \<Rightarrow> (int \<times> uint8 list) option" where
  "Req_pack host data sz r =
     do {
       need \<leftarrow> Req_size r;
       if sz < need then Some (-1, data)
       else map_option (\<lambda>data. (0, data)) (copy_params host (params r) data 0)
     }"

text \<open>The loop of \<open>unpack\<close> from \<open>i\<close> on; a number that leaves the data is undefined.\<close>

function read_params :: "DataMode \<Rightarrow> uint8 list \<Rightarrow> int \<Rightarrow> nat \<Rightarrow> 32 word list \<Rightarrow> 32 word list option" where
  "read_params host data sz i ps =
     (if int i < sz
      then
        do { num \<leftarrow> UnpackNum host (drop i data); read_params host data sz (i + 4) (ps @ [num]) }
      else Some ps)"
  by pat_completeness auto
termination
  by (relation "measure (\<lambda>(host, data, n, i, ps). nat (n - int i))") auto

declare read_params.simps [simp del]

definition Req_unpack :: "DataMode \<Rightarrow> uint8 list \<Rightarrow> int \<Rightarrow> Req \<Rightarrow> (int \<times> Req) option" where
  "Req_unpack host data sz r =
     (if sz mod 4 \<noteq> 0 then Some (-1, r)
      else map_option (\<lambda>ps. (0, r\<lparr>params := ps\<rparr>)) (read_params host data sz 0 []))"

definition Resp_size :: int where
  "Resp_size = 8"

definition Resp_pack :: "DataMode \<Rightarrow> uint8 list \<Rightarrow> int \<Rightarrow> Resp \<Rightarrow> (int \<times> uint8 list) option" where
  "Resp_pack host data sz r =
     (if sz < Resp_size then Some (-1, data)
      else map_option (\<lambda>data. (0, data)) (copy_to data 0 (PackNum host (param r))))"

definition Resp_unpack :: "DataMode \<Rightarrow> uint8 list \<Rightarrow> int \<Rightarrow> Resp \<Rightarrow> (int \<times> Resp) option" where
  "Resp_unpack host data sz r =
     (if sz < Resp_size then Some (-1, r)
      else map_option (\<lambda>num. (0, r\<lparr>param := num\<rparr>)) (UnpackNum host data))"

section \<open>The server\<close>

datatype RpcServerCb = RpcMessage | DeleteBuf

definition RpcServer_new :: "'w Libuv \<Rightarrow> handle \<Rightarrow> bool \<Rightarrow> 'w \<Rightarrow> (RpcServerCb, 'w) TcpServer" where
  "RpcServer_new u h noDelay w = srv_setMessageCallback (Some RpcMessage) (TcpServer_new u h noDelay w)"

text \<open>The \<open>int32_t\<close> is widened before it is added.\<close>

definition rpc_sum :: "Req \<Rightarrow> Resp \<Rightarrow> Resp" where
  "rpc_sum req resp = fold (\<lambda>p resp. resp\<lparr>param := param resp + scast p\<rparr>) (params req) (resp\<lparr>param := 0\<rparr>)"

text \<open>
  \<open>sendProtocol\<close> of a response. It runs in the loop's thread, where \<open>writeInLoop\<close> runs its function
  at once. The new array is overwritten as a whole.
\<close>

definition srv_sendProtocol ::
  "(RpcServerCb, 'w) Env \<Rightarrow> DataMode \<Rightarrow> nat \<Rightarrow> Resp \<Rightarrow> (RpcServerCb, 'w) TcpServer \<Rightarrow>
    (RpcServerCb, 'w) TcpServer option"
where
  "srv_sendProtocol env host i resp s =
     do {
       let sz = Resp_size;
       let data = replicate (nat sz) 0;
       (_, data) \<leftarrow> Resp_pack host data sz resp;
       run_write_task env (i, data, Some DeleteBuf) s
     }"

definition rpc_onMessage ::
  "(RpcServerCb, 'w) Env \<Rightarrow> DataMode \<Rightarrow> nat \<Rightarrow> uint8 list \<Rightarrow> (RpcServerCb, 'w) TcpServer \<Rightarrow>
    (RpcServerCb, 'w) TcpServer option"
where
  "rpc_onMessage env host i buf s =
     do {
       (rst, req) \<leftarrow> Req_unpack host buf (c_int (length buf)) \<lparr>params = []\<rparr>;
       if rst = 0 then srv_sendProtocol env host i (rpc_sum req \<lparr>param = 0\<rparr>) s else Some s
     }"

fun rpc_messages ::
  "(RpcServerCb, 'w) Env \<Rightarrow> DataMode \<Rightarrow> nat \<Rightarrow> uint8 list list \<Rightarrow> (RpcServerCb, 'w) TcpServer \<Rightarrow>
    (RpcServerCb, 'w) TcpServer option"
where
  "rpc_messages env host i [] s = Some s"
| "rpc_messages env host i (m # ms) s =
     do { s \<leftarrow> rpc_onMessage env host i m s; rpc_messages env host i ms s }"

section \<open>The client and the controller\<close>

datatype RpcBind = RpcConnect | RpcClientMessage | RpcDelete

datatype RpcTimer = RpcReconnect | RpcDeleteTimer

text \<open>\<open>rpc_timers\<close> are the timer objects that exist.\<close>

record ('c, 'w) RpcClient =
  rpc_addr :: SocketAddr
  rpc_onResp :: "'c option"
  rpc_tcp :: "(RpcBind, 'w) TcpClient"
  rpc_timers :: "RpcTimer Timer list"

definition RpcClient_new ::
  "(RpcBind, 'w) ClientEnv \<Rightarrow> handle \<Rightarrow> SocketAddr \<Rightarrow> bool \<Rightarrow> 'w \<Rightarrow> ('c, 'w) RpcClient"
where
  "RpcClient_new env h addr noDelay w =
     (let cl = setConnectStatusCallback (Some RpcConnect) (TcpClient_new noDelay w);
          cl = cl_setMessageCallback (Some RpcClientMessage) cl
      in \<lparr>rpc_addr = addr, rpc_onResp = None, rpc_tcp = cl_connect env h addr cl,
           rpc_timers = []\<rparr>)"

definition rpc_setOnResp :: "'c option \<Rightarrow> ('c, 'w) RpcClient \<Rightarrow> ('c, 'w) RpcClient" where
  "rpc_setOnResp callback c = c\<lparr>rpc_onResp := callback\<rparr>"

text \<open>A connect that fails and a connection that is closed start a timer, with a new handle \<open>th\<close>; when it
  expires it connects again, with a new socket \<open>h\<close>, and closes and deletes itself.\<close>

definition rpc_onConnect ::
  "(RpcBind, 'w) ClientEnv \<Rightarrow> handle \<Rightarrow> ConnectStatus \<Rightarrow> ('c, 'w) RpcClient \<Rightarrow> ('c, 'w) RpcClient"
where
  "rpc_onConnect env th status c =
     (if status = OnConnectSuccess then c
      else
        case Timer_new (cl_uv env) th 50 0 (Some RpcReconnect) (cl_world (rpc_tcp c)) of (tm, w) \<Rightarrow>
          (case timer_start (cl_uv env) tm w of
             (tm, w) \<Rightarrow> c\<lparr>rpc_timers := tm # rpc_timers c, rpc_tcp := (rpc_tcp c)\<lparr>cl_world := w\<rparr>\<rparr>))"

definition rpc_delete_timer :: "handle \<Rightarrow> ('c, 'w) RpcClient \<Rightarrow> ('c, 'w) RpcClient" where
  "rpc_delete_timer th c = c\<lparr>rpc_timers := filter (\<lambda>t. timer_handle t \<noteq> th) (rpc_timers c)\<rparr>"

definition rpc_timer_fired ::
  "(RpcBind, 'w) ClientEnv \<Rightarrow> handle \<Rightarrow> RpcTimer Timer \<Rightarrow> ('c, 'w) RpcClient \<Rightarrow> ('c, 'w) RpcClient option"
where
  "rpc_timer_fired env h tm c =
     do {
       let c = c\<lparr>rpc_tcp := cl_connect env h (rpc_addr c) (rpc_tcp c)\<rparr>;
       (tm', w, cbs) \<leftarrow> timer_close (cl_uv env) (Some RpcDeleteTimer) tm (cl_world (rpc_tcp c));
       let c = c\<lparr>rpc_tcp := (rpc_tcp c)\<lparr>cl_world := w\<rparr>,
         rpc_timers := map (\<lambda>t. if timer_handle t = timer_handle tm then tm' else t) (rpc_timers c)\<rparr>;
       Some (if cbs = [] then c else rpc_delete_timer (timer_handle tm) c)
     }"

text \<open>The call of \<open>onResp_\<close> that a message makes. The local \<open>resp\<close> is written before it is read.\<close>

definition rpc_client_onMessage ::
  "DataMode \<Rightarrow> uint8 list \<Rightarrow> ('c, 'w) RpcClient \<Rightarrow> ('c \<times> Resp) list option"
where
  "rpc_client_onMessage host data c =
     (case rpc_onResp c of
        None \<Rightarrow> Some []
      | Some f \<Rightarrow>
          do {
            (rst, resp) \<leftarrow> Resp_unpack host data (c_int (length data)) \<lparr>param = 0\<rparr>;
            Some (if rst = 0 then [(f, resp)] else [])
          })"

text \<open>The packed request, and what \<open>writeInLoop\<close> of the TCP client gives for it.\<close>

definition packed :: "DataMode \<Rightarrow> Req \<Rightarrow> uint8 list option" where
  "packed host req =
     do {
       sz \<leftarrow> Req_size req;
       (_, data) \<leftarrow> (if 0 \<le> sz then Req_pack host (replicate (nat sz) 0) sz req else None);
       Some data
     }"

definition cl_sendProtocol ::
  "(RpcBind, 'w) ClientEnv \<Rightarrow> DataMode \<Rightarrow> Req \<Rightarrow> ('c, 'w) RpcClient \<Rightarrow>
    (('c, 'w) RpcClient \<times> (uint8 list \<times> RpcBind option) option) option"
where
  "cl_sendProtocol env host req c =
     do {
       data \<leftarrow> packed host req;
       (cl, task) \<leftarrow> cl_writeInLoop env data (Some RpcDelete) (rpc_tcp c);
       Some (c\<lparr>rpc_tcp := cl\<rparr>, task)
     }"

text \<open>
  The controller. \<open>sum\<close> clears \<open>ready_\<close>, sends the request and waits until \<open>ready_\<close> is set, which only
  \<open>onResp\<close> does; \<open>ctrl_result\<close> is what it returns when it can go on.
\<close>

record RpcCtrl =
  ctrl_resp :: Resp
  ready :: bool

definition ctrl_start :: "RpcCtrl \<Rightarrow> RpcCtrl" where
  "ctrl_start ctrl = ctrl\<lparr>ready := False\<rparr>"

definition ctrl_onResp :: "Resp \<Rightarrow> RpcCtrl \<Rightarrow> RpcCtrl" where
  "ctrl_onResp resp ctrl = ctrl\<lparr>ctrl_resp := resp, ready := True\<rparr>"

definition ctrl_result :: "RpcCtrl \<Rightarrow> Resp option" where
  "ctrl_result ctrl = (if ready ctrl then Some (ctrl_resp ctrl) else None)"

section \<open>Packing\<close>

abbreviation bytes32 :: "DataMode \<Rightarrow> 32 word list \<Rightarrow> uint8 list" where
  "bytes32 host ps \<equiv> concat (map (PackNum host) ps)"

lemma length_bytes32 [simp]: "length (bytes32 host ps) = 4 * length ps"
  by (induction ps) auto

lemma copy_params_bytes:
  "length pre = pos \<Longrightarrow> length post = 4 * length ps \<Longrightarrow>
    copy_params host ps (pre @ post) pos = Some (pre @ bytes32 host ps)"
proof (induction ps arbitrary: pre post pos)
  case (Cons p ps)
  then have "copy_to (pre @ post) pos (PackNum host p) = Some ((pre @ PackNum host p) @ drop 4 post)"
    by (subst copy_after) auto
  with Cons.IH [of "pre @ PackNum host p" "pos + 4" "drop 4 post"] Cons.prems show ?case by simp
qed simp

lemma packed_bytes:
  assumes "length (params r) < 2 ^ 29"
  shows "packed host r = Some (bytes32 host (params r))"
proof -
  have "Req_size r = Some (4 * int (length (params r)))"
    using assms by (simp add: Req_size_def Let_def)
  then show ?thesis
    using copy_params_bytes [of "[]" 0 "replicate (4 * length (params r)) 0" "params r" host]
    by (simp add: packed_def Req_pack_def nat_mult_distrib)
qed

lemma read_params_bytes:
  assumes "length data = i + 4 * length ps" and "drop i data = bytes32 host ps"
  shows "read_params host data (int (length data)) i acc = Some (acc @ ps)"
  using assms
proof (induction ps arbitrary: i acc)
  case Nil
  then show ?case by (subst read_params.simps) simp
next
  case (Cons p ps)
  then have "UnpackNum host (drop i data) = Some p"
    using unpack_pack [of host p "bytes32 host ps"] by simp
  moreover have "drop (i + 4) data = bytes32 host ps"
  proof -
    have "drop (i + 4) data = drop 4 (drop i data)" by (simp add: add.commute)
    then show ?thesis by (simp only: Cons.prems(2)) simp
  qed
  ultimately show ?case
    using Cons.IH [of "i + 4" "acc @ [p]"] Cons.prems(1) by (subst read_params.simps) simp
qed

lemma unpack_bytes32:
  assumes "length ps < 2 ^ 29"
  shows "Req_unpack host (bytes32 host ps) (c_int (length (bytes32 host ps))) r = Some (0, r\<lparr>params := ps\<rparr>)"
  using assms read_params_bytes [of "bytes32 host ps" 0 ps host "[]"] by (simp add: Req_unpack_def)

lemma rpc_sum_int: "param (rpc_sum req resp) = word_of_int (sum_list (map sint (params req)))"
proof -
  have step: "scast p + word_of_int s = (word_of_int (sint p + s) :: uint64)" for p :: "32 word" and s
    by (metis of_int_add scast_eq)
  have "param (fold (\<lambda>p resp. resp\<lparr>param := param resp + scast p\<rparr>) ps r)
      = param r + word_of_int (sum_list (map sint ps))" for ps :: "32 word list" and r :: Resp
  proof (induction ps arbitrary: r)
    case (Cons p ps)
    from Cons [of "r\<lparr>param := param r + scast p\<rparr>"] step [of p "sum_list (map sint ps)"]
    show ?case by (simp del: of_int_add add: add.assoc)
  qed simp
  then show ?thesis by (simp add: rpc_sum_def)
qed

lemma sum_bound: "\<bar>sum_list (map sint (ps :: 32 word list))\<bar> \<le> 2 ^ 31 * int (length ps)"
proof (induction ps)
  case (Cons p ps)
  have "\<bar>sint p\<bar> \<le> 2 ^ 31" using sint_ge [of p] sint_lt [of p] by simp
  with Cons show ?case by (simp add: algebra_simps)
qed simp

text \<open>No overflow: the sum of less than \<open>2 ^ 29\<close> parameters fits its 64 bits.\<close>

lemma rpc_sum_exact:
  assumes "length (params req) < 2 ^ 29"
  shows "sint (param (rpc_sum req resp)) = sum_list (map sint (params req))"
proof -
  have "2 ^ 31 * int (length (params req)) < 2 ^ 62" using assms by simp
  with sum_bound [of "params req"] have "\<bar>sum_list (map sint (params req))\<bar> < 2 ^ 62" by linarith
  then have "signed_take_bit 63 (sum_list (map sint (params req))) = sum_list (map sint (params req))"
    by (intro signed_take_bit_int_eq_self) auto
  then show ?thesis by (simp add: rpc_sum_int signed_of_int)
qed

section \<open>A request in pieces\<close>

lemma rpc_piece:
  assumes "objects s i = Some c" and "connected c" and "length ps < 2 ^ 29"
    and "\<forall>d w. fst (uv_write (uv env) (conn_handle c) d w) = 0"
  shows "\<exists>s'. rpc_onMessage env host i (bytes32 host ps) s = Some s' \<and> objects s' = objects s
    \<and> pending s' = pending s @ [(i, Some (UserWrite DeleteBuf),
        PackNum host (param (rpc_sum \<lparr>params = ps\<rparr> \<lparr>param = 0\<rparr>)))]"
proof -
  let ?r = "rpc_sum \<lparr>params = ps\<rparr> \<lparr>param = 0\<rparr>"
  obtain w where "uv_write (uv env) (conn_handle c) (PackNum host (param ?r)) (world s) = (0, w)"
    using assms(4) by (metis prod.collapse)
  moreover have "Resp_pack host (replicate 8 0) 8 ?r = Some (0, PackNum host (param ?r))"
    by (simp add: Resp_pack_def Resp_size_def)
  ultimately show ?thesis
    using assms(1,2) unpack_bytes32 [OF assms(3), of host "\<lparr>params = []\<rparr>"]
    by (simp add: rpc_onMessage_def srv_sendProtocol_def Resp_size_def run_write_task_def writeInLoop_task_def
        conn_write_def)
qed

lemma rpc_odd_piece:
  assumes "length m mod 4 \<noteq> 0" and "length m < 2 ^ 31"
  shows "rpc_onMessage env host i m s = Some s"
proof -
  have "int (length m) mod 4 \<noteq> 0" using assms(1) by presburger
  then show ?thesis using assms(2) by (simp add: rpc_onMessage_def Req_unpack_def)
qed

text \<open>The client's message callback for every piece, and the controller that gets its calls.\<close>

fun client_answers ::
  "DataMode \<Rightarrow> uint8 list list \<Rightarrow> ('c, 'w) RpcClient \<Rightarrow> RpcCtrl \<Rightarrow> RpcCtrl option"
where
  "client_answers host [] c ctrl = Some ctrl"
| "client_answers host (m # ms) c ctrl =
     do {
       out \<leftarrow> rpc_client_onMessage host m c;
       client_answers host ms c (fold (\<lambda>(_, resp). ctrl_onResp resp) out ctrl)
     }"

lemma client_answer:
  assumes "rpc_onResp c \<noteq> None"
  shows "client_answers host [PackNum host (param r)] c ctrl = Some (ctrl_onResp r ctrl)"
proof -
  have "UnpackNum host (PackNum host (param r)) = Some (param r)"
    using unpack_pack [of host "param r" "[]"] by simp
  then show ?thesis
    using assms by (cases r) (auto simp: rpc_client_onMessage_def Resp_unpack_def Resp_size_def)
qed

text \<open>
  One failure, one timer, one connect: the timer that a failure starts connects to the same address
  with a new socket and then is closing, with the function that deletes it.
\<close>

lemma rpc_reconnects:
  assumes "libuv (cl_uv env)" and "status \<noteq> OnConnectSuccess" and "rpc_timers c = []"
    and "rpc_onConnect env th status c = c1" and "th \<noteq> h"
  shows "\<exists>t c2. rpc_timers c1 = [t] \<and> onTimeOut t = [RpcReconnect] \<and> timeout t = 50
    \<and> rpc_timer_fired env h t c1 = Some c2 \<and> socket (rpc_tcp c2) = Some h \<and> rpc_addr c2 = rpc_addr c
    \<and> uv_is_closing (cl_uv env) th (cl_world (rpc_tcp c2)) \<and> map timer_closed (rpc_timers c2) = [[RpcDeleteTimer]]
    \<and> rpc_timers (rpc_delete_timer th c2) = []"
  using assms(2-5)
  by (auto simp: rpc_onConnect_def Timer_new_def timer_start_def onTimeOut_def run_if_def rpc_timer_fired_def
      timer_close_def Let_def timer_closed_def rpc_delete_timer_def cl_connect_def update_socket_def
      libuv.closing [OF assms(1)])

section \<open>Properties\<close>

text \<open>A call of the RPC service that is not cut on its way returns the exact sum: the client writes
  the packed request, the server answers it with one packed response, and with that response the
  waiting controller goes on and returns the sum of the parameters as integers, for up to \<open>2 ^ 29\<close>
  parameters of either sign and either byte order.\<close>

theorem rpc_call:
  assumes "length (params req) < 2 ^ 29" and "connection (rpc_tcp cl) \<noteq> None" and "rpc_onResp cl \<noteq> None"
    and "objects s i = Some c" and "connected c"
    and "\<forall>d w. fst (uv_write (uv env) (conn_handle c) d w) = 0"
  shows "\<exists>m s' answer ctrl'. cl_sendProtocol clenv host req cl = Some (cl, Some (m, Some RpcDelete))
    \<and> rpc_onMessage env host i m s = Some s' \<and> pending s' = pending s @ [(i, Some (UserWrite DeleteBuf), answer)]
    \<and> client_answers host [answer] cl (ctrl_start ctrl) = Some ctrl'
    \<and> map_option (\<lambda>resp. sint (param resp)) (ctrl_result ctrl') = Some (sum_list (map sint (params req)))"
proof -
  let ?m = "bytes32 host (params req)" and ?r = "rpc_sum req \<lparr>param = 0\<rparr>"
  have r: "rpc_sum \<lparr>params = params req\<rparr> \<lparr>param = 0\<rparr> = ?r" by (simp add: rpc_sum_def)
  have "cl_sendProtocol clenv host req cl = Some (cl, Some (?m, Some RpcDelete))"
    using assms(1,2) by (auto simp: cl_sendProtocol_def packed_bytes cl_writeInLoop_def)
  moreover obtain s' where "rpc_onMessage env host i ?m s = Some s'"
    "pending s' = pending s @ [(i, Some (UserWrite DeleteBuf), PackNum host (param ?r))]"
    using rpc_piece [OF assms(4,5,1,6), of host] unfolding r by blast
  moreover have "ctrl_result (ctrl_onResp ?r (ctrl_start ctrl)) = Some ?r"
    by (simp add: ctrl_result_def ctrl_onResp_def)
  ultimately show ?thesis
    using client_answer [OF assms(3), of host ?r "ctrl_start ctrl"] rpc_sum_exact [OF assms(1)] by auto
qed

definition rpc_example_env :: "(RpcServerCb, Sim) Env" where
  "rpc_example_env = \<lparr>uv = sim_uv, inet = sim_inet, buffer_mode = NoBuffer, cycle_size = 0,
     user = (\<lambda>f arg s. Some s)\<rparr>"

definition rpc_example_conn :: "'cb TcpConnection" where
  "rpc_example_conn = fst (TcpConnection_new sim_uv NoBuffer 0 ''10.0.0.1:9'' 7 True sim_init)"

definition rpc_example_state :: "(RpcServerCb, Sim) TcpServer" where
  "rpc_example_state = (RpcServer_new sim_uv 1 True sim_init)\<lparr>objects := [7 \<mapsto> rpc_example_conn]\<rparr>"

definition rpc_example_clenv :: "(RpcBind, Sim) ClientEnv" where
  "rpc_example_clenv = \<lparr>cl_uv = sim_uv, cl_inet = sim_inet, cl_mode = NoBuffer, cl_cycle = 0,
     cl_user = (\<lambda>f arg s. Some s)\<rparr>"

definition rpc_example_client :: "(string, Sim) RpcClient" where
  "rpc_example_client = \<lparr>rpc_addr = sim_addr, rpc_onResp = Some ''onResp'',
     rpc_tcp = (TcpClient_new True sim_init)\<lparr>connection := Some rpc_example_conn\<rparr>, rpc_timers = []\<rparr>"

lemma rpc_example:
  "objects rpc_example_state 7 = Some rpc_example_conn" "connected (rpc_example_conn :: RpcServerCb ServerCb TcpConnection)"
  "fst (uv_write (uv rpc_example_env) h d w) = 0" "pending rpc_example_state = []"
  by (simp_all add: rpc_example_state_def RpcServer_new_def rpc_example_conn_def TcpConnection_new_def
      rpc_example_env_def sim_uv_def TcpServer_new_def srv_setMessageCallback_def split: prod.split)

theorem rpc_call_witness:
  "\<exists>m s' answer ctrl'. cl_sendProtocol rpc_example_clenv LittleEndian \<lparr>params = [1, 2, -10]\<rparr> rpc_example_client
       = Some (rpc_example_client, Some (m, Some RpcDelete))
     \<and> rpc_onMessage rpc_example_env LittleEndian 7 m rpc_example_state = Some s'
     \<and> pending s' = [(7, Some (UserWrite DeleteBuf), answer)]
     \<and> client_answers LittleEndian [answer] rpc_example_client (ctrl_start \<lparr>ctrl_resp = \<lparr>param = 0\<rparr>, ready = False\<rparr>) = Some ctrl'
     \<and> map_option (\<lambda>resp. sint (param resp)) (ctrl_result ctrl') = Some (-7)"
proof -
  have "connection (rpc_tcp rpc_example_client) \<noteq> None" "rpc_onResp rpc_example_client \<noteq> None"
    by (simp_all add: rpc_example_client_def)
  moreover have "sum_list (map sint (params \<lparr>params = [1, 2, -10]\<rparr>)) = -7" by code_simp
  ultimately show ?thesis
    using rpc_call [of "\<lparr>params = [1, 2, -10]\<rparr>", OF _ _ _ rpc_example(1,2), of rpc_example_client rpc_example_env
      rpc_example_clenv LittleEndian "\<lparr>ctrl_resp = \<lparr>param = 0\<rparr>, ready = False\<rparr>"] rpc_example(3,4) by simp
qed

text \<open>The protocol has no framing: a request that TCP delivers in two pieces is answered twice,
  with the sums of its two parts, when the cut is between two parameters, and is never answered when
  the cut is inside a parameter, so that the caller waits for ever.\<close>

theorem rpc_cut_request:
  assumes "objects s i = Some c" and "connected c" and "length (params req) < 2 ^ 29"
    and "\<forall>d w. fst (uv_write (uv env) (conn_handle c) d w) = 0"
    and "packed host req = Some m" and "n < length m"
  shows "\<exists>s'. rpc_messages env host i [take n m, drop n m] s = Some s' \<and> map (snd \<circ> snd) (pending s') =
    map (snd \<circ> snd) (pending s) @ (if n mod 4 = 0
      then map (\<lambda>ps. PackNum host (param (rpc_sum \<lparr>params = ps\<rparr> \<lparr>param = 0\<rparr>)))
        [take (n div 4) (params req), drop (n div 4) (params req)]
      else [])"
proof -
  let ?ps = "params req"
  have m: "m = bytes32 host ?ps" using assms(5) packed_bytes [OF assms(3)] by simp
  show ?thesis
  proof (cases "n mod 4 = 0")
    case True
    then obtain k where k: "n = 4 * k" by auto
    have "bytes32 host ?ps = bytes32 host (take k ?ps) @ bytes32 host (drop k ?ps)"
      by (metis append_take_drop_id concat_append map_append)
    moreover have "length (bytes32 host (take k ?ps)) = n"
      using assms(6) k by (simp add: m)
    ultimately have cut: "take n m = bytes32 host (take k ?ps)" "drop n m = bytes32 host (drop k ?ps)"
      by (simp_all add: m)
    have short: "length (take k ?ps) < 2 ^ 29" "length (drop k ?ps) < 2 ^ 29" using assms(3) by simp_all
    obtain s1 where s1: "rpc_onMessage env host i (take n m) s = Some s1" "objects s1 = objects s"
      "pending s1 = pending s @ [(i, Some (UserWrite DeleteBuf),
        PackNum host (param (rpc_sum \<lparr>params = take k ?ps\<rparr> \<lparr>param = 0\<rparr>)))]"
      using rpc_piece [OF assms(1,2) short(1) assms(4), of host] unfolding cut by blast
    with rpc_piece [OF _ assms(2) short(2) assms(4), of s1 i host] assms(1) True k cut
    show ?thesis by fastforce
  next
    case False
    have len: "length m = 4 * length ?ps" by (simp add: m)
    have "(4 * k - n) mod 4 \<noteq> 0" if "n < 4 * k" for k using that False by presburger
    with len assms(6) False have "length (take n m) mod 4 \<noteq> 0" "length (drop n m) mod 4 \<noteq> 0"
      by simp_all
    with len assms(3) False show ?thesis
      using rpc_odd_piece [of "take n m" env host i s] rpc_odd_piece [of "drop n m" env host i s] by simp
  qed
qed

theorem rpc_cut_request_witness:
  "\<exists>m s' s''. packed LittleEndian \<lparr>params = [1, 2, 3]\<rparr> = Some m
     \<and> rpc_messages rpc_example_env LittleEndian 7 [take 4 m, drop 4 m] rpc_example_state = Some s'
     \<and> map (snd \<circ> snd) (pending s') = [[1, 0, 0, 0, 0, 0, 0, 0], [5, 0, 0, 0, 0, 0, 0, 0]]
     \<and> rpc_messages rpc_example_env LittleEndian 7 [take 5 m, drop 5 m] rpc_example_state = Some s''
     \<and> pending s'' = []"
proof -
  let ?req = "\<lparr>params = [1, 2, 3]\<rparr>"
  have m: "packed LittleEndian ?req = Some (bytes32 LittleEndian (params ?req))" by (rule packed_bytes) simp
  have len: "length (bytes32 LittleEndian (params ?req)) = 12" by simp
  note cut = rpc_cut_request [OF rpc_example(1,2), where req = ?req and env = rpc_example_env and host = LittleEndian,
      OF _ _ m]
  have "PackNum LittleEndian (param (rpc_sum \<lparr>params = [1]\<rparr> \<lparr>param = 0\<rparr>)) = [1, 0, 0, 0, 0, 0, 0, 0]"
    "PackNum LittleEndian (param (rpc_sum \<lparr>params = [2, 3]\<rparr> \<lparr>param = 0\<rparr>)) = [5, 0, 0, 0, 0, 0, 0, 0]"
    by code_simp+
  with cut [of 4] cut [of 5] len m rpc_example(3,4) show ?thesis by (auto simp del: length_bytes32)
qed

end
