(* ===== verification/RpcThreads.thy ===== *)
theory RpcThreads
  imports Rpc
begin

text \<open>
  The controller of the RPC example among its threads (\<open>examples/rpc/RpcCtrl.cpp\<close>): the caller of \<open>sum\<close>,
  the background thread that \<open>RpcCtrl::RpcCtrl\<close> starts (\<open>backRun\<close>) and the server, as a step relation.
  A step of the caller or of \<open>onResp\<close> is what happens between two operations on the mutex. The network
  is a stream of bytes in either direction, which may cut and join what is written on its way
  (\<open>segment\<close>); \<open>fragmented\<close> says that it has done so.
\<close>

section \<open>State\<close>

text \<open>\<open>backRun\<close> up to \<open>loop.run ()\<close>: a new client, which connects; its callback is the controller's.\<close>

definition backRun ::
  "(RpcBind, 'w) ClientEnv \<Rightarrow> handle \<Rightarrow> SocketAddr \<Rightarrow> bool \<Rightarrow> 'w \<Rightarrow> (unit, 'w) RpcClient"
where
  "backRun env h addr noDelay w = rpc_setOnResp (Some ()) (RpcClient_new env h addr noDelay w)"

datatype Owner = Caller | Back

text \<open>\<open>Sent\<close> is the caller at the test of \<open>ready_\<close> in \<open>wait\<close>, with the mutex held.\<close>

datatype CallerPc = Outside | Called Req | Sent | Asleep | Returned Resp

datatype BackPc = Starting | Looping | Answering "Resp list"

record 'w RpcSys =
  backpc :: BackPc
  rpc_client :: "(unit, 'w) RpcClient option"
  ctrl :: RpcCtrl
  mutex :: "Owner option"
  caller :: CallerPc
  notified :: bool
  asked :: Req
  tasks :: "(uint8 list \<times> RpcBind option) list"
  wire_out :: "uint8 list list"
  wire_in :: "uint8 list list"
  crashed :: bool
  fragmented :: bool

definition RpcSys_init :: "RpcCtrl \<Rightarrow> 'w RpcSys" where
  "RpcSys_init c = \<lparr>backpc = Starting, rpc_client = None, ctrl = c, mutex = None, caller = Outside, notified = False,
     asked = \<lparr>params = []\<rparr>, tasks = [], wire_out = [], wire_in = [], crashed = False, fragmented = False\<rparr>"

text \<open>What the server writes for a piece that arrives.\<close>

definition rpc_answer :: "DataMode \<Rightarrow> uint8 list \<Rightarrow> uint8 list list" where
  "rpc_answer host m =
     (case Req_unpack host m (c_int (length m)) \<lparr>params = []\<rparr> of
        Some (rst, req) \<Rightarrow> if rst = 0 then [PackNum host (param (rpc_sum req \<lparr>param = 0\<rparr>))] else []
      | None \<Rightarrow> [])"

lemma rpc_answer_server:
  assumes "objects s i = Some c" and "connected c" and "length ps < 2 ^ 29"
    and "\<forall>d w. fst (uv_write (uv env) (conn_handle c) d w) = 0"
  shows "\<exists>s'. rpc_onMessage env host i (bytes32 host ps) s = Some s'
    \<and> map (snd \<circ> snd) (pending s') = map (snd \<circ> snd) (pending s) @ rpc_answer host (bytes32 host ps)"
  using rpc_piece [OF assms, of host] unpack_bytes32 [OF assms(3), of host "\<lparr>params = []\<rparr>"]
  by (fastforce simp: rpc_answer_def)

text \<open>What a write puts on the wire: a request without parameters has no bytes.\<close>

fun on_wire :: "('a \<times> uint8 list) option \<Rightarrow> uint8 list list" where
  "on_wire (Some (_, d)) = (if d = [] then [] else [d])"
| "on_wire None = []"

section \<open>Steps\<close>

text \<open>
  The flag marks the moves that need not happen: the start of the background thread, the network's,
  a new call, a spurious wake-up and undefined behaviour.
\<close>

inductive rpc_step :: "(RpcBind, 'w) ClientEnv \<Rightarrow> DataMode \<Rightarrow> bool \<Rightarrow> 'w RpcSys \<Rightarrow> 'w RpcSys \<Rightarrow> bool" for env host where
  start: "backpc s = Starting \<Longrightarrow>
    rpc_step env host True s (s\<lparr>rpc_client := Some (backRun env h addr noDelay w), backpc := Looping\<rparr>)"
| connect: "rpc_client s = Some cl \<Longrightarrow> connected c \<Longrightarrow>
    rpc_step env host True s (s\<lparr>rpc_client := Some (cl\<lparr>rpc_tcp := (rpc_tcp cl)\<lparr>connection := Some c\<rparr>\<rparr>),
      wire_out := [], wire_in := []\<rparr>)"
| lose: "rpc_client s = Some cl \<Longrightarrow> connection (rpc_tcp cl) = Some c \<Longrightarrow>
    rpc_step env host True s (s\<lparr>rpc_client := Some (cl\<lparr>rpc_tcp := (rpc_tcp cl)\<lparr>connection := Some (setConnectStatus False c)\<rparr>\<rparr>),
      wire_out := [], wire_in := []\<rparr>)"
| call: "caller s = Outside \<or> caller s = Returned r \<Longrightarrow> mutex s = None \<Longrightarrow> length (params req) < 2 ^ 29 \<Longrightarrow>
    rpc_step env host True s (s\<lparr>mutex := Some Caller, ctrl := ctrl_start (ctrl s), caller := Called req, asked := req\<rparr>)"
| send: "caller s = Called req \<Longrightarrow> rpc_client s = Some cl \<Longrightarrow> cl_sendProtocol env host req cl = Some (cl', task) \<Longrightarrow>
    rpc_step env host False s (s\<lparr>rpc_client := Some cl', caller := Sent,
      tasks := tasks s @ (case task of Some t \<Rightarrow> [t] | None \<Rightarrow> [])\<rparr>)"
| crash: "caller s = Called req \<Longrightarrow> rpc_client s = None \<Longrightarrow> rpc_step env host True s (s\<lparr>crashed := True\<rparr>)"
| wait: "caller s = Sent \<Longrightarrow> ctrl_result (ctrl s) = None \<Longrightarrow>
    rpc_step env host False s (s\<lparr>mutex := None, caller := Asleep, notified := False\<rparr>)"
| wake: "caller s = Asleep \<Longrightarrow> notified s \<Longrightarrow> mutex s = None \<Longrightarrow>
    rpc_step env host False s (s\<lparr>mutex := Some Caller, caller := Sent, notified := False\<rparr>)"
| spurious: "caller s = Asleep \<Longrightarrow> \<not> notified s \<Longrightarrow> mutex s = None \<Longrightarrow>
    rpc_step env host True s (s\<lparr>mutex := Some Caller, caller := Sent\<rparr>)"
| return: "caller s = Sent \<Longrightarrow> ctrl_result (ctrl s) = Some resp \<Longrightarrow>
    rpc_step env host False s (s\<lparr>mutex := None, caller := Returned resp\<rparr>)"
| run_task: "backpc s = Looping \<Longrightarrow> tasks s = (m, cb) # ts \<Longrightarrow> rpc_client s = Some cl \<Longrightarrow>
    writeInLoop_task (cl_uv env) m (map_option ClientWrite cb) (connection (rpc_tcp cl)) (cl_world (rpc_tcp cl))
      = Some (w, acts, rq) \<Longrightarrow>
    rpc_step env host False s (s\<lparr>tasks := ts, rpc_client := Some (cl\<lparr>rpc_tcp := (rpc_tcp cl)\<lparr>cl_world := w\<rparr>\<rparr>),
      wire_out := wire_out s @ on_wire rq\<rparr>)"
| segment: "concat outs = concat (wire_out s) \<Longrightarrow> concat ins = concat (wire_in s) \<Longrightarrow>
    \<forall>m\<in>set (outs @ ins). m \<noteq> [] \<and> length m < 2 ^ 31 \<Longrightarrow> (outs, ins) \<noteq> (wire_out s, wire_in s) \<Longrightarrow>
    rpc_step env host True s (s\<lparr>wire_out := outs, wire_in := ins, fragmented := True\<rparr>)"
| serve: "wire_out s = m # ms \<Longrightarrow>
    rpc_step env host False s (s\<lparr>wire_out := ms, wire_in := wire_in s @ rpc_answer host m\<rparr>)"
| receive: "backpc s = Looping \<Longrightarrow> wire_in s = d # ds \<Longrightarrow> rpc_client s = Some cl \<Longrightarrow>
    rpc_client_onMessage host d cl = Some out \<Longrightarrow>
    rpc_step env host False s (s\<lparr>wire_in := ds, backpc := Answering (map snd out)\<rparr>)"
| onResp: "backpc s = Answering (r # rs) \<Longrightarrow> mutex s = None \<Longrightarrow>
    rpc_step env host False s (s\<lparr>ctrl := ctrl_onResp r (ctrl s), backpc := Answering rs,
      notified := (notified s \<or> caller s = Asleep)\<rparr>)"
| answered: "backpc s = Answering [] \<Longrightarrow> rpc_step env host False s (s\<lparr>backpc := Looping\<rparr>)"

inductive rpc_reach :: "(RpcBind, 'w) ClientEnv \<Rightarrow> DataMode \<Rightarrow> 'w RpcSys \<Rightarrow> 'w RpcSys \<Rightarrow> bool" for env host s0 where
  refl: "rpc_reach env host s0 s0"
| step: "rpc_reach env host s0 s \<Longrightarrow> rpc_step env host b s s' \<Longrightarrow> rpc_reach env host s0 s'"

section \<open>Invariant\<close>

text \<open>The caller's request and its answer, as bytes and as a message.\<close>

definition asked_msg :: "DataMode \<Rightarrow> 'w RpcSys \<Rightarrow> uint8 list" where
  "asked_msg host s = bytes32 host (params (asked s))"

definition due :: "'w RpcSys \<Rightarrow> Resp" where
  "due s = rpc_sum (asked s) \<lparr>param = 0\<rparr>"

text \<open>What is on its way for the caller, from the loop's queue to \<open>onResp\<close>.\<close>

definition answering :: "'w RpcSys \<Rightarrow> Resp list" where
  "answering s = (case backpc s of Answering rs \<Rightarrow> rs | _ \<Rightarrow> [])"

definition in_flight :: "'w RpcSys \<Rightarrow> nat" where
  "in_flight s = length (tasks s) + length (wire_out s) + length (wire_in s) + length (answering s)
     + (if ready (ctrl s) then 1 else 0)"

definition flight_ok :: "DataMode \<Rightarrow> 'w RpcSys \<Rightarrow> bool" where
  "flight_ok host s \<longleftrightarrow> set (tasks s) \<subseteq> {(asked_msg host s, Some RpcDelete)} \<and> set (wire_out s) \<subseteq> {asked_msg host s}
     \<and> set (wire_in s) \<subseteq> {PackNum host (param (due s))} \<and> set (answering s) \<subseteq> {due s}
     \<and> length (params (asked s)) < 2 ^ 29"

definition caller_ok :: "'w RpcSys \<Rightarrow> bool" where
  "caller_ok s \<longleftrightarrow>
     (case caller s of
        Outside \<Rightarrow> mutex s = None \<and> in_flight s - (if ready (ctrl s) then 1 else 0) = 0
      | Called req \<Rightarrow> mutex s = Some Caller \<and> in_flight s = 0 \<and> asked s = req
      | Sent \<Rightarrow> mutex s = Some Caller \<and> in_flight s \<le> 1 \<and> (ready (ctrl s) \<longrightarrow> ctrl_resp (ctrl s) = due s)
      | Asleep \<Rightarrow> mutex s = None \<and> in_flight s \<le> 1 \<and> (ready (ctrl s) \<longrightarrow> ctrl_resp (ctrl s) = due s \<and> notified s)
      | Returned r \<Rightarrow> mutex s = None \<and> in_flight s - (if ready (ctrl s) then 1 else 0) = 0 \<and> r = due s)"

definition rpc_inv :: "DataMode \<Rightarrow> 'w RpcSys \<Rightarrow> bool" where
  "rpc_inv host s \<longleftrightarrow> flight_ok host s \<and> caller_ok s
     \<and> (backpc s = Starting \<longleftrightarrow> rpc_client s = None) \<and> (\<forall>cl. rpc_client s = Some cl \<longrightarrow> rpc_onResp cl = Some ())"

lemma rpc_inv_init: "rpc_inv host (RpcSys_init c)"
  by (simp add: rpc_inv_def flight_ok_def caller_ok_def RpcSys_init_def in_flight_def answering_def)

lemma rpc_answer_msg:
  "length (params (asked s)) < 2 ^ 29 \<Longrightarrow> rpc_answer host (asked_msg host s) = [PackNum host (param (due s))]"
  using unpack_bytes32 [of "params (asked s)" host "\<lparr>params = []\<rparr>"]
  by (cases "asked s") (simp add: rpc_answer_def asked_msg_def due_def)

lemma client_out:
  "rpc_onResp cl = Some () \<Longrightarrow> rpc_client_onMessage host (PackNum host (param r)) cl = Some [((), r)]"
  using unpack_pack [of host "param r" "[]"]
  by (cases r) (simp add: rpc_client_onMessage_def Resp_unpack_def Resp_size_def)

lemma sent_task:
  assumes "cl_sendProtocol env host req cl = Some (cl', task)" and "length (params req) < 2 ^ 29"
  shows "(task = None \<or> task = Some (bytes32 host (params req), Some RpcDelete)) \<and> rpc_onResp cl' = rpc_onResp cl"
  using assms
  by (auto simp: cl_sendProtocol_def packed_bytes cl_writeInLoop_def split: option.splits Option.bind_splits)

lemma task_request:
  "writeInLoop_task u m cb conn w = Some (w', acts, rq) \<Longrightarrow>
    on_wire rq \<in> {[], [m]}"
  by (auto simp: writeInLoop_task_def conn_write_def split: option.splits if_splits prod.splits)

lemmas rpc_inv_defs = rpc_inv_def flight_ok_def caller_ok_def in_flight_def answering_def asked_msg_def due_def
  ctrl_start_def ctrl_onResp_def ctrl_result_def

lemma rpc_step_inv:
  assumes "rpc_step env host b s s'" and "rpc_inv host s" and "\<not> fragmented s'"
  shows "rpc_inv host s'"
  using assms
proof (induction rule: rpc_step.induct)
  case (start s h addr noDelay w)
  then show ?case
    by (auto simp: rpc_inv_defs backRun_def rpc_setOnResp_def RpcClient_new_def split: CallerPc.splits)
next
  case (send s req cl cl' task)
  then have "(task = None \<or> task = Some (asked_msg host s, Some RpcDelete)) \<and> rpc_onResp cl' = Some ()"
    using sent_task [OF send.hyps(3)] by (auto simp: rpc_inv_defs)
  with send show ?case by (auto simp: rpc_inv_defs split: BackPc.splits if_splits)
next
  case (run_task s m cb ts cl w acts rq)
  from task_request [OF run_task.hyps(4)] run_task show ?case
    by (auto simp: rpc_inv_defs split: CallerPc.splits if_splits)
next
  case (serve s m ms)
  then have "rpc_answer host m = [PackNum host (param (due s))]"
    using rpc_answer_msg [of s host] by (auto simp: rpc_inv_def flight_ok_def)
  with serve show ?case by (auto simp: rpc_inv_defs split: CallerPc.splits BackPc.splits if_splits)
next
  case (receive s d ds cl out)
  then have "out = [((), due s)]"
    using client_out [of cl host "due s"] by (auto simp: rpc_inv_def flight_ok_def)
  with receive show ?case by (auto simp: rpc_inv_defs split: CallerPc.splits if_splits)
qed (auto simp: rpc_inv_defs split: CallerPc.splits BackPc.splits if_splits)

lemma fragmented_step: "rpc_step env host b s s' \<Longrightarrow> fragmented s \<Longrightarrow> fragmented s'"
  by (induction rule: rpc_step.induct) simp_all

text \<open>The invariant holds as long as every message has arrived in one piece.\<close>

lemma rpc_reach_inv: "rpc_reach env host s s' \<Longrightarrow> rpc_inv host s \<Longrightarrow> \<not> fragmented s' \<Longrightarrow> rpc_inv host s'"
  by (induction rule: rpc_reach.induct) (auto intro: rpc_step_inv dest: fragmented_step)

section \<open>Progress\<close>

text \<open>The connection is up and libuv takes writes on it.\<close>

definition line_up :: "(RpcBind, 'w) ClientEnv \<Rightarrow> 'w RpcSys \<Rightarrow> bool" where
  "line_up env s \<longleftrightarrow>
     (\<exists>cl c. rpc_client s = Some cl \<and> connection (rpc_tcp cl) = Some c \<and> connected c
       \<and> (\<forall>d w. fst (uv_write (cl_uv env) (conn_handle c) d w) = 0))"

definition sum_under_way :: "'w RpcSys \<Rightarrow> bool" where
  "sum_under_way s \<longleftrightarrow> params (asked s) \<noteq> [] \<and>
     (case caller s of Called req \<Rightarrow> True | Returned r \<Rightarrow> True | Outside \<Rightarrow> False | _ \<Rightarrow> in_flight s = 1)"

definition rpc_measure :: "'w RpcSys \<Rightarrow> nat" where
  "rpc_measure s = 40 * length (tasks s) + 30 * length (wire_out s) + 20 * length (wire_in s)
     + (case backpc s of Answering rs \<Rightarrow> 1 + 10 * length rs | _ \<Rightarrow> 0)
     + (case caller s of Called req \<Rightarrow> 100 | Sent \<Rightarrow> 2 | Asleep \<Rightarrow> if notified s then 3 else 1 | _ \<Rightarrow> 0)"

text \<open>A write on the connection is taken.\<close>

lemma task_taken:
  assumes "line_up env s" and "rpc_client s = Some cl"
  shows "\<exists>w. writeInLoop_task (cl_uv env) m cb (connection (rpc_tcp cl)) v = Some (w, [], Some (cb, m))"
proof -
  from assms obtain c where c: "connection (rpc_tcp cl) = Some c" "connected c"
    "fst (uv_write (cl_uv env) (conn_handle c) m v) = 0" by (auto simp: line_up_def)
  then show ?thesis
    by (cases "uv_write (cl_uv env) (conn_handle c) m v") (simp add: writeInLoop_task_def conn_write_def)
qed

lemma sent_up:
  assumes "line_up env s" and "rpc_client s = Some cl" and "length (params req) < 2 ^ 29"
  shows "cl_sendProtocol env host req cl = Some (cl, Some (bytes32 host (params req), Some RpcDelete))"
  using assms by (auto simp: line_up_def cl_sendProtocol_def packed_bytes cl_writeInLoop_def)

lemma rpc_progress_step:
  assumes "rpc_step env host False s s'" and "rpc_inv host s" and "line_up env s" and "sum_under_way s"
  shows "line_up env s' \<and> sum_under_way s' \<and> rpc_measure s' < rpc_measure s \<and> asked s' = asked s
    \<and> fragmented s' = fragmented s"
  using assms
proof (induction "False" s s' rule: rpc_step.induct)
  case (send s req cl cl' task)
  then have "length (params req) < 2 ^ 29" by (auto simp: rpc_inv_def flight_ok_def caller_ok_def)
  with sent_up [OF send.prems(2) send.hyps(2), of req host] send show ?case
    by (auto simp: rpc_inv_defs sum_under_way_def rpc_measure_def line_up_def split: BackPc.splits)
next
  case (run_task s m cb ts cl w acts rq)
  then have "rq = Some (map_option ClientWrite cb, m)"
    using task_taken [OF run_task.prems(2) run_task.hyps(3), of m "map_option ClientWrite cb" "cl_world (rpc_tcp cl)"]
    by auto
  moreover have "m = asked_msg host s" using run_task by (auto simp: rpc_inv_def flight_ok_def)
  then have "length m \<noteq> 0" using run_task.prems(3) by (simp add: sum_under_way_def asked_msg_def)
  then have "m \<noteq> []" by blast
  ultimately show ?case using run_task
    by (auto simp: sum_under_way_def in_flight_def answering_def rpc_measure_def line_up_def split: CallerPc.splits)
next
  case (serve s m ms)
  then have "rpc_answer host m = [PackNum host (param (due s))]"
    using rpc_answer_msg [of s host] by (auto simp: rpc_inv_def flight_ok_def)
  with serve show ?case
    by (auto simp: sum_under_way_def in_flight_def answering_def rpc_measure_def line_up_def split: CallerPc.splits BackPc.splits)
next
  case (receive s d ds cl out)
  then have "out = [((), due s)]"
    using client_out [of cl host "due s"] by (auto simp: rpc_inv_def flight_ok_def)
  with receive show ?case
    by (auto simp: sum_under_way_def in_flight_def answering_def rpc_measure_def line_up_def split: CallerPc.splits)
qed (auto simp: sum_under_way_def rpc_inv_defs rpc_measure_def line_up_def split: CallerPc.splits BackPc.splits if_splits)

text \<open>While the sum is under way some thread can go on.\<close>

lemma rpc_progress:
  assumes inv: "rpc_inv host s" and up: "line_up env s" and way: "sum_under_way s" and "\<forall>r. caller s \<noteq> Returned r"
  shows "\<exists>s'. rpc_step env host False s s'"
proof -
  from up obtain cl where cl: "rpc_client s = Some cl" by (auto simp: line_up_def)
  with inv have short: "length (params (asked s)) < 2 ^ 29" and resp: "rpc_onResp cl = Some ()"
    and started: "backpc s \<noteq> Starting" by (auto simp: rpc_inv_def flight_ok_def)
  have flying: "\<exists>s'. rpc_step env host False s s'" if "caller s = Asleep" "in_flight s = 1" "\<not> notified s"
  proof -
    from that inv have mutex: "mutex s = None" and "\<not> ready (ctrl s)" by (auto simp: rpc_inv_def caller_ok_def)
    with that(2) consider t ts where "tasks s = t # ts" | m ms where "wire_out s = m # ms"
      | d ds where "wire_in s = d # ds" | r rs where "answering s = r # rs"
      by (cases "tasks s"; cases "wire_out s"; cases "wire_in s"; cases "answering s") (auto simp: in_flight_def)
    then show ?thesis
    proof cases
      case 1
      show ?thesis
      proof (cases "backpc s")
        case Looping
        obtain m cb where t: "t = (m, cb)" by fastforce
        from task_taken [OF up cl, of m "map_option ClientWrite cb" "cl_world (rpc_tcp cl)"]
          rpc_step.run_task [OF Looping 1 [unfolded t] cl] show ?thesis by blast
      next
        case (Answering rs)
        with 1 that(2) have "rs = []" by (auto simp: in_flight_def answering_def)
        with rpc_step.answered [of s] Answering show ?thesis by blast
      qed (use started in simp)
    next
      case 2
      from rpc_step.serve [OF this] show ?thesis by blast
    next
      case 3
      show ?thesis
      proof (cases "backpc s")
        case Looping
        from 3 inv have "d = PackNum host (param (due s))" by (auto simp: rpc_inv_def flight_ok_def)
        with rpc_step.receive [OF Looping 3 cl] client_out [OF resp] show ?thesis by blast
      next
        case (Answering rs)
        with 3 that(2) have "rs = []" by (auto simp: in_flight_def answering_def)
        with rpc_step.answered [of s] Answering show ?thesis by blast
      qed (use started in simp)
    next
      case 4
      then have "backpc s = Answering (r # rs)" by (auto simp: answering_def split: BackPc.splits)
      from rpc_step.onResp [OF this mutex] show ?thesis by blast
    qed
  qed
  show ?thesis
  proof (cases "caller s")
    case (Called req)
    with inv short have "length (params req) < 2 ^ 29" by (auto simp: rpc_inv_def caller_ok_def)
    from rpc_step.send [OF Called cl sent_up [OF up cl this]] show ?thesis by blast
  next
    case Sent
    from rpc_step.wait [OF this] rpc_step.return [OF this] show ?thesis by (cases "ctrl_result (ctrl s)") blast+
  next
    case Asleep
    with inv way have "mutex s = None" "in_flight s = 1" by (auto simp: rpc_inv_def caller_ok_def sum_under_way_def)
    with rpc_step.wake [OF Asleep] flying [OF Asleep] show ?thesis by blast
  qed (use assms in \<open>auto simp: sum_under_way_def\<close>)
qed

lemma rpc_progress_run:
  assumes "(rpc_step env host False ^^ k) s s'" and "rpc_inv host s" and "line_up env s" and "sum_under_way s"
    and "\<not> fragmented s"
  shows "rpc_inv host s' \<and> line_up env s' \<and> sum_under_way s' \<and> rpc_measure s' + k \<le> rpc_measure s \<and> asked s' = asked s
    \<and> \<not> fragmented s'"
  using assms(1)
proof (induction k arbitrary: s')
  case (Suc k)
  then obtain r where "(rpc_step env host False ^^ k) s r" and step: "rpc_step env host False r s'" by auto
  with Suc.IH have r: "rpc_inv host r" "line_up env r" "sum_under_way r" "rpc_measure r + k \<le> rpc_measure s"
    "asked r = asked s" "\<not> fragmented r" by auto
  from rpc_progress_step [OF step r(1-3)] rpc_step_inv [OF step r(1)] r(4-6) show ?case by simp
qed (use assms in simp)

section \<open>Properties\<close>

lemma due_sum: "length (params (asked s)) < 2 ^ 29 \<Longrightarrow>
    sint (param (due s)) = sum_list (map sint (params (asked s)))"
  by (simp add: due_def rpc_sum_exact)

text \<open>C11: as long as TCP has delivered every message of the protocol in one piece, \<open>sum\<close> never returns a wrong
  answer: whatever the timing of the two threads, of the network and of the connection, with spurious
  wake-ups and for any number of calls with less than \<open>2 ^ 29\<close> parameters, the response that a call
  returns is the exact sum of the parameters of that call. TCP need not do so: \<open>rpc_sum_cut\<close>, below, shows
  what a cut message does.\<close>

theorem rpc_sum_correct:
  assumes "rpc_reach env host (RpcSys_init c) s" and "caller s = Returned resp" and "\<not> fragmented s"
  shows "sint (param resp) = sum_list (map sint (params (asked s)))"
  using rpc_reach_inv [OF assms(1) rpc_inv_init assms(3)] assms(2) due_sum [of s]
  by (auto simp: rpc_inv_def caller_ok_def flight_ok_def)

text \<open>C13: a call of \<open>sum\<close> with at least one parameter, over a connection that stays up and delivers every
  message in one piece, returns: there is no deadlock between the mutex, the condition variable and the
  loop's thread, and no lost notification: a run without spurious wake-ups has at most 101 steps, and
  ends only when the call has returned the sum. A request that is cut, and one without parameters, may
  never be answered (\<open>rpc_sum_cut\<close>, \<open>rpc_empty_waits\<close>).\<close>

theorem rpc_sum_returns:
  assumes "rpc_reach env host (RpcSys_init c) s" and "\<not> fragmented s" and "caller s = Called req"
    and "params req \<noteq> []" and "line_up env s" and "(rpc_step env host False ^^ k) s s'"
  shows "k \<le> 101 \<and> ((\<nexists>s''. rpc_step env host False s' s'') \<longrightarrow>
    (\<exists>r. caller s' = Returned r \<and> sint (param r) = sum_list (map sint (params req))))"
proof -
  from rpc_reach_inv [OF assms(1) rpc_inv_init assms(2)] have inv: "rpc_inv host s" .
  with assms(3) have asked: "asked s = req" and start: "in_flight s = 0" by (auto simp: rpc_inv_def caller_ok_def)
  have way: "sum_under_way s" using assms(3,4) asked by (simp add: sum_under_way_def)
  note run = rpc_progress_run [OF assms(6) inv assms(5) way assms(2)]
  have "rpc_measure s \<le> 101"
    using start assms(3) by (auto simp: rpc_measure_def in_flight_def answering_def split: BackPc.splits)
  with run have "k \<le> 101" by simp
  moreover have "\<exists>r. caller s' = Returned r \<and> sint (param r) = sum_list (map sint (params req))"
    if stuck: "\<nexists>s''. rpc_step env host False s' s''"
  proof -
    from rpc_progress [of host s' env] run stuck obtain r where r: "caller s' = Returned r" by blast
    with run have "r = due s'" "length (params (asked s')) < 2 ^ 29"
      by (auto simp: rpc_inv_def caller_ok_def flight_ok_def)
    with due_sum [of s'] run asked r show ?thesis by simp
  qed
  ultimately show ?thesis by blast
qed

text \<open>Nothing is on its way for the caller; a message without bytes that waits in the queue is nothing.\<close>

definition starved :: "'w RpcSys \<Rightarrow> bool" where
  "starved s \<longleftrightarrow> caller s \<in> {Sent, Asleep} \<and> fst ` set (tasks s) \<subseteq> {[]} \<and> wire_out s = [] \<and> wire_in s = []
     \<and> answering s = [] \<and> \<not> ready (ctrl s)"

lemma starvedI: "caller s \<in> {Sent, Asleep} \<Longrightarrow> in_flight s = 0 \<Longrightarrow> starved s"
  by (simp add: starved_def in_flight_def split: if_splits)

lemma on_wire_empty: "writeInLoop_task u [] cb conn w = Some (w', acts, rq) \<Longrightarrow> on_wire rq = []"
  using task_request [of u "[]" cb conn w w' acts rq] by (cases rq) (auto split: if_splits)

lemma starved_step:
  assumes "rpc_step env host b s s'" and "starved s"
  shows "starved s'"
  using assms
proof (induction rule: rpc_step.induct)
  case (run_task s m cb ts cl w acts rq)
  then have "m = []" by (auto simp: starved_def)
  with on_wire_empty run_task show ?case by (auto simp: starved_def answering_def)
qed (auto simp: starved_def answering_def ctrl_result_def split: BackPc.splits if_splits)

lemma starved_reach: "rpc_reach env host s s' \<Longrightarrow> starved s \<Longrightarrow> caller s' \<in> {Sent, Asleep}"
proof -
  have "rpc_reach env host s s' \<Longrightarrow> starved s \<Longrightarrow> starved s'"
    by (induction rule: rpc_reach.induct) (auto intro: starved_step)
  then show "rpc_reach env host s s' \<Longrightarrow> starved s \<Longrightarrow> caller s' \<in> {Sent, Asleep}" by (auto simp: starved_def)
qed

text \<open>C37: a request that is lost is never answered and never given up: when \<open>sum\<close> sends while the client has
  no connection, or when the connection is lost before the response is in (and, should TCP have cut
  a message before, nothing else is on its way), the caller waits for ever, also when the client connects again.\<close>

theorem rpc_sum_waits:
  assumes "rpc_reach env host (RpcSys_init c) s" and "rpc_step env host b s s1" and "rpc_reach env host s1 s'"
    and "caller s = Called req \<and> (\<forall>cl. rpc_client s = Some cl \<longrightarrow> connection (rpc_tcp cl) = None) \<and> caller s1 = Sent
      \<or> caller s \<in> {Sent, Asleep} \<and> wire_out s @ wire_in s \<noteq> [] \<and> wire_out s1 @ wire_in s1 = [] \<and> backpc s1 = Looping"
    and "fragmented s1 \<longrightarrow> in_flight s1 = 0"
  shows "caller s' \<in> {Sent, Asleep}"
proof -
  have "caller s1 \<in> {Sent, Asleep} \<and> in_flight s1 = 0"
  proof (cases "fragmented s1")
    case True
    with assms(2,4) have "caller s1 \<in> {Sent, Asleep}" by (induction rule: rpc_step.induct) auto
    with True assms(5) show ?thesis by simp
  next
    case False
    then have "\<not> fragmented s" using fragmented_step [OF assms(2)] by blast
    with rpc_reach_inv [OF assms(1) rpc_inv_init] have inv: "rpc_inv host s" by blast
    show ?thesis
      using assms(2) inv assms(4) False
    proof (induction rule: rpc_step.induct)
      case (send s req' cl cl' task)
      then have "task = None"
        by (auto simp: cl_sendProtocol_def cl_writeInLoop_def split: option.splits Option.bind_splits)
      with send show ?case by (auto simp: rpc_inv_defs split: BackPc.splits if_splits)
    qed (auto simp: rpc_inv_defs neq_Nil_conv split: BackPc.splits CallerPc.splits if_splits)
  qed
  then show ?thesis using starved_reach [OF assms(3) starvedI] by blast
qed

section \<open>Messages that are cut\<close>

text \<open>The two pieces of a request: between two parameters each is a request, elsewhere neither.\<close>

lemma bytes32_split: "bytes32 host ps = bytes32 host (take n ps) @ bytes32 host (drop n ps)"
  by (metis append_take_drop_id concat_append map_append)

lemma rpc_answer_even:
  assumes "length ps < 2 ^ 29"
  shows "rpc_answer host (bytes32 host ps) = [PackNum host (param (rpc_sum \<lparr>params = ps\<rparr> \<lparr>param = 0\<rparr>))]"
  using unpack_bytes32 [OF assms, of host "\<lparr>params = []\<rparr>"] by (simp add: rpc_answer_def)

lemma rpc_answer_odd:
  assumes "length m mod 4 \<noteq> 0" and "length m < 2 ^ 31"
  shows "rpc_answer host m = []"
proof -
  have "int (length m) mod 4 \<noteq> 0" using assms(1) by presburger
  then show ?thesis using assms(2) by (simp add: rpc_answer_def Req_unpack_def)
qed

lemma rpc_reach_trans: "rpc_reach env host s1 s2 \<Longrightarrow> rpc_reach env host s0 s1 \<Longrightarrow> rpc_reach env host s0 s2"
  by (induction rule: rpc_reach.induct) (auto intro: rpc_reach.step)

text \<open>From the call to the request on the wire, with the caller asleep.\<close>

lemma request_on_wire:
  assumes "rpc_inv host s" and "caller s = Called req" and "params req \<noteq> []" and "line_up env s"
  shows "\<exists>s' cl. rpc_reach env host s s' \<and> caller s' = Asleep \<and> mutex s' = None \<and> backpc s' = Looping
    \<and> tasks s' = [] \<and> wire_out s' = [bytes32 host (params req)] \<and> wire_in s' = [] \<and> \<not> ready (ctrl s')
    \<and> rpc_client s' = Some cl \<and> rpc_onResp cl = Some ()"
proof -
  from assms(1,2) have asked: "asked s = req" and empty: "tasks s = []" "wire_out s = []" "wire_in s = []" "answering s = []"
    and "\<not> ready (ctrl s)" and short: "length (params req) < 2 ^ 29"
    by (auto simp: rpc_inv_def caller_ok_def flight_ok_def in_flight_def split: if_splits)
  from assms(4) obtain cl where cl: "rpc_client s = Some cl" by (auto simp: line_up_def)
  with assms(1) have resp: "rpc_onResp cl = Some ()" and "backpc s \<noteq> Starting" by (auto simp: rpc_inv_def)
  with empty(4) have "backpc s \<in> {Looping, Answering []}" by (cases "backpc s") (auto simp: answering_def)
  define s1 where "s1 = s\<lparr>backpc := Looping\<rparr>"
  have s1: "rpc_reach env host s s1"
  proof (cases "backpc s = Looping")
    case True
    then have "s1 = s" by (simp add: s1_def)
    then show ?thesis by (simp add: rpc_reach.refl)
  next
    case False
    with \<open>backpc s \<in> _\<close> have "rpc_step env host False s s1" unfolding s1_def by (intro rpc_step.answered) simp
    then show ?thesis by (rule rpc_reach.step [OF rpc_reach.refl])
  qed
  let ?m = "bytes32 host (params req)"
  have "line_up env s1" using assms(4) by (simp add: s1_def line_up_def)
  note sent = sent_up [OF this _ short, of cl host]
  define s2 where "s2 = s1\<lparr>rpc_client := Some cl, caller := Sent, tasks := [(?m, Some RpcDelete)]\<rparr>"
  have s2: "rpc_step env host False s1 s2"
    using rpc_step.send [of s1 req cl env host cl "Some (?m, Some RpcDelete)"] sent assms(2) cl empty(1)
    by (simp add: s1_def s2_def)
  define s3 where "s3 = s2\<lparr>mutex := None, caller := Asleep, notified := False\<rparr>"
  have s3: "rpc_step env host False s2 s3"
    unfolding s3_def by (rule rpc_step.wait) (simp_all add: s2_def s1_def ctrl_result_def \<open>\<not> ready (ctrl s)\<close>)
  have "line_up env s3" using assms(4) cl by (simp add: s3_def s2_def s1_def line_up_def)
  from task_taken [OF this, of cl ?m "map_option ClientWrite (Some RpcDelete)" "cl_world (rpc_tcp cl)"] obtain w where
    w: "writeInLoop_task (cl_uv env) ?m (map_option ClientWrite (Some RpcDelete)) (connection (rpc_tcp cl))
      (cl_world (rpc_tcp cl)) = Some (w, [], Some (map_option ClientWrite (Some RpcDelete), ?m))"
    by (auto simp: s3_def s2_def)
  have "length ?m \<noteq> 0" using assms(3) by simp
  then have "?m \<noteq> []" by blast
  define s4 where "s4 = s3\<lparr>tasks := [], rpc_client := Some (cl\<lparr>rpc_tcp := (rpc_tcp cl)\<lparr>cl_world := w\<rparr>\<rparr>),
    wire_out := wire_out s3 @ on_wire (Some (map_option ClientWrite (Some RpcDelete), ?m))\<rparr>"
  have s4: "rpc_step env host False s3 s4"
    unfolding s4_def by (rule rpc_step.run_task [OF _ _ _ w]) (simp_all add: s3_def s2_def s1_def)
  have "rpc_reach env host s s4"
    using rpc_reach.step [OF rpc_reach.step [OF rpc_reach.step [OF s1 s2] s3] s4] .
  then show ?thesis
    using \<open>?m \<noteq> []\<close> empty resp \<open>\<not> ready (ctrl s)\<close>
    by (intro exI [of _ s4] exI [of _ "cl\<lparr>rpc_tcp := (rpc_tcp cl)\<lparr>cl_world := w\<rparr>\<rparr>"])
      (simp add: s4_def s3_def s2_def s1_def del: concat_eq_Nil_conv)
qed

text \<open>A response on its way to a caller that waits is what the call returns.\<close>

lemma response_returned:
  assumes "caller s = Asleep" and "mutex s = None" and "backpc s = Looping" and "rpc_client s = Some cl"
    and "rpc_onResp cl = Some ()" and "wire_in s = PackNum host (param r) # ds"
  shows "\<exists>s'. rpc_reach env host s s' \<and> caller s' = Returned r \<and> fragmented s' = fragmented s"
proof -
  define s1 where "s1 = s\<lparr>wire_in := ds, backpc := Answering [r]\<rparr>"
  have "rpc_step env host False s s1"
    using rpc_step.receive [OF assms(3,6,4) client_out [OF assms(5)]] by (simp add: s1_def)
  then have r1: "rpc_reach env host s s1" by (rule rpc_reach.step [OF rpc_reach.refl])
  define s2 where "s2 = s1\<lparr>ctrl := ctrl_onResp r (ctrl s1), backpc := Answering [], notified := True\<rparr>"
  have "rpc_step env host False s1 s2"
    using rpc_step.onResp [of s1 r "[]" env host] assms(1,2) by (simp add: s2_def s1_def)
  with r1 have r2: "rpc_reach env host s s2" by (rule rpc_reach.step)
  define s3 where "s3 = s2\<lparr>mutex := Some Caller, caller := Sent, notified := False\<rparr>"
  have "rpc_step env host False s2 s3"
    unfolding s3_def by (rule rpc_step.wake) (simp_all add: s2_def s1_def assms(1,2))
  with r2 have r3: "rpc_reach env host s s3" by (rule rpc_reach.step)
  have "rpc_step env host False s3 (s3\<lparr>mutex := None, caller := Returned r\<rparr>)"
    by (rule rpc_step.return) (simp_all add: s3_def s2_def ctrl_result_def ctrl_onResp_def)
  with r3 have "rpc_reach env host s (s3\<lparr>mutex := None, caller := Returned r\<rparr>)" by (rule rpc_reach.step)
  then show ?thesis by (intro exI [of _ "s3\<lparr>mutex := None, caller := Returned r\<rparr>"]) (simp add: s3_def s2_def s1_def)
qed

text \<open>The protocol has no framing, and TCP may cut what is written: for every request and every place inside
  it there is a run on a connection that stays up in which the request is cut there. When the place is
  between two parameters, \<open>sum\<close> returns the sum of the parameters before it; when it is inside a
  parameter, neither piece is answered, and the caller waits for ever, whatever happens afterwards.\<close>

theorem rpc_sum_cut:
  assumes "rpc_reach env host (RpcSys_init c) s" and "\<not> fragmented s" and "caller s = Called req"
    and "line_up env s" and "0 < k" and "k < 4 * length (params req)"
  shows "\<exists>s'. rpc_reach env host s s' \<and> (if k mod 4 = 0
    then \<exists>r. caller s' = Returned r \<and> sint (param r) = sum_list (map sint (take (k div 4) (params req)))
    else \<forall>s''. rpc_reach env host s' s'' \<longrightarrow> caller s'' \<in> {Sent, Asleep})"
proof -
  have inv: "rpc_inv host s" by (rule rpc_reach_inv [OF assms(1) rpc_inv_init assms(2)])
  with assms(3) have short: "length (params req) < 2 ^ 29" by (auto simp: rpc_inv_def caller_ok_def flight_ok_def)
  let ?ps = "params req" let ?m = "bytes32 host ?ps"
  have "?ps \<noteq> []" using assms(6) by auto
  from request_on_wire [OF inv assms(3) this assms(4)] obtain s1 cl where s1: "rpc_reach env host s s1"
    "caller s1 = Asleep" "mutex s1 = None" "backpc s1 = Looping" "tasks s1 = []" "wire_out s1 = [?m]" "wire_in s1 = []"
    "\<not> ready (ctrl s1)" "rpc_client s1 = Some cl" "rpc_onResp cl = Some ()" by blast
  define a b where "a = take k ?m" and "b = drop k ?m"
  have ab: "a @ b = ?m" and len: "length a = k" "length b = 4 * length ?ps - k"
    using assms(6) by (simp_all add: a_def b_def)
  have "k < 2 ^ 31" "4 * length ?ps - k < 2 ^ 31" "4 * length ?ps - k \<noteq> 0" using short assms(6) by simp_all
  with len assms(5) have pieces: "a \<noteq> []" "b \<noteq> []" "length a < 2 ^ 31" "length b < 2 ^ 31" by auto
  define s2 where "s2 = s1\<lparr>wire_out := [a, b], wire_in := [], fragmented := True\<rparr>"
  have "rpc_step env host True s1 s2"
    unfolding s2_def
  proof (rule rpc_step.segment)
    show "concat [a, b] = concat (wire_out s1)" unfolding s1(6) using ab by simp
    show "\<forall>m\<in>set ([a, b] @ []). m \<noteq> [] \<and> length m < 2 ^ 31" using pieces by simp
    show "([a, b], []) \<noteq> (wire_out s1, wire_in s1)" unfolding s1(6) by simp
  qed (simp add: s1(7))
  with s1(1) have r2: "rpc_reach env host s s2" by (rule rpc_reach.step)
  define s3 where "s3 = s2\<lparr>wire_out := [b], wire_in := rpc_answer host a\<rparr>"
  have "rpc_step env host False s2 s3"
    using rpc_step.serve [of s2 a "[b]" env host] by (simp add: s3_def s2_def)
  with r2 have r3: "rpc_reach env host s s3" by (rule rpc_reach.step)
  show ?thesis
  proof (cases "k mod 4 = 0")
    case True
    then obtain n where n: "k = 4 * n" by auto
    let ?r = "rpc_sum \<lparr>params = take n ?ps\<rparr> \<lparr>param = 0\<rparr>"
    have "n < length ?ps" using assms(6) n by simp
    then have "a = bytes32 host (take n ?ps)"
      unfolding a_def bytes32_split [of host ?ps n] n by simp
    then have "rpc_answer host a = [PackNum host (param ?r)]"
      using rpc_answer_even [of "take n ?ps" host] short by simp
    with s1 have "\<exists>s'. rpc_reach env host s3 s' \<and> caller s' = Returned ?r \<and> fragmented s' = fragmented s3"
      by (intro response_returned) (simp_all add: s3_def s2_def)
    then obtain s' where "rpc_reach env host s3 s'" "caller s' = Returned ?r" by blast
    moreover have "sint (param ?r) = sum_list (map sint (take n ?ps))"
      using rpc_sum_exact [of "\<lparr>params = take n ?ps\<rparr>" "\<lparr>param = 0\<rparr>"] short by simp
    moreover have "k div 4 = n" using n by simp
    ultimately have "rpc_reach env host s s' \<and> (\<exists>r. caller s' = Returned r
        \<and> sint (param r) = sum_list (map sint (take (k div 4) ?ps)))" using rpc_reach_trans [OF _ r3] by blast
    then show ?thesis unfolding True by (simp only: simp_thms if_True) blast
  next
    case False
    have "(4 * length ?ps - k) mod 4 \<noteq> 0" using assms(6) False by presburger
    with len False short assms(6) have odd: "rpc_answer host a = []" "rpc_answer host b = []"
      by (simp_all add: rpc_answer_odd)
    define s4 where "s4 = s3\<lparr>wire_out := [], wire_in := []\<rparr>"
    have "rpc_step env host False s3 s4"
      using rpc_step.serve [of s3 b "[]" env host] odd by (simp add: s4_def s3_def)
    with r3 have r4: "rpc_reach env host s s4" by (rule rpc_reach.step)
    have "starved s4"
      using s1(2-5,8) by (simp add: s4_def s3_def s2_def starved_def answering_def)
    then have "\<forall>s''. rpc_reach env host s4 s'' \<longrightarrow> caller s'' \<in> {Sent, Asleep}" using starved_reach by blast
    with r4 False show ?thesis by (intro exI [of _ s4]) (simp only: if_False)
  qed
qed

text \<open>A request without parameters has no bytes: nothing arrives at the server, and the caller waits for ever.\<close>

theorem rpc_empty_waits:
  assumes "rpc_reach env host (RpcSys_init c) s" and "\<not> fragmented s" and "caller s = Called req" and "params req = []"
    and "rpc_step env host b s s1" and "caller s1 = Sent" and "rpc_reach env host s1 s'"
  shows "caller s' \<in> {Sent, Asleep}"
proof -
  have "rpc_inv host s" by (rule rpc_reach_inv [OF assms(1) rpc_inv_init assms(2)])
  with assms(3) have "in_flight s = 0" by (auto simp: rpc_inv_def caller_ok_def)
  with assms(5,3,4,6) have "starved s1"
  proof (induction rule: rpc_step.induct)
    case (send s req' cl cl' task)
    from sent_task [OF send.hyps(3)] send have "task = None \<or> task = Some ([], Some RpcDelete)" by simp
    with send show ?case by (auto simp: starved_def in_flight_def answering_def split: BackPc.splits if_splits)
  qed simp_all
  with starved_reach [OF assms(7)] show ?thesis .
qed

section \<open>Examples\<close>

text \<open>The threads run until nobody can go on.\<close>

lemma rpc_maximal_run:
  assumes "rpc_inv host s" and "line_up env s" and "sum_under_way s" and "\<not> fragmented s"
  shows "\<exists>k s'. (rpc_step env host False ^^ k) s s' \<and> (\<nexists>s''. rpc_step env host False s' s'')"
  using assms
proof (induction "rpc_measure s" arbitrary: s rule: less_induct)
  case less
  show ?case
  proof (cases "\<exists>s1. rpc_step env host False s s1")
    case True
    then obtain s1 where s1: "rpc_step env host False s s1" by blast
    with rpc_progress_step [OF s1 less.prems(1-3)] rpc_step_inv [OF s1 less.prems(1)] less.prems(4) less.hyps [of s1]
    obtain k s' where "(rpc_step env host False ^^ k) s1 s'" "\<nexists>s''. rpc_step env host False s' s''" by blast
    with s1 show ?thesis by (meson relpowp_Suc_I2)
  next
    case False
    then show ?thesis by (intro exI [of _ 0] exI [of _ s]) simp
  qed
qed

abbreviation rpc_example_sys :: "Sim RpcSys" where
  "rpc_example_sys \<equiv> RpcSys_init \<lparr>ctrl_resp = \<lparr>param = 0\<rparr>, ready = False\<rparr>"

definition rpc_example_cl :: "(unit, Sim) RpcClient" where
  "rpc_example_cl = backRun rpc_example_clenv 3 sim_addr True sim_init"

definition rpc_example_up :: "(unit, Sim) RpcClient" where
  "rpc_example_up = rpc_example_cl\<lparr>rpc_tcp := (rpc_tcp rpc_example_cl)\<lparr>connection := Some rpc_example_conn\<rparr>\<rparr>"

text \<open>\<open>main\<close> asks for the sum of 1 to 100.\<close>

fun push_params :: "nat \<Rightarrow> nat \<Rightarrow> Req \<Rightarrow> Req" where
  "push_params 0 i req = req"
| "push_params (Suc n) i req = push_params n (i + 1) (req\<lparr>params := params req @ [word_of_nat i]\<rparr>)"

definition main_req :: Req where
  "main_req = push_params 100 1 \<lparr>params = []\<rparr>"

lemma main_req: "params main_req \<noteq> []" "length (params main_req) = 100" "sum_list (map sint (params main_req)) = 5050"
  by code_simp+

text \<open>The client is up, and is asked for a sum; or it is asked before it is up.\<close>

lemma rpc_example_called:
  "\<exists>s. rpc_reach rpc_example_clenv LittleEndian rpc_example_sys s \<and> caller s = Called main_req
    \<and> line_up rpc_example_clenv s \<and> \<not> fragmented s"
proof -
  let ?R = "rpc_reach rpc_example_clenv LittleEndian rpc_example_sys" and ?req = main_req
  let ?s1 = "rpc_example_sys\<lparr>rpc_client := Some rpc_example_cl, backpc := Looping\<rparr>"
  let ?s2 = "?s1\<lparr>rpc_client := Some rpc_example_up, wire_out := [], wire_in := []\<rparr>"
  let ?s3 = "?s2\<lparr>mutex := Some Caller, ctrl := ctrl_start (ctrl ?s2), caller := Called ?req, asked := ?req\<rparr>"
  have conn: "connected (rpc_example_conn :: RpcBind ClientCb TcpConnection)"
    by (simp add: rpc_example_conn_def TcpConnection_new_def)
  have "?R ?s1" unfolding rpc_example_cl_def
    by (rule rpc_reach.step [OF rpc_reach.refl rpc_step.start]) (simp add: RpcSys_init_def)
  then have "?R ?s2" unfolding rpc_example_up_def
    by (rule rpc_reach.step [OF _ rpc_step.connect]) (use conn in simp_all)
  then have "?R ?s3" by (rule rpc_reach.step [OF _ rpc_step.call]) (simp_all add: RpcSys_init_def main_req)
  moreover have "line_up rpc_example_clenv ?s3"
    using conn by (simp add: line_up_def rpc_example_up_def rpc_example_clenv_def sim_uv_def)
  ultimately show ?thesis by (intro exI [of _ ?s3]) (simp add: RpcSys_init_def)
qed

theorem rpc_sum_returns_witness:
  "\<exists>s s' r k. rpc_reach rpc_example_clenv LittleEndian rpc_example_sys s
     \<and> (rpc_step rpc_example_clenv LittleEndian False ^^ k) s s' \<and> caller s' = Returned r \<and> sint (param r) = 5050"
proof -
  from rpc_example_called obtain s where s: "rpc_reach rpc_example_clenv LittleEndian rpc_example_sys s"
    "caller s = Called main_req" "line_up rpc_example_clenv s" "\<not> fragmented s" by blast
  have inv: "rpc_inv LittleEndian s" by (rule rpc_reach_inv [OF s(1) rpc_inv_init s(4)])
  then have "sum_under_way s" using s(2) main_req(1) by (simp add: sum_under_way_def rpc_inv_def caller_ok_def)
  with inv s obtain k s' where run: "(rpc_step rpc_example_clenv LittleEndian False ^^ k) s s'"
    "\<nexists>s''. rpc_step rpc_example_clenv LittleEndian False s' s''"
    using rpc_maximal_run by blast
  from rpc_sum_returns [OF s(1,4,2) main_req(1) s(3) run(1)] run(2) main_req(3) s(1) run(1) show ?thesis by auto
qed

lemma relpowp_reach: "(rpc_step env host False ^^ k) s s' \<Longrightarrow> rpc_reach env host s0 s \<Longrightarrow> rpc_reach env host s0 s'"
  by (induction k arbitrary: s') (auto intro: rpc_reach.step)

theorem rpc_sum_correct_witness:
  "\<exists>s r. rpc_reach rpc_example_clenv LittleEndian rpc_example_sys s \<and> caller s = Returned r
     \<and> sint (param r) = sum_list (map sint (params (asked s)))"
proof -
  from rpc_example_called obtain s where s: "rpc_reach rpc_example_clenv LittleEndian rpc_example_sys s"
    "caller s = Called main_req" "line_up rpc_example_clenv s" "\<not> fragmented s" by blast
  have inv: "rpc_inv LittleEndian s" by (rule rpc_reach_inv [OF s(1) rpc_inv_init s(4)])
  then have way: "sum_under_way s" using s(2) main_req(1) by (simp add: sum_under_way_def rpc_inv_def caller_ok_def)
  with inv s obtain k s' where run: "(rpc_step rpc_example_clenv LittleEndian False ^^ k) s s'"
    "\<nexists>s''. rpc_step rpc_example_clenv LittleEndian False s' s''"
    using rpc_maximal_run by blast
  note end_ok = rpc_progress_run [OF run(1) inv s(3) way s(4)]
  with rpc_progress run(2) obtain r where "caller s' = Returned r" by blast
  with relpowp_reach [OF run(1) s(1)] rpc_sum_correct end_ok show ?thesis by blast
qed

text \<open>The request of \<open>main\<close> is cut after its fifty first numbers: \<open>sum\<close> returns 1275 instead of 5050.\<close>

theorem rpc_sum_cut_witness:
  "\<exists>s r. rpc_reach rpc_example_clenv LittleEndian rpc_example_sys s \<and> caller s = Returned r \<and> sint (param r) = 1275"
proof -
  from rpc_example_called obtain s where s: "rpc_reach rpc_example_clenv LittleEndian rpc_example_sys s"
    "caller s = Called main_req" "line_up rpc_example_clenv s" "\<not> fragmented s" by blast
  have k: "0 < (200 :: nat)" "200 < 4 * length (params main_req)" by (simp_all add: main_req)
  have sum: "sum_list (map sint (take 50 (params main_req))) = 1275" by code_simp
  have div: "(200 :: nat) mod 4 = 0" "(200 :: nat) div 4 = 50" by simp_all
  from rpc_sum_cut [OF s(1,4,2,3) k, unfolded div sum] obtain s' r where
    "rpc_reach rpc_example_clenv LittleEndian s s'" "caller s' = Returned r" "sint (param r) = 1275" by auto
  with rpc_reach_trans [OF _ s(1)] show ?thesis by blast
qed

theorem rpc_sum_waits_witness:
  "\<exists>s. rpc_reach rpc_example_clenv LittleEndian rpc_example_sys s
     \<and> (\<forall>s'. rpc_reach rpc_example_clenv LittleEndian s s' \<longrightarrow> caller s' \<in> {Sent, Asleep})"
proof -
  let ?R = "rpc_reach rpc_example_clenv LittleEndian rpc_example_sys" and ?req = "\<lparr>params = [1]\<rparr> :: Req"
  let ?s1 = "rpc_example_sys\<lparr>rpc_client := Some rpc_example_cl, backpc := Looping\<rparr>"
  let ?s2 = "?s1\<lparr>mutex := Some Caller, ctrl := ctrl_start (ctrl ?s1), caller := Called ?req, asked := ?req\<rparr>"
  have "?R ?s1" unfolding rpc_example_cl_def
    by (rule rpc_reach.step [OF rpc_reach.refl rpc_step.start]) (simp add: RpcSys_init_def)
  then have s2: "?R ?s2" by (rule rpc_reach.step [OF _ rpc_step.call]) (simp_all add: RpcSys_init_def)
  have down: "connection (rpc_tcp rpc_example_cl) = None"
    by (simp add: rpc_example_cl_def backRun_def RpcClient_new_def rpc_setOnResp_def cl_connect_def
        update_socket_def TcpClient_new_def setConnectStatusCallback_def cl_setMessageCallback_def Let_def)
  have "packed LittleEndian ?req = Some (bytes32 LittleEndian (params ?req))" by (rule packed_bytes) simp
  with down obtain cl' where sent: "cl_sendProtocol rpc_example_clenv LittleEndian ?req rpc_example_cl = Some (cl', None)"
    by (simp add: cl_sendProtocol_def cl_writeInLoop_def call_user_def rpc_example_clenv_def)
  let ?s3 = "?s2\<lparr>rpc_client := Some cl', caller := Sent, tasks := tasks ?s2 @ []\<rparr>"
  have "rpc_step rpc_example_clenv LittleEndian False ?s2 ?s3"
    using rpc_step.send [of ?s2 ?req rpc_example_cl rpc_example_clenv LittleEndian cl' None] sent by simp
  moreover have "caller ?s3 = Sent" "\<not> fragmented ?s3" by (simp_all add: RpcSys_init_def)
  ultimately obtain s3 where s3: "rpc_step rpc_example_clenv LittleEndian False ?s2 s3" "caller s3 = Sent" "\<not> fragmented s3"
    by blast
  have "rpc_reach rpc_example_clenv LittleEndian s3 s' \<Longrightarrow> caller s' \<in> {Sent, Asleep}" for s'
    using rpc_sum_waits [OF s2 s3(1)] s3(2,3) down by auto
  with rpc_reach.step [OF s2 s3(1)] show ?thesis by blast
qed

end
