(* ===== verification/AllExample.thy ===== *)
theory AllExample
  imports EchoClients UdpDns
begin

text \<open>
  The example that uses every class (\<open>examples/all_example\<close>): its echo server, which also prints what it
  gets, its client, and the callbacks of \<open>main.cpp\<close>: the datagrams that are sent back, the two timers,
  the log interface and the message that another thread hands over. What is printed is a list of lines.
\<close>

section \<open>The echo server\<close>

text \<open>\<open>std::cout << packet.getData ()\<close> prints up to the first zero of the string that holds the packet.\<close>

definition c_str :: "uint8 list \<Rightarrow> string" where
  "c_str bs = string_of (takeWhile (\<lambda>b. b \<noteq> 0) bs)"

definition ae_round ::
  "PacketStatics \<Rightarrow> 'b PacketBuffer \<Rightarrow> 'b \<times> Packet \<times> uint8 list list \<times> string list \<Rightarrow>
    ('b \<times> Packet \<times> uint8 list list \<times> string list + 'b \<times> uint8 list list \<times> string list) option"
where
  "ae_round st ops = (\<lambda>(b, packet, out, lines).
     do {
       (r, b, packet) \<leftarrow> readFromBuffer st ops b packet;
       if r = 0
       then
         let line = ''receive data '' @ std_to_string (int (unat (DataSize packet))) @ '':''
           @ c_str (drop 3 (Buffer packet))
         in Some (Inl (b, packet, out @ [Buffer packet], lines @ [line]))
       else Some (Inr (b, out, lines))
     })"

definition ae_newMessage ::
  "BufferMode \<Rightarrow> PacketStatics \<Rightarrow> 'b PacketBuffer \<Rightarrow> 'b option \<Rightarrow> uint8 list \<Rightarrow>
    ('b option \<times> uint8 list list \<times> string list) option"
where
  "ae_newMessage mode st ops packetbuf buf =
     (if mode = NoBuffer then Some (packetbuf, [buf], [''receive data :'' @ string_of buf])
      else
        (case packetbuf of
           None \<Rightarrow> Some (None, [], [])
         | Some b \<Rightarrow>
             do {
               b \<leftarrow> append_received ops buf b;
               (b, out, lines) \<leftarrow> endless (ae_round st ops) (b, Packet_init, [], []);
               Some (Some b, out, lines)
             }))"

fun loop_state :: "'b \<times> Packet \<times> uint8 list list \<times> string list \<Rightarrow> 'b \<times> Packet \<times> uint8 list list" where
  "loop_state (b, packet, out, lines) = (b, packet, out)"

fun loop_result :: "'b \<times> uint8 list list \<times> string list \<Rightarrow> 'b \<times> uint8 list list" where
  "loop_result (b, out, lines) = (b, out)"

lemma ae_round_eq:
  "map_option (map_sum loop_state loop_result) (ae_round st ops x) = newMessage_round st ops (loop_state x)"
  by (cases x) (auto simp: ae_round_def newMessage_round_def Let_def split: Option.bind_split prod.split)

lemma ae_loop_eq:
  "map_option loop_result (endless (ae_round st ops) (b, Packet_init, [], []))
    = endless (newMessage_round st ops) (b, Packet_init, [])"
  using endless_projection [where f = "ae_round st ops" and f' = "newMessage_round st ops",
      OF ae_round_eq, where x = "(b, Packet_init, [], [])"] by simp

lemma ae_newMessage_eq:
  "map_option loop_result (ae_newMessage mode st ops pb buf)
    = map_option (\<lambda>(pb, out, server). (pb, out)) (newMessage mode st ops pb buf server)"
proof (cases "mode = NoBuffer \<or> pb = None")
  case False
  then obtain b where "pb = Some b" by auto
  with False show ?thesis
    by (cases "append_received ops buf b"; cases "endless (ae_round st ops) (the (append_received ops buf b), Packet_init, [], [])")
      (auto simp: ae_newMessage_def newMessage_def simp flip: ae_loop_eq)
qed (auto simp: ae_newMessage_def newMessage_def)

text \<open>The handler called once for every piece that arrives.\<close>

fun ae_newMessages ::
  "BufferMode \<Rightarrow> PacketStatics \<Rightarrow> 'b PacketBuffer \<Rightarrow> 'b option \<Rightarrow> uint8 list list \<Rightarrow>
    ('b option \<times> uint8 list list \<times> string list) option"
where
  "ae_newMessages mode st ops pb [] = Some (pb, [], [])"
| "ae_newMessages mode st ops pb (c # cs) =
     do {
       (pb, out, lines) \<leftarrow> ae_newMessage mode st ops pb c;
       (pb, outs, lines') \<leftarrow> ae_newMessages mode st ops pb cs;
       Some (pb, out @ outs, lines @ lines')
     }"

lemma ae_newMessages_eq:
  "map_option loop_result (ae_newMessages mode st ops pb cs)
    = map_option (\<lambda>(pb, out, server). (pb, out)) (newMessages mode st ops pb cs server)"
proof (induction cs arbitrary: pb server)
  case (Cons c cs)
  show ?case
  proof (cases "ae_newMessage mode st ops pb c")
    case None
    with ae_newMessage_eq [of mode st ops pb c server] show ?thesis by simp
  next
    case (Some x)
    then obtain pb' out lines server' where
      "ae_newMessage mode st ops pb c = Some (pb', out, lines)" "newMessage mode st ops pb c server = Some (pb', out, server')"
      using ae_newMessage_eq [of mode st ops pb c server] by (cases x) (auto simp: map_option_case split: option.splits)
    with Cons.IH [of pb' server'] show ?thesis
      by (cases "ae_newMessages mode st ops pb' cs"; cases "newMessages mode st ops pb' cs server'") auto
  qed
qed simp

section \<open>The client\<close>

text \<open>The class of \<open>Clinet.hpp\<close>; a \<open>new\<close> gets its handle as an argument.\<close>

definition ae_reConnect :: "(ClientBind, 'w) ClientEnv \<Rightarrow> handle \<Rightarrow> 'w EchoClient \<Rightarrow> 'w EchoClient" where
  "ae_reConnect env th c =
     (case Timer_new (cl_uv env) th 500 0 (Some Reconnect) (cl_world (tcp c)) of
        (tm, w) \<Rightarrow> (case timer_start (cl_uv env) tm w of
           (tm, w) \<Rightarrow> c\<lparr>timers := tm # timers c, tcp := (tcp c)\<lparr>cl_world := w\<rparr>\<rparr>))"

definition ae_onConnect ::
  "(ClientBind, 'w) ClientEnv \<Rightarrow> PacketStatics \<Rightarrow> handle \<Rightarrow> ConnectStatus \<Rightarrow> 'w EchoClient \<Rightarrow> 'w EchoClient option"
where
  "ae_onConnect env st th cst c =
     (if cst \<noteq> OnConnectSuccess then Some (ae_reConnect env th c)
      else
        let data = bytes_of ''test message'' @ [0]
        in if cl_mode env = NoBuffer
           then map_option (\<lambda>(cl, _). c\<lparr>tcp := cl\<rparr>) (cl_write env data None (tcp c))
           else
             do {
               packet \<leftarrow> pack st data (word_of_nat (length data)) Packet_init;
               (cl, _) \<leftarrow> cl_write env (take (unat (PacketSize packet)) (Buffer packet)) None (tcp c);
               Some (c\<lparr>tcp := cl\<rparr>)
             })"

definition ae_client_newMessage :: "uint8 list \<Rightarrow> 'w EchoClient \<Rightarrow> 'w EchoClient option" where
  "ae_client_newMessage buf c = Some c"

text \<open>It is the client of \<open>EchoClients\<close> with other constants, so that it also always connects again.\<close>

lemma ae_client_eq:
  "ae_reConnect env th = reConnect env all_example_kind th"
  "ae_onConnect env st th cst = ec_onConnect env st all_example_kind th cst"
  "ae_client_newMessage buf = ec_newMessage env st all_example_kind buf"
  by (simp_all add: fun_eq_iff ae_reConnect_def reConnect_def ae_onConnect_def ec_onConnect_def
      sendTestMessage_def ae_client_newMessage_def ec_newMessage_def all_example_kind_def Let_def)

section \<open>Datagrams\<close>

text \<open>The message callbacks: the receiver prints and sends the data back, the sender prints.\<close>

definition ae_udpReceive ::
  "'w Libuv \<Rightarrow> 'cb Udp \<Rightarrow> SocketAddr \<Rightarrow> uint8 list \<Rightarrow> 'w \<Rightarrow> string list \<times> int \<times> 'w"
where
  "ae_udpReceive uv u peer data w =
     ([''udp receive message from '' @ toStr peer @ '' :'' @ string_of data], udp_send uv peer data u w)"

definition ae_udpSend :: "SocketAddr \<Rightarrow> uint8 list \<Rightarrow> string list" where
  "ae_udpSend peer data = [''udp call message :'' @ string_of data]"

text \<open>What \<open>main\<close> sends at the start, with the terminating zero, and where to.\<close>

definition ae_udpmsg :: "uint8 list" where
  "ae_udpmsg = bytes_of ''udp test...'' @ [0]"

definition ae_addr3 :: "Inet \<Rightarrow> SocketAddr" where
  "ae_addr3 inet = SocketAddr_new inet ''127.0.0.1'' 10003 Ipv4"

definition ae_addr4 :: "Inet \<Rightarrow> SocketAddr" where
  "ae_addr4 inet = SocketAddr_new inet ''127.0.0.1'' 10004 Ipv4"

definition ae_udp_start :: "'w Libuv \<Rightarrow> Inet \<Rightarrow> unit Udp \<Rightarrow> 'w \<Rightarrow> int \<times> 'w" where
  "ae_udp_start uv inet udpSend w = udp_send uv (ae_addr3 inet) ae_udpmsg udpSend w"

text \<open>A socket of \<open>main\<close>: made, given its callback and bound.\<close>

definition ae_socket :: "'w Libuv \<Rightarrow> handle \<Rightarrow> SocketAddr \<Rightarrow> 'w \<Rightarrow> int \<times> unit Udp \<times> 'w" where
  "ae_socket uv h addr w =
     (case Udp_new uv h w of (u, w) \<Rightarrow> bindAndRead uv addr (udp_setMessageCallback (Some ()) u) w)"

text \<open>A datagram that arrives at the receiver: what it prints, and what it asks libuv to send.\<close>

definition ae_datagram ::
  "'w Libuv \<Rightarrow> Inet \<Rightarrow> int \<Rightarrow> uint8 list \<Rightarrow> Sockaddr \<Rightarrow> unit Udp \<Rightarrow> 'w \<Rightarrow> (string list \<times> int \<times> 'w) option"
where
  "ae_datagram uv inet nread buf sender u w =
     do {
       (calls, log) \<leftarrow> udp_onMesageReceive uv inet nread buf sender u;
       (case calls of
          (_, addr, data) # _ \<Rightarrow> Some (ae_udpReceive uv u addr data w)
        | [] \<Rightarrow> Some (log, 0, w))
     }"

section \<open>Timers and log\<close>

datatype MainTimer = PrintTick | PrintOnce | ReleaseTimer

fun main_timer_line :: "MainTimer \<Rightarrow> string list" where
  "main_timer_line PrintTick = [''timer callback test...'']"
| "main_timer_line PrintOnce = [''timer callback run onice.'']"
| "main_timer_line ReleaseTimer = [''release timer ptr.'']"

text \<open>The timer that runs once: its callback prints and closes it; when it is closed it is released.\<close>

definition once_new :: "'w Libuv \<Rightarrow> handle \<Rightarrow> 'w \<Rightarrow> MainTimer Timer \<times> 'w" where
  "once_new uv h w = (case Timer_new uv h 1000 0 (Some PrintOnce) w of (tm, w) \<Rightarrow> timer_start uv tm w)"

definition once_fired :: "'w Libuv \<Rightarrow> MainTimer Timer \<Rightarrow> 'w \<Rightarrow> (string list \<times> MainTimer Timer \<times> 'w) option" where
  "once_fired uv tm w =
     do {
       (tm', w, cbs) \<leftarrow> timer_close uv (Some ReleaseTimer) tm w;
       Some (concat (map main_timer_line (onTimeOut tm @ cbs)), tm', w)
     }"

definition tick_new :: "'w Libuv \<Rightarrow> handle \<Rightarrow> 'w \<Rightarrow> MainTimer Timer \<times> 'w" where
  "tick_new uv h w = (case Timer_new uv h 1000 1000 (Some PrintTick) w of (tm, w) \<Rightarrow> timer_start uv tm w)"

text \<open>The log interface that \<open>main\<close> registers, and its five messages.\<close>

fun main_log_line :: "LogWriter \<Rightarrow> LogOutput \<Rightarrow> string option" where
  "main_log_line l (ToCallback level info) = map_option (\<lambda>nm. nm @ '' :'' @ info) (getLevelName level l)"
| "main_log_line l (ToStdOut line) = Some line"

fun main_log_lines :: "LogWriter \<Rightarrow> LogOutput list \<Rightarrow> string list option" where
  "main_log_lines l [] = Some []"
| "main_log_lines l (x # xs) =
     do { line \<leftarrow> main_log_line l x; lines \<leftarrow> main_log_lines l xs; Some (line # lines) }"

definition main_log :: "string list option" where
  "main_log =
     do {
       let l = setLevel (level_int Debug) (registerInterface True LogWriter_init);
       a \<leftarrow> log_debug ''debug message'' l;
       b \<leftarrow> log_info ''info message'' l;
       c \<leftarrow> log_warn ''warn message'' l;
       d \<leftarrow> log_error ''error message'' l;
       e \<leftarrow> log_fatal ''fatal message'' l;
       main_log_lines l (a @ b @ c @ d @ e)
     }"

text \<open>The message of the other thread: \<open>sizeof (data)\<close> is the size of a pointer.\<close>

definition cross_write_data :: "nat \<Rightarrow> uint8 list option" where
  "cross_write_data sizeof_ptr = copy_from (bytes_of ''test'') 0 sizeof_ptr"

section \<open>Properties\<close>

text \<open>The echo server of this example answers like the one of the pingpang example, in every buffer
  mode, over either buffer and for any pieces, also where that one is undefined: the lines that it
  prints do not change what it writes.\<close>

theorem ae_server_echoes:
  "map_option loop_result (ae_newMessages mode st ops pb cs)
    = map_option (\<lambda>(pb, out, server). (pb, out)) (newMessages mode st ops pb cs server)"
  by (rule ae_newMessages_eq)

text \<open>A datagram comes back: what arrives at the receiving socket of this example is sent, unchanged and
  whole, to the address that it came from, and is printed with that address.\<close>

theorem udp_echo:
  assumes "ae_socket uv h (ae_addr3 inet) w0 = (0, u, w1)" and "0 < n" and "nat n \<le> length buf"
    and "sender = In4 bs p"
  shows "\<exists>peer. SocketAddr_of inet sender Ipv4 = Some peer \<and> Addr peer = sender
    \<and> ae_datagram uv inet n buf sender u w
        = Some ([''udp receive message from '' @ toStr peer @ '' :'' @ string_of (take (nat n) buf)],
            uv_udp_send uv h (take (nat n) buf) sender w)"
proof -
  have u: "udp_handle u = h" "udp_onMessageCb u = Some ()" "udp_ipv u = Some Ipv4"
    using assms(1)
    by (auto simp: ae_socket_def Udp_new_def bindAndRead_def udp_setMessageCallback_def ae_addr3_def
        SocketAddr_new_def Ipv_def Let_def split: prod.splits if_splits)
  with assms(2,4) show ?thesis
    by (simp add: ae_datagram_def udp_onMesageReceive_def udp_onMessage_def SocketAddr_of_def GetIpAndPort_def
        ae_udpReceive_def udp_send_def Addr_def)
qed

theorem udp_echo_witness:
  "\<exists>u w1 line. ae_socket sim_uv 6 (ae_addr3 sim_inet) sim_init = (0, u, w1)
     \<and> ae_datagram sim_uv sim_inet 12 (ae_udpmsg @ [9, 9]) (In4 [127, 0, 0, 1] 0x1427) u w1
         = Some ([line], uv_udp_send sim_uv 6 ae_udpmsg (In4 [127, 0, 0, 1] 0x1427) w1)"
proof -
  obtain u w1 where s: "ae_socket sim_uv 6 (ae_addr3 sim_inet) sim_init = (0, u, w1)"
    by (simp add: ae_socket_def Udp_new_def bindAndRead_def sim_uv_def Let_def)
  have "length ae_udpmsg = 12" by (simp add: ae_udpmsg_def)
  with udp_echo [OF s, of 12 "ae_udpmsg @ [9, 9]" "In4 [127, 0, 0, 1] 0x1427" "[127, 0, 0, 1]" "0x1427" w1] s
  show ?thesis by auto
qed

text \<open>
  The timer that runs once prints, is closed by its own callback and is released when libuv reports it
  closed. The log interface gets four of the five messages: a fatal one is never written. The message
  of the other thread reads past its array where a pointer has eight bytes.
\<close>

lemma once_timer:
  assumes "libuv uv" and "once_new uv h w = (tm, w1)"
  shows "\<exists>tm' w2. once_fired uv tm w1 = Some ([''timer callback run onice.''], tm', w2)
    \<and> uv_is_closing uv h w2 \<and> concat (map main_timer_line (timer_closed tm')) = [''release timer ptr.'']"
  using assms(2)
  by (auto simp: once_new_def once_fired_def Timer_new_def timer_start_def timer_close_def onTimeOut_def run_if_def
      timer_closed_def Let_def libuv.closing [OF assms(1)])

lemma main_log:
  "main_log = Some [''Debug :debug message'', ''Info :info message'', ''Warn :warn message'', ''Error :error message'']"
  by code_simp

lemma cross_write: "cross_write_data 8 = None" "cross_write_data 4 = Some (bytes_of ''test'')"
  by (simp_all add: cross_write_data_def copy_from_def)

end
