(* ===== verification/CrossThread.thy ===== *)
theory CrossThread
  imports EchoClients
begin

text \<open>
  The example \<open>examples/clients_cross_thread\<close>: one thread makes the clients and runs their loop, another
  waits on a condition variable until they are there and then, every second, hands each of them a
  message. The client's class, the step relation of the two threads, and what a tick of the timer does.
\<close>

section \<open>The client\<close>

definition ct_connectToServer ::
  "(ClientBind, 'w) ClientEnv \<Rightarrow> handle \<Rightarrow> SocketAddr \<Rightarrow> 'w EchoClient \<Rightarrow> 'w EchoClient"
where
  "ct_connectToServer env h addr c = c\<lparr>sockAddr := Some addr, tcp := cl_connect env h addr (tcp c)\<rparr>"

definition ct_reConnect :: "(ClientBind, 'w) ClientEnv \<Rightarrow> handle \<Rightarrow> 'w EchoClient \<Rightarrow> 'w EchoClient" where
  "ct_reConnect env th c =
     (case Timer_new (cl_uv env) th 500 0 (Some Reconnect) (cl_world (tcp c)) of
        (tm, w) \<Rightarrow> (case timer_start (cl_uv env) tm w of
           (tm, w) \<Rightarrow> c\<lparr>timers := tm # timers c, tcp := (tcp c)\<lparr>cl_world := w\<rparr>\<rparr>))"

definition ct_onConnect ::
  "(ClientBind, 'w) ClientEnv \<Rightarrow> PacketStatics \<Rightarrow> handle \<Rightarrow> ConnectStatus \<Rightarrow> 'w EchoClient \<Rightarrow> 'w EchoClient option"
where
  "ct_onConnect env st th status c =
     (if status \<noteq> OnConnectSuccess then Some (ct_reConnect env th c)
      else
        let data = bytes_of ''test message'' @ [0]
        in if cl_mode env = NoBuffer
           then map_option (\<lambda>(cl, _). c\<lparr>tcp := cl\<rparr>) (cl_write env data None (tcp c))
           else
             do {
               packet \<leftarrow> pack st data (word_of_nat (length data)) Packet_init;
               (cl, _) \<leftarrow> cl_write env (take (unat (PacketSize packet)) (Buffer packet)) None (tcp c);
               Some (c\<lparr>tcp := cl\<rparr>)
             })"

definition ct_newMessage ::
  "(ClientBind, 'w) ClientEnv \<Rightarrow> uint8 list \<Rightarrow> 'w EchoClient \<Rightarrow> 'w EchoClient option"
where
  "ct_newMessage env buf c = map_option (\<lambda>(cl, _). c\<lparr>tcp := cl\<rparr>) (cl_write env buf None (tcp c))"

text \<open>It is the client of \<open>EchoClients\<close> with other constants, so that it also always connects again.\<close>

lemma ct_client_eq:
  "ct_connectToServer env h addr = connectToServer env h addr"
  "ct_reConnect env th = reConnect env cross_thread_kind th"
  "ct_onConnect env st th status = ec_onConnect env st cross_thread_kind th status"
  "ct_newMessage env buf = ec_newMessage env st cross_thread_kind buf"
  by (simp_all add: fun_eq_iff ct_connectToServer_def connectToServer_def ct_reConnect_def reConnect_def
      ct_onConnect_def ec_onConnect_def sendTestMessage_def ct_newMessage_def ec_newMessage_def
      cross_thread_kind_def Let_def)

section \<open>The two threads\<close>

text \<open>\<open>Filled\<close> is after the mutex has been released and before \<open>notify_one\<close>; \<open>Testing\<close> is the test of the
  condition in \<open>wait\<close>, with the mutex held.\<close>

datatype MakerPc = MakerStart | Filling | Filled | MakerLoop

datatype WriterPc = WriterStart | Testing | Waiting | WriterLoop

datatype Thread = Maker | Writer

record 'w Clients =
  clients :: "'w EchoClient list"
  inited :: bool
  lock :: "Thread option"
  maker :: MakerPc
  writer :: WriterPc
  woken :: bool

definition Clients_init :: "'w Clients" where
  "Clients_init = \<lparr>clients = [], inited = False, lock = None, maker = MakerStart, writer = WriterStart, woken = False\<rparr>"

text \<open>The flag marks a spurious wake-up.\<close>

inductive ct_step ::
  "(ClientBind, 'w) ClientEnv \<Rightarrow> nat \<Rightarrow> SocketAddr \<Rightarrow> bool \<Rightarrow> 'w Clients \<Rightarrow> 'w Clients \<Rightarrow> bool"
  for env n addr
where
  make_lock: "maker s = MakerStart \<Longrightarrow> lock s = None \<Longrightarrow>
    ct_step env n addr False s (s\<lparr>lock := Some Maker, maker := Filling\<rparr>)"
| fill: "maker s = Filling \<Longrightarrow> length (clients s) < n \<Longrightarrow>
    ct_step env n addr False s
      (s\<lparr>clients := clients s @ [ct_connectToServer env h addr (EchoClient_new noDelay w)]\<rparr>)"
| filled: "maker s = Filling \<Longrightarrow> length (clients s) = n \<Longrightarrow>
    ct_step env n addr False s (s\<lparr>inited := True, lock := None, maker := Filled\<rparr>)"
| notify: "maker s = Filled \<Longrightarrow>
    ct_step env n addr False s (s\<lparr>maker := MakerLoop, woken := (woken s \<or> writer s = Waiting)\<rparr>)"
| write_lock: "writer s = WriterStart \<Longrightarrow> lock s = None \<Longrightarrow>
    ct_step env n addr False s (s\<lparr>lock := Some Writer, writer := Testing\<rparr>)"
| test_wait: "writer s = Testing \<Longrightarrow> \<not> inited s \<Longrightarrow>
    ct_step env n addr False s (s\<lparr>lock := None, writer := Waiting, woken := False\<rparr>)"
| test_go: "writer s = Testing \<Longrightarrow> inited s \<Longrightarrow>
    ct_step env n addr False s (s\<lparr>lock := None, writer := WriterLoop\<rparr>)"
| wake: "writer s = Waiting \<Longrightarrow> woken s \<Longrightarrow> lock s = None \<Longrightarrow>
    ct_step env n addr False s (s\<lparr>lock := Some Writer, writer := Testing, woken := False\<rparr>)"
| spurious: "writer s = Waiting \<Longrightarrow> \<not> woken s \<Longrightarrow> lock s = None \<Longrightarrow>
    ct_step env n addr True s (s\<lparr>lock := Some Writer, writer := Testing\<rparr>)"

inductive ct_reach ::
  "(ClientBind, 'w) ClientEnv \<Rightarrow> nat \<Rightarrow> SocketAddr \<Rightarrow> 'w Clients \<Rightarrow> bool" for env n addr where
  init: "ct_reach env n addr Clients_init"
| step: "ct_reach env n addr s \<Longrightarrow> ct_step env n addr b s s' \<Longrightarrow> ct_reach env n addr s'"

text \<open>The timer of the second thread: \<open>writeInLoop\<close> of every client, with its message and no callback.\<close>

definition ct_data :: "uint8 list" where
  "ct_data = bytes_of ''test'' @ [0]"

fun ct_tick ::
  "(ClientBind, 'w) ClientEnv \<Rightarrow> 'w EchoClient list \<Rightarrow>
    ('w EchoClient list \<times> (uint8 list \<times> ClientBind option) list) option"
where
  "ct_tick env [] = Some ([], [])"
| "ct_tick env (c # cs) =
     do {
       (cl, task) \<leftarrow> cl_writeInLoop env ct_data None (tcp c);
       (cs, tasks) \<leftarrow> ct_tick env cs;
       Some (c\<lparr>tcp := cl\<rparr> # cs, (case task of Some t \<Rightarrow> [t] | None \<Rightarrow> []) @ tasks)
     }"

section \<open>Invariant and progress\<close>

definition ct_inv :: "nat \<Rightarrow> SocketAddr \<Rightarrow> 'w Clients \<Rightarrow> bool" where
  "ct_inv n addr s \<longleftrightarrow>
     lock s = (if maker s = Filling then Some Maker else if writer s = Testing then Some Writer else None)
   \<and> \<not> (maker s = Filling \<and> writer s = Testing)
   \<and> (inited s \<longleftrightarrow> maker s \<in> {Filled, MakerLoop}) \<and> length (clients s) \<le> n
   \<and> (inited s \<longrightarrow> length (clients s) = n) \<and> (maker s = MakerStart \<longrightarrow> clients s = [])
   \<and> (writer s = WriterLoop \<longrightarrow> inited s) \<and> (writer s = Waiting \<and> maker s = MakerLoop \<longrightarrow> woken s)
   \<and> (\<forall>c\<in>set (clients s). sockAddr c = Some addr \<and> socket (tcp c) \<noteq> None)"

lemma ct_step_inv: "ct_step env n addr b s s' \<Longrightarrow> ct_inv n addr s \<Longrightarrow> ct_inv n addr s'"
  by (induction rule: ct_step.induct)
    (auto simp: ct_inv_def ct_connectToServer_def cl_connect_def update_socket_def Let_def split: if_splits)

lemma ct_reach_inv: "ct_reach env n addr s \<Longrightarrow> ct_inv n addr s"
proof (induction rule: ct_reach.induct)
  case init
  show ?case by (simp add: ct_inv_def Clients_init_def)
qed (rule ct_step_inv)

definition ct_measure :: "nat \<Rightarrow> 'w Clients \<Rightarrow> nat" where
  "ct_measure n s =
     (case maker s of MakerStart \<Rightarrow> n + 7 | Filling \<Rightarrow> n - length (clients s) + 6 | Filled \<Rightarrow> 5 | MakerLoop \<Rightarrow> 0)
     + (case writer s of WriterStart \<Rightarrow> 4 | Testing \<Rightarrow> 3 | Waiting \<Rightarrow> if woken s then 4 else 1 | WriterLoop \<Rightarrow> 0)"

lemma ct_step_measure:
  "ct_step env n addr False s s' \<Longrightarrow> ct_inv n addr s \<Longrightarrow> ct_measure n s' < ct_measure n s"
  by (induction "False" s s' rule: ct_step.induct)
    (auto simp: ct_inv_def ct_measure_def split: WriterPc.splits MakerPc.splits if_splits)

lemma ct_progress:
  assumes inv: "ct_inv n addr s" and "maker s \<noteq> MakerLoop \<or> writer s \<noteq> WriterLoop"
  shows "\<exists>s'. ct_step env n addr False s s'"
proof (cases "maker s")
  case MakerStart
  with inv show ?thesis
    using ct_step.make_lock [of s env n addr] ct_step.test_wait [of s env n addr]
    by (cases "writer s = Testing") (auto simp: ct_inv_def)
next
  case Filling
  with inv show ?thesis
    using ct_step.fill [OF Filling, of n env addr] ct_step.filled [OF Filling, of n env addr]
    by (cases "length (clients s) < n") (auto simp: ct_inv_def)
next
  case Filled
  from ct_step.notify [OF this] show ?thesis by blast
next
  case MakerLoop
  with inv have "inited s" "writer s \<noteq> Testing \<longrightarrow> lock s = None" "writer s = Waiting \<longrightarrow> woken s"
    by (auto simp: ct_inv_def)
  with assms(2) MakerLoop show ?thesis
    using ct_step.write_lock [of s env n addr] ct_step.test_go [of s env n addr] ct_step.wake [of s env n addr]
    by (cases "writer s") auto
qed

lemma ct_run:
  assumes "(ct_step env n addr False ^^ k) Clients_init s"
  shows "ct_reach env n addr s \<and> ct_measure n s + k \<le> n + 11"
  using assms
proof (induction k arbitrary: s)
  case 0
  then have s: "s = Clients_init" by simp
  then have "ct_measure n s = n + 11" by (simp add: ct_measure_def Clients_init_def)
  with ct_reach.init s show ?case by auto
next
  case (Suc k)
  then obtain r where "(ct_step env n addr False ^^ k) Clients_init r" and step: "ct_step env n addr False r s" by auto
  with Suc.IH have r: "ct_reach env n addr r" "ct_measure n r + k \<le> n + 11" by auto
  with ct_step_measure [OF step ct_reach_inv [OF r(1)]] ct_reach.step [OF r(1) step] show ?case by simp
qed

section \<open>Properties\<close>

text \<open>C27: the two threads of this example meet: whatever their timing and with spurious wake-ups, the second
  thread starts its loop only when all \<open>n\<close> clients exist and each has asked for its connection, and
  then the vector does not change any more; without spurious wake-ups both threads are in their loops
  after at most \<open>n + 11\<close> steps, the notification being lost in no interleaving.\<close>

theorem ct_handshake:
  assumes "ct_reach env n addr s"
  shows "(writer s = WriterLoop \<longrightarrow> length (clients s) = n
      \<and> (\<forall>c\<in>set (clients s). sockAddr c = Some addr \<and> socket (tcp c) \<noteq> None)
      \<and> (\<forall>b s'. ct_step env n addr b s s' \<longrightarrow> clients s' = clients s))
    \<and> (\<forall>k. (ct_step env n addr False ^^ k) Clients_init s \<longrightarrow> k \<le> n + 11)
    \<and> ((\<nexists>s'. ct_step env n addr False s s') \<longrightarrow> maker s = MakerLoop \<and> writer s = WriterLoop)"
proof -
  from ct_reach_inv [OF assms] have inv: "ct_inv n addr s" .
  have "clients s' = clients s" if "ct_step env n addr b s s'" "writer s = WriterLoop" for b s'
    using that inv by (induction rule: ct_step.induct) (auto simp: ct_inv_def)
  moreover have "writer s = WriterLoop \<Longrightarrow> length (clients s) = n
      \<and> (\<forall>c\<in>set (clients s). sockAddr c = Some addr \<and> socket (tcp c) \<noteq> None)"
    using inv by (auto simp: ct_inv_def)
  moreover have "k \<le> n + 11" if "(ct_step env n addr False ^^ k) Clients_init s" for k
    using ct_run [OF that] by simp
  ultimately show ?thesis using ct_progress [OF inv, of env] by blast
qed

text \<open>A tick of the second thread's timer hands its message over once for every client that has a
  connection, in the order of the vector, and for no other client, and changes no client.\<close>

theorem ct_tick_sends:
  "ct_tick env cs = Some (cs, replicate (length (filter (\<lambda>c. connection (tcp c) \<noteq> None) cs)) (ct_data, None))"
  by (induction cs) (auto simp: cl_writeInLoop_def split: option.split)

text \<open>
  A message that is handed over is lost with its connection, and worse: it has no callback, so that the
  function that the loop runs for a connection that has been replaced calls a null function.
\<close>

lemma ct_task_null: "writeInLoop_task u ct_data None None w = None"
  by (simp add: writeInLoop_task_def)

lemma ct_maximal_run:
  assumes "ct_reach env n addr s"
  shows "\<exists>s'. ct_reach env n addr s' \<and> (\<nexists>s''. ct_step env n addr False s' s'')"
  using assms
proof (induction "ct_measure n s" arbitrary: s rule: less_induct)
  case less
  show ?case
  proof (cases "\<exists>s1. ct_step env n addr False s s1")
    case True
    then obtain s1 where s1: "ct_step env n addr False s s1" by blast
    from less.hyps [OF ct_step_measure [OF s1 ct_reach_inv [OF less.prems]] ct_reach.step [OF less.prems s1]]
    show ?thesis .
  qed (use less.prems in blast)
qed

text \<open>The thousand clients of \<open>main\<close>.\<close>

theorem ct_handshake_witness:
  "\<exists>s. ct_reach sim_echo_env 1000 sim_addr s \<and> writer s = WriterLoop \<and> length (clients s) = 1000"
proof -
  from ct_maximal_run [OF ct_reach.init [of sim_echo_env 1000 sim_addr]] obtain s
    where "ct_reach sim_echo_env 1000 sim_addr s" "\<nexists>s'. ct_step sim_echo_env 1000 sim_addr False s s'" by blast
  with ct_handshake [OF this(1)] show ?thesis by blast
qed

end
