(* ===== verification/EchoExamples.thy ===== *)
theory EchoExamples
  imports TcpServer TcpClient
begin

text \<open>
  The callbacks of three small programs: the echo server that counts bytes (\<open>examples/echo_server\<close>), its
  client (\<open>examples/echo_client\<close>), and the first example (\<open>examples/helloworld\<close>); then the echo server and
  its client together. What is printed is a list of lines.
\<close>

section \<open>echo\_server\<close>

text \<open>The message callback counts the bytes and sends them back; the timer's prints and clears the count.\<close>

definition es_onMessage ::
  "('u, 'w) Env \<Rightarrow> nat \<Rightarrow> uint8 list \<Rightarrow> uint64 \<times> ('u, 'w) TcpServer \<Rightarrow> (uint64 \<times> ('u, 'w) TcpServer) option"
where
  "es_onMessage env i buf = (\<lambda>(dataSize, s).
     do {
       let dataSize = dataSize + word_of_nat (length buf);
       c \<leftarrow> objects s i;
       s \<leftarrow> write_to env i buf None c s;
       Some (dataSize, s)
     })"

definition es_onTimer :: "uint64 \<Rightarrow> string \<times> uint64" where
  "es_onTimer dataSize = (''send data:'' @ std_to_string (int (unat (drop_bit 10 dataSize))) @ '' kbyte/s'', 0)"

section \<open>echo\_client\<close>

text \<open>The second component of a result is what is printed or the request that libuv holds.\<close>

datatype StartBind = StartConnect | StartMessage

definition start_onConnect ::
  "(StartBind, 'w) ClientEnv \<Rightarrow> ConnectStatus \<Rightarrow> (StartBind, 'w) TcpClient \<Rightarrow>
    ((StartBind, 'w) TcpClient \<times> string list) option"
where
  "start_onConnect env status cl =
     (if status = OnConnectSuccess
      then map_option (\<lambda>(cl, _). (cl, [])) (cl_write env (resize 4096 (bytes_of ''hello world!'')) None cl)
      else Some (cl, [''Error : connect to server fail'']))"

definition start_onMessage ::
  "(StartBind, 'w) ClientEnv \<Rightarrow> uint8 list \<Rightarrow> (StartBind, 'w) TcpClient \<Rightarrow>
    ((StartBind, 'w) TcpClient \<times> (StartBind ClientCb option \<times> uint8 list) option) option"
where
  "start_onMessage env data cl = cl_write env data None cl"

text \<open>\<open>startClients\<close>: the sockets of the new clients are \<open>hs\<close>, one for each.\<close>

fun startClients ::
  "(StartBind, 'w) ClientEnv \<Rightarrow> SocketAddr \<Rightarrow> bool \<Rightarrow> handle list \<Rightarrow> (StartBind, 'w) TcpClient list \<Rightarrow> 'w \<Rightarrow>
    (StartBind, 'w) TcpClient list \<times> 'w"
where
  "startClients env addr noDelay [] clients w = (clients, w)"
| "startClients env addr noDelay (h # hs) clients w =
     (let cl = TcpClient_new noDelay w;
          cl = setConnectStatusCallback (Some StartConnect) cl;
          cl = cl_setMessageCallback (Some StartMessage) cl;
          cl = cl_connect env h addr cl
      in startClients env addr noDelay hs (clients @ [cl]) (cl_world cl))"

section \<open>helloworld\<close>

definition hw_onMessage ::
  "('u, 'w) Env \<Rightarrow> nat \<Rightarrow> uint8 list \<Rightarrow> ('u, 'w) TcpServer \<Rightarrow> (string list \<times> ('u, 'w) TcpServer) option"
where
  "hw_onMessage env i data s =
     do {
       c \<leftarrow> objects s i;
       s \<leftarrow> write_to env i data None c s;
       Some ([string_of data, ToHex ''hex :'' data], s)
     }"

definition hw_onConnect ::
  "('u, 'w) ClientEnv \<Rightarrow> ConnectStatus \<Rightarrow> ('u, 'w) TcpClient \<Rightarrow> (('u, 'w) TcpClient \<times> string list) option"
where
  "hw_onConnect env status cl =
     (if status = OnConnectSuccess
      then map_option (\<lambda>(cl, _). (cl, [])) (cl_write env (bytes_of ''hello world!'' @ [0]) None cl)
      else Some (cl, [''Error : connect to server fail'']))"

section \<open>Server and client together\<close>

fun es_pieces ::
  "('u, 'w) Env \<Rightarrow> nat \<Rightarrow> uint8 list list \<Rightarrow> uint64 \<times> ('u, 'w) TcpServer \<Rightarrow> (uint64 \<times> ('u, 'w) TcpServer) option"
where
  "es_pieces env i [] x = Some x"
| "es_pieces env i (p # ps) x = do { x \<leftarrow> es_onMessage env i p x; es_pieces env i ps x }"

fun start_pieces ::
  "(StartBind, 'w) ClientEnv \<Rightarrow> uint8 list list \<Rightarrow> (StartBind, 'w) TcpClient \<Rightarrow>
    ((StartBind, 'w) TcpClient \<times> uint8 list) option"
where
  "start_pieces env [] cl = Some (cl, [])"
| "start_pieces env (p # ps) cl =
     do {
       (cl, req) \<leftarrow> start_onMessage env p cl;
       (cl, out) \<leftarrow> start_pieces env ps cl;
       Some (cl, (case req of Some (_, d) \<Rightarrow> d | None \<Rightarrow> []) @ out)
     }"

text \<open>The bytes of the write requests that are new in a later state.\<close>

definition new_writes :: "('u, 'w) TcpServer \<Rightarrow> ('u, 'w) TcpServer \<Rightarrow> uint8 list" where
  "new_writes s s' = concat (map (snd \<circ> snd) (drop (length (pending s)) (pending s')))"

text \<open>Round trips: the server gets the bytes in pieces, and the client what the server writes.\<close>

fun echo_rounds ::
  "('u, 'w) Env \<Rightarrow> nat \<Rightarrow> (StartBind, 'v) ClientEnv \<Rightarrow> (uint8 list \<Rightarrow> uint8 list list) \<Rightarrow>
    (uint8 list \<Rightarrow> uint8 list list) \<Rightarrow> nat \<Rightarrow>
    uint64 \<times> ('u, 'w) TcpServer \<times> (StartBind, 'v) TcpClient \<times> uint8 list \<Rightarrow>
    (uint64 \<times> ('u, 'w) TcpServer \<times> (StartBind, 'v) TcpClient \<times> uint8 list) option"
where
  "echo_rounds senv i cenv up down 0 x = Some x"
| "echo_rounds senv i cenv up down (Suc k) (n, s, cl, xs) =
     do {
       (n, s') \<leftarrow> es_pieces senv i (up xs) (n, s);
       (cl, ys) \<leftarrow> start_pieces cenv (down (new_writes s s')) cl;
       echo_rounds senv i cenv up down k (n, s', cl, ys)
     }"

lemma write_to_up:
  assumes "connected c" and "\<forall>d w. fst (uv_write (uv env) (conn_handle c) d w) = 0"
  shows "\<exists>w. write_to env i buf None c s = Some (s\<lparr>world := w, pending := pending s @ [(i, None, buf)]\<rparr>)"
proof -
  obtain w where "uv_write (uv env) (conn_handle c) buf (world s) = (0, w)"
    using assms(2) by (metis prod.collapse)
  with assms(1) show ?thesis by (auto simp: write_to_def conn_write_def)
qed

lemma es_pieces_up:
  assumes "connected c" and "\<forall>d w. fst (uv_write (uv env) (conn_handle c) d w) = 0" and "objects s i = Some c"
  shows "\<exists>s'. es_pieces env i ps (n, s) = Some (n + word_of_nat (length (concat ps)), s')
    \<and> objects s' = objects s \<and> pending s' = pending s @ map (\<lambda>p. (i, None, p)) ps"
  using assms(3)
proof (induction ps arbitrary: n s)
  case (Cons p ps)
  obtain w where "write_to env i p None c s = Some (s\<lparr>world := w, pending := pending s @ [(i, None, p)]\<rparr>)"
    using write_to_up [OF assms(1,2)] by blast
  with Cons.IH [of "s\<lparr>world := w, pending := pending s @ [(i, None, p)]\<rparr>" "n + word_of_nat (length p)"] Cons.prems
  show ?case by (auto simp: es_onMessage_def add.assoc)
qed simp

lemma start_pieces_up:
  assumes "connected c" and "\<forall>d w. fst (uv_write (cl_uv env) (conn_handle c) d w) = 0" and "connection cl = Some c"
  shows "\<exists>cl'. start_pieces env ps cl = Some (cl', concat ps) \<and> connection cl' = Some c"
  using assms(3)
proof (induction ps arbitrary: cl)
  case (Cons p ps)
  obtain w where "uv_write (cl_uv env) (conn_handle c) p (cl_world cl) = (0, w)"
    using assms(2) by (metis prod.collapse)
  with Cons.IH [of "cl\<lparr>cl_world := w\<rparr>"] Cons.prems assms(1) show ?case
    by (auto simp: start_onMessage_def cl_write_def conn_write_def)
qed simp

section \<open>Properties\<close>


definition echo_env :: "(unit, Sim) Env" where
  "echo_env = \<lparr>uv = sim_uv, inet = sim_inet, buffer_mode = NoBuffer, cycle_size = 0, user = (\<lambda>f arg s. Some s)\<rparr>"

definition echo_cenv :: "(StartBind, Sim) ClientEnv" where
  "echo_cenv = \<lparr>cl_uv = sim_uv, cl_inet = sim_inet, cl_mode = NoBuffer, cl_cycle = 0, cl_user = (\<lambda>f arg s. Some s)\<rparr>"

definition echo_conn :: "'cb TcpConnection" where
  "echo_conn = fst (TcpConnection_new sim_uv NoBuffer 0 ''10.0.0.1:9'' 7 True sim_init)"


text \<open>The first example prints the message with its terminating zero, also in hexadecimal digits.\<close>

lemma hello_prints:
  assumes "hw_onMessage env i (bytes_of ''hello world!'' @ [0]) s = Some (lines, s')"
  shows "lines = [''hello world!'' @ [CHR 0x00],
    ''hex : 0x68  0x65  0x6c  0x6c  0x6f  0x20  0x77  0x6f  0x72  0x6c  0x64  0x21  0x0 '']"
proof -
  have "ToHex ''hex :'' (bytes_of ''hello world!'' @ [0])
      = ''hex : 0x68  0x65  0x6c  0x6c  0x6f  0x20  0x77  0x6f  0x72  0x6c  0x64  0x21  0x0 ''"
    "string_of (bytes_of ''hello world!'' @ [0]) = ''hello world!'' @ [CHR 0x00]" by code_simp+
  with assms show ?thesis by (auto simp: hw_onMessage_def split: Option.bind_splits)
qed

end
