(* ===== verification/ServerQuit.thy ===== *)
theory ServerQuit
  imports ServerRuns TcpClient
begin

text \<open>
  The example that starts and stops a server again and again (\<open>examples/server_quit/main.cpp\<close>): every
  two seconds a timer calls \<open>server_test\<close>, which either listens and lets five clients connect, or
  closes the server. The clients and the server share the loop, so they pass the world on.
\<close>

section \<open>The program\<close>

record ('u, 'c, 'w) QuitState =
  quit_status :: bool
  quit_server :: "('u, 'w) TcpServer"
  quit_clients :: "('c, 'w) TcpClient list"

text \<open>\<open>for (auto& client : clients)\<close>: every client connects, with a new socket.\<close>

fun connect_clients ::
  "('c, 'w) ClientEnv \<Rightarrow> SocketAddr \<Rightarrow> handle list \<Rightarrow> ('c, 'w) TcpClient list \<Rightarrow> 'w \<Rightarrow>
    ('c, 'w) TcpClient list \<times> 'w"
where
  "connect_clients env addr (h # hs) (c # cs) w =
     (let c = cl_connect env h addr (c\<lparr>cl_world := w\<rparr>)
      in case connect_clients env addr hs cs (cl_world c) of (cs, w) \<Rightarrow> (c # cs, w))"
| "connect_clients env addr _ cs w = (cs, w)"

definition server_test ::
  "('u, 'w) Env \<Rightarrow> ('c, 'w) ClientEnv \<Rightarrow> 'u \<Rightarrow> handle \<Rightarrow> handle list \<Rightarrow> ('u, 'c, 'w) QuitState \<Rightarrow>
    ('u, 'c, 'w) QuitState option"
where
  "server_test env clenv done_cb h hs q =
     (let q = q\<lparr>quit_status := \<not> quit_status q\<rparr>
      in if quit_status q
         then
           let addr = SocketAddr_new (inet env) ''0.0.0.0'' 10001 Ipv4;
               (_, server) = bindAndListen env h addr (quit_server q);
               serverAddr = SocketAddr_new (inet env) ''127.0.0.1'' 10001 Ipv4;
               (clients, w) = connect_clients clenv serverAddr hs (quit_clients q) (world server)
           in Some (q\<lparr>quit_server := server\<lparr>world := w\<rparr>, quit_clients := clients\<rparr>)
         else
           map_option (\<lambda>server. q\<lparr>quit_server := server\<rparr>) (server_close env (Some done_cb) (quit_server q)))"

text \<open>What \<open>main\<close> makes before the loop runs.\<close>

definition quit_init :: "'w Libuv \<Rightarrow> handle \<Rightarrow> bool \<Rightarrow> 'w \<Rightarrow> ('u, 'c, 'w) QuitState" where
  "quit_init u h noDelay w =
     (let server = TcpServer_new u h noDelay w
      in \<lparr>quit_status = False, quit_server = server,
          quit_clients = replicate 5 (TcpClient_new noDelay (world server))\<rparr>)"

lemma connect_clients_sockets:
  "length hs = length cs \<Longrightarrow> map socket (fst (connect_clients env addr hs cs w)) = map Some hs"
  by (induction env addr hs cs w rule: connect_clients.induct)
    (auto simp: Let_def cl_connect_def update_socket_def split: prod.split)

text \<open>The first tick: the server listens, if the system lets it, and every client asks for its connection.\<close>

lemma server_test_listens:
  assumes "\<not> quit_status q"
    and "bindAndListen env h (SocketAddr_new (inet env) ''0.0.0.0'' 10001 Ipv4) (quit_server q) = (rst, s)"
    and "connect_clients clenv (SocketAddr_new (inet env) ''127.0.0.1'' 10001 Ipv4) hs (quit_clients q) (world s) = (cs, v)"
  shows "server_test env clenv f h hs q
    = Some (q\<lparr>quit_status := True, quit_server := s\<lparr>world := v\<rparr>, quit_clients := cs\<rparr>)"
  unfolding server_test_def using assms by simp

lemma server_test_starts:
  fixes q :: "('u, 'c, 'w) QuitState"
  assumes "server_test env clenv f h hs (quit_init (uv env) k noDelay w) = Some q" and "length hs = 5"
  shows "quit_status q \<and> map socket (quit_clients q) = map Some hs
    \<and> connnections (quit_server q) = [] \<and> accetper (quit_server q) \<noteq> None"
proof -
  define q0 where "q0 = (quit_init (uv env) k noDelay w :: ('u, 'c, 'w) QuitState)"
  have q0: "\<not> quit_status q0" "length hs = length (quit_clients q0)" "connnections (quit_server q0) = []"
    using assms(2) by (simp_all add: q0_def quit_init_def TcpServer_new_def Let_def split: prod.split)
  obtain rst s where s: "bindAndListen env h (SocketAddr_new (inet env) ''0.0.0.0'' 10001 Ipv4) (quit_server q0) = (rst, s)"
    by fastforce
  then have "connnections s = []" "accetper s \<noteq> None"
    using q0(3) by (auto simp: bindAndListen_def Let_def split: prod.splits if_splits)
  moreover obtain cs v where cs: "connect_clients clenv (SocketAddr_new (inet env) ''127.0.0.1'' 10001 Ipv4) hs
      (quit_clients q0) (world s) = (cs, v)" by fastforce
  moreover have "map socket cs = map Some hs"
    using connect_clients_sockets [OF q0(2), of clenv] cs by (metis fst_conv)
  ultimately show ?thesis
    using assms(1) server_test_listens [OF q0(1) s cs, of f] by (auto simp: q0_def)
qed

section \<open>Closing and listening again\<close>

text \<open>libuv reports the closed connections, in any order.\<close>

fun report_closed :: "('u, 'w) Env \<Rightarrow> nat list \<Rightarrow> ('u, 'w) TcpServer \<Rightarrow> ('u, 'w) TcpServer option" where
  "report_closed env [] s = Some s"
| "report_closed env (i # is) s = do { s \<leftarrow> on_closed env i s; report_closed env is s }"

lemma report_closed_ok:
  assumes "user_keeps env" and "srv_ok env acc rep s" and "wheel_ok env past s"
    and "distinct is" and "set is \<subseteq> acc - rep" and "\<forall>i \<in> set is. is_closing env s i"
  shows "\<exists>s'. report_closed env is s = Some s' \<and> srv_ok env acc (rep \<union> set is) s' \<and> wheel_ok env past s'
    \<and> timeoutSec (timerWheel s') = timeoutSec (timerWheel s) \<and> (user_quiet env \<longrightarrow> pending s' = pending s)"
  using assms(2-)
proof (induction "is" arbitrary: s rep)
  case (Cons i "is")
  then have i: "i \<in> acc" "i \<notin> rep" "is_closing env s i" by auto
  obtain s1 where s1: "on_closed env i s = Some s1" "srv_ok env acc (insert i rep) s1" "wheel_ok env past s1"
    "timeoutSec (timerWheel s1) = timeoutSec (timerWheel s)" "user_quiet env \<longrightarrow> pending s1 = pending s" "\<forall>j. is_closing env s1 j = is_closing env s j"
    using closed_ok [OF assms(1) Cons.prems(1,2) i] by blast
  with Cons.IH [OF s1(2,3)] Cons.prems(3-5) obtain s' where "report_closed env is s1 = Some s'"
    "srv_ok env acc (insert i rep \<union> set is) s'" "wheel_ok env past s'"
    "timeoutSec (timerWheel s') = timeoutSec (timerWheel s1)" "user_quiet env \<longrightarrow> pending s' = pending s1" by auto
  with s1 show ?case by (intro exI [of _ s']) (simp add: insert_commute)
qed simp

lemma all_reported:
  assumes "srv_ok env acc acc s"
  shows "objects s = (\<lambda>_. None) \<and> connnections s = []"
proof -
  from assms have none: "objects s i = None" for i by (auto simp: srv_ok_def)
  moreover have "connnections s = []"
  proof (cases "connnections s")
    case (Cons e m)
    then have "getConnnection (fst e) s = Some (snd e)" by (simp add: getConnnection_def map_get_def)
    with srv_ok_entry [OF assms this] none show ?thesis by simp
  qed simp
  ultimately show ?thesis by (simp add: fun_eq_iff)
qed

text \<open>\<open>bindAndListen\<close> on a server without connections and without a time-out.\<close>

lemma listen_again:
  assumes "objects s = (\<lambda>_. None)" and "connnections s = []" and "pending s = []"
    and "timeoutSec (timerWheel s) = 0" and "held (timerWheel s) = {}"
    and "bindAndListen env h addr s = (0, s')"
  shows "fresh_server s' \<and> map_option isListen (accetper s') = Some True"
proof -
  have "wheel_start (uv env) (timerWheel s) w = (timerWheel s, w)" for w
    using assms(4) by (simp add: wheel_start_def)
  with assms(1-5) bindAndListen_ok [OF assms(6)] show ?thesis by (auto simp: fresh_server_def)
qed

text \<open>The states that \<open>server_test\<close> meets when it closes a server and, later, listens again.\<close>

lemma closing_ok:
  assumes "libuv (uv env)" and "user_keeps env" and "srv_ok env acc rep s" and "wheel_ok env past s"
    and "timeoutSec (timerWheel s) = 0"
  shows "\<exists>s'. close_lambda env (Some f) s = Some s' \<and> srv_ok env acc rep s' \<and> wheel_ok env past s'
    \<and> timeoutSec (timerWheel s') = 0 \<and> (user_quiet env \<longrightarrow> pending s' = pending s) \<and> (\<forall>i \<in> acc - rep. is_closing env s' i)"
proof -
  from close_rounds [OF assms(1,3), of "[]"] obtain s1 where s1:
    "endless (close_round env) (None, s) = Some s1" "srv_ok env acc rep s1" "timerWheel s1 = timerWheel s"
    "pending s1 = pending s" "\<And>j. is_closing env s1 j \<longleftrightarrow> is_closing env s j \<or> j \<in> snd ` set (connnections s)" by auto
  obtain s2 where run: "run_user env (Some f) ServerClosed s1 = Some s2" and eff: "user_effect env s1 s2"
    using run_user_keeps [OF assms(2) _ srv_ok_bufs [OF s1(2)], of ServerClosed "Some f"] by auto
  note same = user_effect_simps [OF eff]
  have quiet: "pending s2 = pending s1" if q: "user_quiet env"
  proof -
    obtain w where "run_user env (Some f) ServerClosed s1 = Some (s1\<lparr>world := w\<rparr>)"
      using run_user_quiet [OF q] by metis
    with run show ?thesis by auto
  qed
  have "i \<in> snd ` set (connnections s)" if "i \<in> acc - rep" for i
  proof -
    from that have "i \<in> acc" "i \<notin> rep" by auto
    then obtain c where "objects s i = Some c" "conn_ok (is_closing env s i) i c"
      "getConnnection (name c) s = Some i" by (rule srv_okD [OF assms(3)])
    then show ?thesis by (force simp: getConnnection_def map_get_def dest: map_of_SomeD)
  qed
  moreover have "wheel_ok env past s2"
    using assms(4,5) s1(3) same(2) by (simp add: wheel_ok_def)
  ultimately show ?thesis
    using s1 run same quiet srv_ok_effect [OF s1(2) eff] assms(5)
    by (intro exI [of _ s2]) (simp add: close_lambda_def run_user_def)
qed

section \<open>Properties\<close>

text \<open>C19: a server without a time-out can be stopped and started again: from whatever state its run has
  reached (runs as of \<open>srv_run\<close>, with callbacks that satisfy \<open>user_keeps\<close>), the function that \<open>close\<close> hands
  to the acceptor and libuv's reports, in any order, empty the map and destroy every connection object; and
  when no write request is pending after that and \<open>bindAndListen\<close> then succeeds, the server
  listens and is one from which a new run can start. Nothing is claimed for a server with a time-out, whose
  wheel keeps the wrappers of its old connections.\<close>

theorem server_restarts:
  assumes "libuv (uv env)" and "user_keeps env" and "srv_run env s0 es acc rep s"
    and "timeoutSec (timerWheel s0) = 0" and "distinct is" and "set is = acc - rep"
  shows "\<exists>s1 s2. close_lambda env (Some f) s = Some s1 \<and> report_closed env is s1 = Some s2
    \<and> connnections s2 = [] \<and> objects s2 = (\<lambda>_. None)
    \<and> (user_quiet env \<longrightarrow> pending s2 = pending s)
    \<and> (\<forall>s3. pending s2 = [] \<and> bindAndListen env h addr s2 = (0, s3) \<longrightarrow>
         map_option isListen (accetper s3) = Some True \<and> srv_run env s3 [] {} {} s3)"
proof -
  note ok = run_ok [OF assms(3,1,2)]
  have T: "timeoutSec (timerWheel s) = 0" using ok(3) assms(4) by simp
  from closing_ok [OF assms(1,2) ok(1,2) T] obtain s1 where s1: "close_lambda env (Some f) s = Some s1"
    "srv_ok env acc rep s1" "wheel_ok env (rev (activities es)) s1" "timeoutSec (timerWheel s1) = 0"
    "user_quiet env \<longrightarrow> pending s1 = pending s" "\<forall>i \<in> acc - rep. is_closing env s1 i" by blast
  with report_closed_ok [OF assms(2) s1(2,3) assms(5)] assms(6) obtain s2 where s2:
    "report_closed env is s1 = Some s2" "srv_ok env acc (rep \<union> (acc - rep)) s2"
    "wheel_ok env (rev (activities es)) s2" "timeoutSec (timerWheel s2) = 0" "user_quiet env \<longrightarrow> pending s2 = pending s" by auto
  moreover have "rep \<union> (acc - rep) = acc" using ok(1) by (auto simp: srv_ok_def)
  ultimately have none: "objects s2 = (\<lambda>_. None) \<and> connnections s2 = []" by (intro all_reported) simp
  moreover have "held (timerWheel s2) = {}" using s2(3,4) by (simp add: wheel_ok_def)
  ultimately have "map_option isListen (accetper s3) = Some True \<and> srv_run env s3 [] {} {} s3"
    if "pending s2 = []" "bindAndListen env h addr s2 = (0, s3)" for s3
    using listen_again [OF _ _ that(1) s2(4) _ that(2)] by (auto intro: srv_run.start)
  with s1(1) s2(1,5) none show ?thesis by blast
qed

text \<open>Two connections; then the server is closed and listens again.\<close>

theorem server_restarts_witness:
  "\<exists>s s1 s2 s3. steps [EvAccept 7, EvAccept 8] (sim_server 0) = Some s
     \<and> close_lambda sim_env (Some ()) s = Some s1 \<and> report_closed sim_env [8, 7] s1 = Some s2
     \<and> bindAndListen sim_env 20 sim_addr s2 = (0, s3) \<and> srv_run sim_env s3 [] {} {} s3"
proof -
  let ?es = "[EvAccept 7, EvAccept 8]"
  have listens: "fst (bindAndListen sim_env 20 sim_addr s) = 0" for s
    by (simp add: bindAndListen_def sim_env_def sim_uv_def acc_bind_def acc_listen_def TcpAccepter_new_def Let_def
        split: prod.split)
  have "sim_holds ?es 0 (\<lambda>s. pending s = [])" by code_simp
  then obtain s where s: "steps ?es (sim_server 0) = Some s" "pending s = []"
    "srv_run sim_env (sim_server 0) ?es {7, 8} {} s"
    by (rule sim_holdsE) (simp add: insert_commute)
  have T: "timeoutSec (timerWheel (sim_server 0)) = 0" by code_simp
  have order: "distinct [8, 7 :: nat]" "set [8, 7] = {7, 8} - ({} :: nat set)" by auto
  from server_restarts [OF sim_env(1,3) s(3) T order, of "()" 20 sim_addr] obtain s1 s2 where s2:
    "close_lambda sim_env (Some ()) s = Some s1" "report_closed sim_env [8, 7] s1 = Some s2"
    "user_quiet sim_env \<longrightarrow> pending s2 = pending s" "\<forall>s3. pending s2 = [] \<and> bindAndListen sim_env 20 sim_addr s2 = (0, s3) \<longrightarrow> srv_run sim_env s3 [] {} {} s3"
    by blast
  moreover from s2(3) s(2) sim_env(2) have "pending s2 = []" by simp
  moreover obtain s3 where "bindAndListen sim_env 20 sim_addr s2 = (0, s3)"
    using listens [of s2] by (metis prod.collapse)
  ultimately show ?thesis using s(1) by blast
qed

end
