(* ===== verification/LoopThreads.thy ===== *)
theory LoopThreads
  imports EventLoop
begin

text \<open>
  The life of an event loop among threads: one thread runs it, any thread hands functions over to it
  with \<open>runInThisLoop\<close>, and \<open>stop\<close> is called on the loop's thread. The steps are the operations of
  \<open>EventLoop\<close>; a call of \<open>runInThisLoop\<close> by another thread is three of them (the tests of the status,
  the push, the signal), and the start of \<open>run\<close> is two: \<open>handle_\<close> is stored before it is initialised. The
  thread's number and the status, which \<open>run\<close> sets next, tell another thread nothing that the steps
  before have not told. Then the example \<open>examples/loop_exit/main.cpp\<close>, whose thread \<open>t1\<close> stops the
  loop that the main thread runs and deletes.
\<close>

section \<open>State\<close>

text \<open>A function that is handed over: one that leaves the loop alone, or one that calls \<open>stop\<close>.\<close>

datatype 'cb LoopFn = User 'cb | StopLoop

datatype 'cb Poster = Out | Entered 'cb | Pushed

datatype Phase = Before | Creating | InPoll | InWake | InProcess | Leaving | After

text \<open>
  \<open>pending\<close> is libuv's flag of a wake-up, \<open>todo\<close> the local queue of \<open>process\<close>, \<open>direct\<close> what threads
  ran themselves in \<open>runInThisLoop\<close>; \<open>dangling\<close> says that a deleted handle has been used, \<open>early\<close> that one
  has been signalled that was not initialised. Both are undefined.
\<close>

record ('cb, 'w) Life =
  life_loop :: "'cb LoopFn EventLoop"
  life_world :: 'w
  phase :: Phase
  pending :: bool
  posters :: "nat \<Rightarrow> 'cb LoopFn Poster"
  todo :: "'cb LoopFn list"
  life_posted :: "'cb LoopFn list"
  life_ran :: "'cb LoopFn list"
  direct :: "(nat \<times> 'cb LoopFn) list"
  dangling :: bool
  early :: bool

definition Life_init :: "'w Libuv \<Rightarrow> nat \<Rightarrow> 'w \<Rightarrow> ('cb, 'w) Life" where
  "Life_init uv n w =
     (case EventLoop_new uv n w of (l, w) \<Rightarrow>
        \<lparr>life_loop = l, life_world = w, phase = Before, pending = False, posters = (\<lambda>t. Out),
          todo = [], life_posted = [], life_ran = [], direct = [], dangling = False, early = False\<rparr>)"

abbreviation life_async :: "('cb, 'w) Life \<Rightarrow> 'cb LoopFn Async" where
  "life_async s \<equiv> async (life_loop s)"

text \<open>The test at the head of \<open>runInThisLoop\<close>.\<close>

definition runs_directly :: "nat \<Rightarrow> 'cb EventLoop \<Rightarrow> bool" where
  "runs_directly t l \<longleftrightarrow> isRunInLoopThread t l \<or> isStoped l"

text \<open>The places where code of the loop's thread, \<open>me\<close>, may call the loop: before \<open>run\<close>, in a callback, and
  after \<open>run\<close>.\<close>

definition may_call :: "nat \<Rightarrow> nat \<Rightarrow> Phase \<Rightarrow> bool" where
  "may_call me t p \<longleftrightarrow> t = me \<longrightarrow> p \<in> {Before, InPoll, InProcess, After}"

section \<open>Steps\<close>

inductive life_step :: "'w Libuv \<Rightarrow> nat \<Rightarrow> ('cb, 'w) Life \<Rightarrow> ('cb, 'w) Life \<Rightarrow> bool" for uv me where
  enter: "posters s t = Out \<Longrightarrow> may_call me t (phase s) \<Longrightarrow> \<not> runs_directly t (life_loop s) \<Longrightarrow>
    life_step uv me s (s\<lparr>posters := (posters s)(t := Entered f)\<rparr>)"
| direct: "posters s t = Out \<Longrightarrow> may_call me t (phase s) \<Longrightarrow> runs_directly t (life_loop s) \<Longrightarrow>
    life_step uv me s (s\<lparr>direct := direct s @ [(t, User g)]\<rparr>)"
| direct_stop: "posters s t = Out \<Longrightarrow> may_call me t (phase s) \<Longrightarrow> runs_directly t (life_loop s) \<Longrightarrow>
    loop_stop uv (life_loop s) (life_world s) = Some (r, l, w) \<Longrightarrow>
    life_step uv me s (s\<lparr>life_loop := l, life_world := w, direct := direct s @ [(t, StopLoop)]\<rparr>)"
| push: "posters s t = Entered f \<Longrightarrow>
    life_step uv me s (s\<lparr>life_loop := (life_loop s)\<lparr>async := async_push f (life_async s)\<rparr>,
      posters := (posters s)(t := Pushed), life_posted := life_posted s @ [f]\<rparr>)"
| signal: "posters s t = Pushed \<Longrightarrow> async_signal (life_async s) = Some (Some h) \<Longrightarrow>
    life_step uv me s (s\<lparr>posters := (posters s)(t := Out), pending := True,
      life_world := uv_async_send uv h (life_world s)\<rparr>)"
| no_signal: "posters s t = Pushed \<Longrightarrow> async_signal (life_async s) = Some None \<Longrightarrow>
    life_step uv me s (s\<lparr>posters := (posters s)(t := Out)\<rparr>)"
| dangle: "posters s t = Pushed \<Longrightarrow> async_handle (life_async s) = Deleted \<Longrightarrow>
    life_step uv me s (s\<lparr>posters := (posters s)(t := Out), dangling := True\<rparr>)"
| early: "posters s t = Pushed \<Longrightarrow> async_handle (life_async s) = Raw h \<Longrightarrow>
    life_step uv me s (s\<lparr>posters := (posters s)(t := Out), early := True\<rparr>)"
| create: "phase s = Before \<Longrightarrow> posters s me = Out \<Longrightarrow> status (life_loop s) = NotRun \<Longrightarrow>
    async_handle (life_async s) = NullHandle \<Longrightarrow>
    life_step uv me s (s\<lparr>life_loop := (life_loop s)\<lparr>async := async_create h (life_async s)\<rparr>, phase := Creating\<rparr>)"
| run: "phase s = Creating \<Longrightarrow> async_handle (life_async s) = Raw h \<Longrightarrow>
    async_start uv h (life_async s) (life_world s) = (a, w) \<Longrightarrow>
    life_step uv me s (s\<lparr>life_loop := (life_loop s)\<lparr>async := a, loopThreadId := me, status := Runed\<rparr>,
      life_world := w, phase := InPoll, pending := True\<rparr>)"
| wakeup: "phase s = InPoll \<Longrightarrow> pending s \<Longrightarrow> async_handle (life_async s) = Live h \<Longrightarrow>
    \<not> uv_is_closing uv h (life_world s) \<Longrightarrow>
    life_step uv me s (s\<lparr>pending := False, phase := InWake\<rparr>)"
| swap: "phase s = InWake \<Longrightarrow> process_swap (life_async s) = (fs, a) \<Longrightarrow>
    life_step uv me s (s\<lparr>life_loop := (life_loop s)\<lparr>async := a\<rparr>, todo := fs, phase := InProcess\<rparr>)"
| call: "phase s = InProcess \<Longrightarrow> todo s = User g # fs \<Longrightarrow>
    life_step uv me s (s\<lparr>todo := fs, life_ran := life_ran s @ [User g]\<rparr>)"
| call_stop: "phase s = InProcess \<Longrightarrow> todo s = StopLoop # fs \<Longrightarrow>
    loop_stop uv (life_loop s) (life_world s) = Some (r, l, w) \<Longrightarrow>
    life_step uv me s (s\<lparr>life_loop := l, life_world := w, todo := fs,
      life_ran := life_ran s @ [StopLoop]\<rparr>)"
| stop_dangle: "phase s = InProcess \<Longrightarrow> todo s = StopLoop # fs \<Longrightarrow>
    loop_stop uv (life_loop s) (life_world s) = None \<Longrightarrow>
    life_step uv me s (s\<lparr>todo := fs, dangling := True\<rparr>)"
| finish: "phase s = InProcess \<Longrightarrow> todo s = [] \<Longrightarrow> life_step uv me s (s\<lparr>phase := InPoll\<rparr>)"
| closed: "phase s = InPoll \<Longrightarrow> async_handle (life_async s) = Live h \<Longrightarrow>
    uv_is_closing uv h (life_world s) \<Longrightarrow> loop_closed uv (life_loop s) (life_world s) = (l, w) \<Longrightarrow>
    life_step uv me s (s\<lparr>life_loop := l, life_world := w,
      phase := (if onCloseComplet (life_async s) then Leaving else InPoll)\<rparr>)"
| leave: "phase s = Leaving \<Longrightarrow>
    life_step uv me s (s\<lparr>life_loop := (life_loop s)\<lparr>status := Stop\<rparr>, phase := After\<rparr>)"

inductive life_reachable :: "'w Libuv \<Rightarrow> nat \<Rightarrow> ('cb, 'w) Life \<Rightarrow> ('cb, 'w) Life \<Rightarrow> bool" for uv me s0 where
  start: "life_reachable uv me s0 s0"
| step: "life_reachable uv me s0 s \<Longrightarrow> life_step uv me s s' \<Longrightarrow> life_reachable uv me s0 s'"

text \<open>The two steps of the start are \<open>loop_enter\<close> of EventLoop.\<close>

lemma loop_enter_steps:
  assumes "async_handle (async l) = NullHandle"
  shows "loop_enter uv me h l w = (case async_start uv h (async (l\<lparr>async := async_create h (async l)\<rparr>)) w of
    (a, w) \<Rightarrow> (l\<lparr>async := a, loopThreadId := me, status := Runed\<rparr>, w))"
  using assms by (simp add: loop_enter_def async_init_def split: prod.split)

section \<open>Invariant\<close>

definition phase_status :: "Phase \<Rightarrow> Status" where
  "phase_status p = (case p of Before \<Rightarrow> NotRun | Creating \<Rightarrow> NotRun | After \<Rightarrow> Stop | _ \<Rightarrow> Runed)"

definition phase_handle :: "Phase \<Rightarrow> AsyncHandle \<Rightarrow> bool" where
  "phase_handle p a =
     (case a of NullHandle \<Rightarrow> p = Before | Raw h \<Rightarrow> p = Creating | Live h \<Rightarrow> p \<in> {InPoll, InWake, InProcess}
        | Deleted \<Rightarrow> p \<in> {Leaving, After})"

definition is_stopping :: "'w Libuv \<Rightarrow> ('cb, 'w) Life \<Rightarrow> bool" where
  "is_stopping uv s \<longleftrightarrow>
     (case async_handle (life_async s) of
        NullHandle \<Rightarrow> False | Raw h \<Rightarrow> False | Live h \<Rightarrow> uv_is_closing uv h (life_world s) | Deleted \<Rightarrow> True)"

lemma is_stopping_update [simp]: "is_stopping uv (s\<lparr>posters := p\<rparr>) = is_stopping uv s"
  by (simp add: is_stopping_def cong: AsyncHandle.case_cong)

text \<open>The state: how status, handle and phase belong together.\<close>

definition life_shape :: "'w Libuv \<Rightarrow> nat \<Rightarrow> ('cb, 'w) Life \<Rightarrow> bool" where
  "life_shape uv me s \<longleftrightarrow> status (life_loop s) = phase_status (phase s)
     \<and> phase_handle (phase s) (async_handle (life_async s))
     \<and> (phase s \<notin> {Before, Creating} \<longrightarrow> loopThreadId (life_loop s) = me)
     \<and> (is_stopping uv s \<longrightarrow> onCloseComplet (life_async s))
     \<and> (dangling s \<longrightarrow> phase s \<in> {Leaving, After})"

text \<open>The history: order, who stops the loop, who runs a function himself.\<close>

definition life_hist :: "'w Libuv \<Rightarrow> nat \<Rightarrow> ('cb, 'w) Life \<Rightarrow> bool" where
  "life_hist uv me s \<longleftrightarrow> life_ran s @ todo s @ callbacks (life_async s) = life_posted s
     \<and> (todo s \<noteq> [] \<longrightarrow> phase s = InProcess)
     \<and> (is_stopping uv s \<longleftrightarrow>
          StopLoop \<in> set (life_ran s) \<or> (me, StopLoop) \<in> set (direct s) \<and> phase s \<notin> {Before, Creating})
     \<and> (\<forall>x \<in> set (direct s). if fst x = me then phase s \<notin> {Before, Creating} else phase s = After)"

text \<open>No wake-up is lost as long as the loop is not stopping.\<close>

definition life_wake :: "'w Libuv \<Rightarrow> ('cb, 'w) Life \<Rightarrow> bool" where
  "life_wake uv s \<longleftrightarrow> (callbacks (life_async s) \<noteq> [] \<longrightarrow> pending s \<or> phase s \<in> {Before, Creating, InWake}
     \<or> {t. posters s t = Pushed} \<noteq> {} \<or> is_stopping uv s)"

lemmas life_ops = runs_directly_def may_call_def isRunInLoopThread_def isStoped_def loop_stop_def
  async_close_def async_push_def async_signal_def async_create_def async_start_def process_swap_def
  loop_closed_def onCloseCompleted_def Let_def

lemmas life_defs = life_shape_def phase_status_def phase_handle_def is_stopping_def life_ops

lemma life_step_shape:
  assumes "libuv uv" and "life_step uv me s s'" and "life_shape uv me s"
  shows "life_shape uv me s'"
  using assms(2,3)
  by (induction rule: life_step.induct)
    (auto simp: life_defs libuv.closing [OF assms(1)]
      split: AsyncHandle.splits Phase.splits if_splits prod.splits)

lemma pushed_set:
  "{t. ((posters s)(u := x)) t = Pushed} =
    (if x = Pushed then insert u {t. posters s t = Pushed} else {t. posters s t = Pushed} - {u})"
  by auto

lemma life_step_wake:
  assumes "libuv uv" and "life_step uv me s s'" and "life_shape uv me s" and "life_wake uv s"
  shows "life_wake uv s'"
  using assms(2-4)
proof (induction rule: life_step.induct)
  case (enter s t f)
  then have "{u. ((posters s)(t := Entered f)) u = Pushed} = {u. posters s u = Pushed}" by auto
  with enter show ?case by (simp add: life_wake_def)
qed (simp_all only: life_wake_def life_defs pushed_set,
     auto simp: libuv.closing [OF assms(1)]
      split: AsyncHandle.splits Phase.splits if_splits prod.splits)

text \<open>The steps of the posters leave what the history speaks of, but for the push and for what runs
  directly.\<close>

lemma life_step_hist:
  assumes "libuv uv" and "life_step uv me s s'" and "life_shape uv me s" and "life_hist uv me s"
  shows "life_hist uv me s'"
  using assms(2-4)
proof (induction rule: life_step.induct)
  case (enter s t f)
  then show ?case unfolding life_hist_def by auto
next
  case (push s t f)
  then show ?case by (auto simp: life_hist_def is_stopping_def async_push_def split: AsyncHandle.splits)
next
  case (signal s t h)
  then show ?case
    by (auto simp: life_hist_def is_stopping_def libuv.closing [OF assms(1)] split: AsyncHandle.splits)
qed (auto simp: life_hist_def life_defs libuv.closing [OF assms(1)]
      split: AsyncHandle.splits Phase.splits if_splits prod.splits)

definition life_inv :: "'w Libuv \<Rightarrow> nat \<Rightarrow> ('cb, 'w) Life \<Rightarrow> bool" where
  "life_inv uv me s \<longleftrightarrow> life_shape uv me s \<and> life_hist uv me s \<and> life_wake uv s"

lemma life_inv_init: "life_inv uv me (Life_init uv n w)"
  by (simp add: life_inv_def life_hist_def life_wake_def life_defs Life_init_def EventLoop_new_def
      EventLoop_make_def Async_new_def)

lemma life_inv_step: "libuv uv \<Longrightarrow> life_step uv me s s' \<Longrightarrow> life_inv uv me s \<Longrightarrow> life_inv uv me s'"
  by (simp add: life_inv_def life_step_shape life_step_hist life_step_wake)

lemma life_reachable_inv:
  assumes "libuv uv" and "life_reachable uv me (Life_init uv n w) s"
  shows "life_inv uv me s"
  using assms(2) by (induction rule: life_reachable.induct) (blast intro: life_inv_init life_inv_step [OF assms(1)])+

text \<open>\<open>stop\<close> is defined wherever the loop's thread may call it.\<close>

lemma stop_defined: "life_inv uv me s \<Longrightarrow> phase s \<in> {InPoll, InProcess} \<Longrightarrow>
    loop_stop uv (life_loop s) (life_world s) \<noteq> None"
  by (auto simp: life_inv_def life_defs split: AsyncHandle.splits)

section \<open>Safety\<close>

lemma early_step: "life_step uv me s s' \<Longrightarrow> early s' \<Longrightarrow> \<not> early s \<Longrightarrow> \<exists>h. async_handle (life_async s) = Raw h"
  by (induction rule: life_step.induct) simp_all

text \<open>C10: whatever threads hand over and however they interleave with a loop that starts, runs and is
  stopped, as long as none has signalled the handle between its \<open>new\<close> and \<open>uv_async_init\<close>: functions run in
  the order of their pushes, each once; a deleted handle is used only after the loop has been stopped,
  and no call of \<open>stop\<close> on the loop's thread uses one; no wake-up is lost before the stop; a function is
  run by a thread other than the loop's only when \<open>run\<close> has returned; and a handle that is not initialised
  is signalled, if at all, in that window (\<open>early_signal\<close> shows that this can happen).\<close>

theorem loop_life_safe:
  assumes "libuv uv" and "life_reachable uv me (Life_init uv n w) s" and "\<not> early s"
  shows "life_posted s = life_ran s @ todo s @ callbacks (life_async s)
    \<and> (dangling s \<longrightarrow> phase s \<in> {Leaving, After})
    \<and> (phase s \<in> {InPoll, InProcess} \<longrightarrow> loop_stop uv (life_loop s) (life_world s) \<noteq> None)
    \<and> (phase s = InPoll \<and> \<not> pending s \<and> (\<forall>t. posters s t \<noteq> Pushed) \<and> \<not> is_stopping uv s \<longrightarrow>
         life_ran s = life_posted s)
    \<and> (\<forall>(t, f) \<in> set (direct s). t = me \<or> isStoped (life_loop s))
    \<and> (\<forall>s'. life_step uv me s s' \<and> early s' \<longrightarrow> phase s = Creating)"
proof -
  from life_reachable_inv [OF assms(1,2)] have inv: "life_inv uv me s" .
  then have order: "life_posted s = life_ran s @ todo s @ callbacks (life_async s)"
    and dangle: "dangling s \<longrightarrow> phase s \<in> {Leaving, After}"
    by (simp_all add: life_inv_def life_hist_def life_shape_def)
  have stop: "phase s \<in> {InPoll, InProcess} \<longrightarrow> loop_stop uv (life_loop s) (life_world s) \<noteq> None"
    using stop_defined [OF inv] by blast
  have wake: "phase s = InPoll \<and> \<not> pending s \<and> (\<forall>t. posters s t \<noteq> Pushed) \<and> \<not> is_stopping uv s \<longrightarrow>
      life_ran s = life_posted s"
  proof
    assume rest: "phase s = InPoll \<and> \<not> pending s \<and> (\<forall>t. posters s t \<noteq> Pushed) \<and> \<not> is_stopping uv s"
    then have "callbacks (life_async s) = []" using inv by (auto simp: life_inv_def life_wake_def)
    moreover have "todo s = []" using inv rest by (auto simp: life_inv_def life_hist_def)
    ultimately show "life_ran s = life_posted s" using order by simp
  qed
  have "t = me \<or> isStoped (life_loop s)" if "(t, f) \<in> set (direct s)" for t f
  proof (cases "t = me")
    case False
    with inv that have "phase s = After" by (auto simp: life_inv_def life_hist_def)
    with inv show ?thesis by (simp add: life_inv_def life_shape_def isStoped_def phase_status_def)
  qed simp
  then have direct: "\<forall>(t, f) \<in> set (direct s). t = me \<or> isStoped (life_loop s)" by blast
  have "phase s = Creating" if "life_step uv me s s'" "early s'" for s'
    using early_step [OF that assms(3)] inv by (auto simp: life_inv_def life_shape_def phase_handle_def)
  then have "\<forall>s'. life_step uv me s s' \<and> early s' \<longrightarrow> phase s = Creating" by blast
  with order dangle stop wake direct show ?thesis by (intro conjI)
qed

text \<open>The window: a thread that has handed a function over before \<open>run\<close> signals while \<open>run\<close> is in it.\<close>

theorem early_signal:
  assumes "life_reachable uv me s0 s" and "phase s = Before" and "status (life_loop s) = NotRun"
    and "async_handle (life_async s) = NullHandle" and "posters s me = Out" and "posters s t = Pushed"
  shows "\<exists>s'. life_reachable uv me s0 s' \<and> phase s' = Creating \<and> early s'"
proof -
  let ?s1 = "s\<lparr>life_loop := (life_loop s)\<lparr>async := async_create 5 (life_async s)\<rparr>, phase := Creating\<rparr>"
  have "life_step uv me s ?s1" using assms(2-5) by (intro life_step.create)
  then have "life_reachable uv me s0 ?s1" by (rule life_reachable.step [OF assms(1)])
  moreover have "life_step uv me ?s1 (?s1\<lparr>posters := (posters ?s1)(t := Out), early := True\<rparr>)"
    by (rule life_step.early [of _ _ 5]) (simp_all add: async_create_def assms(6))
  ultimately have "life_reachable uv me s0 (?s1\<lparr>posters := (posters ?s1)(t := Out), early := True\<rparr>)"
    (is "life_reachable uv me _ ?s2") by (rule life_reachable.step)
  then show ?thesis by (intro exI [of _ ?s2]) simp
qed

section \<open>The loop\_exit example\<close>

text \<open>
  Thread 1 runs the loop (\<open>loop_exit\<close>), thread 2 is \<open>t1\<close>: it hands over, once, a function that stops
  the loop (\<open>func\<close>). Nothing else uses the loop.
\<close>

definition t1_only :: "('cb, 'w) Life \<Rightarrow> bool" where
  "t1_only s \<longleftrightarrow> (\<forall>t. t \<noteq> 2 \<longrightarrow> posters s t = Out) \<and> direct s = []
     \<and> (life_posted s = [] \<and> posters s 2 \<in> {Out, Entered StopLoop}
        \<or> life_posted s = [StopLoop] \<and> posters s 2 \<in> {Pushed, Out})"

definition exit_step :: "'w Libuv \<Rightarrow> ('cb, 'w) Life \<Rightarrow> ('cb, 'w) Life \<Rightarrow> bool" where
  "exit_step uv s s' \<longleftrightarrow> life_step uv 1 s s' \<and> t1_only s'"

text \<open>\<open>run\<close> has returned and \<open>t1\<close> is done.\<close>

definition exit_over :: "('cb, 'w) Life \<Rightarrow> bool" where
  "exit_over s \<longleftrightarrow> phase s = After \<and> posters s 2 = Out \<and> life_posted s = [StopLoop]"

definition exit_measure :: "('cb, 'w) Life \<Rightarrow> nat" where
  "exit_measure s =
     (case posters s 2 of Out \<Rightarrow> if life_posted s = [] then 30 else 0 | Entered f \<Rightarrow> 20 | Pushed \<Rightarrow> 10)
     + (if pending s then 4 else 0)
     + (case phase s of Before \<Rightarrow> 10 | Creating \<Rightarrow> 9 | InPoll \<Rightarrow> 2 | InWake \<Rightarrow> 5 | InProcess \<Rightarrow> 3 + length (todo s)
          | Leaving \<Rightarrow> 1 | After \<Rightarrow> 0)"

lemma exit_step_measure:
  assumes "libuv uv" and "life_inv uv 1 s" and "t1_only s" and "exit_step uv s s'"
  shows "exit_measure s' < exit_measure s"
proof -
  from assms(4) have step: "life_step uv 1 s s'" and only: "t1_only s'" by (simp_all add: exit_step_def)
  from assms(2,3) have short: "length (callbacks (life_async s)) \<le> 1"
    by (auto simp: life_inv_def life_hist_def t1_only_def dest: arg_cong [of _ _ length])
  from step show ?thesis
  proof cases
    case (enter t f)
    with assms(3) only show ?thesis by (cases "t = 2") (auto simp: t1_only_def exit_measure_def split: Phase.split)
  next
    case (push t f)
    with assms(3) show ?thesis by (cases "t = 2") (auto simp: t1_only_def exit_measure_def split: Phase.split)
  next
    case (signal t h)
    with assms(3) show ?thesis by (cases "t = 2") (auto simp: t1_only_def exit_measure_def split: Phase.split)
  next
    case (no_signal t)
    with assms(3) show ?thesis by (cases "t = 2") (auto simp: t1_only_def exit_measure_def split: Phase.split)
  next
    case (dangle t)
    with assms(3) show ?thesis by (cases "t = 2") (auto simp: t1_only_def exit_measure_def split: Phase.split)
  next
    case (early t h)
    with assms(3) show ?thesis by (cases "t = 2") (auto simp: t1_only_def exit_measure_def split: Phase.split)
  next
    case (swap fs a)
    with short show ?thesis by (simp add: exit_measure_def process_swap_def)
  next
    case (closed h l w)
    with assms(2) show ?thesis
      by (simp add: exit_measure_def life_inv_def life_shape_def is_stopping_def)
  qed (use only in \<open>auto simp: exit_measure_def t1_only_def\<close>)
qed

text \<open>Until both threads are done, one of them can go on.\<close>

lemma exit_poster_step:
  assumes inv: "life_inv uv 1 s" and only: "t1_only s" and "posters s 2 \<noteq> Out \<or> life_posted s = []"
  shows "\<exists>s'. exit_step uv s s'"
proof (cases "posters s 2")
  case Out
  with assms have empty: "life_posted s = []" by simp
  with inv only have "\<not> is_stopping uv s" by (auto simp: life_inv_def life_hist_def t1_only_def)
  with inv have "status (life_loop s) \<noteq> Stop" "phase s \<notin> {Before, Creating} \<longrightarrow> loopThreadId (life_loop s) = 1"
    by (auto simp: life_inv_def life_defs split: AsyncHandle.splits Phase.splits)
  with inv have "\<not> runs_directly 2 (life_loop s)"
    by (auto simp: runs_directly_def isRunInLoopThread_def isStoped_def life_inv_def life_shape_def
        phase_status_def split: Phase.splits)
  with Out have "life_step uv 1 s (s\<lparr>posters := (posters s)(2 := Entered StopLoop)\<rparr>)"
    by (intro life_step.enter) (simp_all add: may_call_def)
  with only empty show ?thesis by (auto simp: exit_step_def t1_only_def)
next
  case (Entered f)
  with only life_step.push [OF Entered, of uv 1] show ?thesis
    by (intro exI) (rule exit_step_def [THEN iffD2], rule conjI, assumption, auto simp: t1_only_def)
next
  case Pushed
  have one: "t1_only s \<Longrightarrow> posters s' = (posters s)(2 := Out) \<Longrightarrow> direct s' = direct s \<Longrightarrow>
      life_posted s' = life_posted s \<Longrightarrow> t1_only s'" for s' :: "('b, 'a) Life"
    using Pushed by (auto simp: t1_only_def)
  show ?thesis
  proof (cases "async_handle (life_async s)")
    case NullHandle
    then have "async_signal (life_async s) = Some None" by (simp add: async_signal_def)
    from life_step.no_signal [OF Pushed this, of uv 1] only one show ?thesis by (fastforce simp: exit_step_def)
  next
    case (Raw h)
    from life_step.early [OF Pushed Raw, of uv 1] only one show ?thesis by (fastforce simp: exit_step_def)
  next
    case (Live h)
    then have "async_signal (life_async s) = Some (Some h)" by (simp add: async_signal_def)
    from life_step.signal [OF Pushed this, of uv 1] only one show ?thesis by (fastforce simp: exit_step_def)
  next
    case Deleted
    from life_step.dangle [OF Pushed Deleted, of uv 1] only one show ?thesis by (fastforce simp: exit_step_def)
  qed
qed

lemma exit_stepI: "life_step uv 1 s s' \<Longrightarrow> t1_only s \<Longrightarrow> posters s' = posters s \<Longrightarrow> direct s' = direct s \<Longrightarrow>
    life_posted s' = life_posted s \<Longrightarrow> \<exists>s'. exit_step uv s s'"
  by (auto simp: exit_step_def t1_only_def)

lemma exit_loop_step:
  assumes inv: "life_inv uv 1 s" and only: "t1_only s" and out: "posters s 2 = Out"
    and posted: "life_posted s = [StopLoop]" and "phase s \<noteq> After"
  shows "\<exists>s'. exit_step uv s s'"
proof (cases "phase s")
  case Before
  with inv have "async_handle (life_async s) = NullHandle" "status (life_loop s) = NotRun"
    by (auto simp: life_inv_def life_shape_def phase_handle_def phase_status_def split: AsyncHandle.splits)
  with Before show ?thesis using only
    by (intro exit_stepI [OF life_step.create]) (auto simp: t1_only_def)
next
  case Creating
  with inv obtain h where h: "async_handle (life_async s) = Raw h"
    by (auto simp: life_inv_def life_shape_def phase_handle_def split: AsyncHandle.splits)
  obtain a w where "async_start uv h (life_async s) (life_world s) = (a, w)" by (metis surj_pair)
  from exit_stepI [OF life_step.run [OF Creating h this] only] show ?thesis by simp
next
  case InPoll
  with inv obtain h where h: "async_handle (life_async s) = Live h"
    by (auto simp: life_inv_def life_shape_def phase_handle_def split: AsyncHandle.splits)
  show ?thesis
  proof (cases "uv_is_closing uv h (life_world s)")
    case True
    obtain l w where "loop_closed uv (life_loop s) (life_world s) = (l, w)" by (metis surj_pair)
    from exit_stepI [OF life_step.closed [OF InPoll h True this] only] show ?thesis by simp
  next
    case False
    have "pending s"
    proof (rule ccontr)
      assume "\<not> pending s"
      moreover have "\<not> is_stopping uv s" using False h by (simp add: is_stopping_def)
      moreover have "{t. posters s t = Pushed} = {}" 
      proof -
        have "posters s t = Out" for t using only out by (cases "t = 2") (auto simp: t1_only_def)
        then show ?thesis by simp
      qed
      ultimately have "life_ran s = [StopLoop]"
        using inv InPoll posted by (auto simp: life_inv_def life_hist_def life_wake_def)
      with inv \<open>\<not> is_stopping uv s\<close> show False by (auto simp: life_inv_def life_hist_def)
    qed
    from exit_stepI [OF life_step.wakeup [OF InPoll this h False] only] show ?thesis by simp
  qed
next
  case InWake
  obtain fs a where "process_swap (life_async s) = (fs, a)" by (metis surj_pair)
  from exit_stepI [OF life_step.swap [OF InWake this] only] show ?thesis by simp
next
  case InProcess
  show ?thesis
  proof (cases "todo s")
    case Nil
    from exit_stepI [OF life_step.finish [OF InProcess this] only] show ?thesis by simp
  next
    case (Cons f fs)
    with inv posted have f: "f = StopLoop"
      by (auto simp: life_inv_def life_hist_def append_eq_Cons_conv)
    obtain r l w where "loop_stop uv (life_loop s) (life_world s) = Some (r, l, w)"
      using stop_defined [OF inv] InProcess by auto
    from exit_stepI [OF life_step.call_stop [OF InProcess Cons [unfolded f] this] only] show ?thesis by simp
  qed
next
  case Leaving
  from exit_stepI [OF life_step.leave [OF this] only] show ?thesis by simp
qed (use assms in simp)

definition exit_init :: "'w Libuv \<Rightarrow> nat \<Rightarrow> 'w \<Rightarrow> (unit, 'w) Life" where
  "exit_init uv n w = Life_init uv n w"

lemma exit_init_inv: "life_inv uv 1 (exit_init uv n w) \<and> t1_only (exit_init uv n w)"
proof
  show "t1_only (exit_init uv n w)"
    by (simp add: exit_init_def t1_only_def Life_init_def EventLoop_new_def EventLoop_make_def)
qed (simp only: exit_init_def life_inv_init)

text \<open>A run of \<open>k\<close> steps: the invariants hold and the measure has gone down by \<open>k\<close>.\<close>

lemma exit_run:
  assumes "libuv uv" and "(exit_step uv ^^ k) (exit_init uv n w) s"
  shows "life_inv uv 1 s \<and> t1_only s \<and> exit_measure s + k \<le> 40"
  using assms(2)
proof (induction k arbitrary: s)
  case 0
  have "exit_measure (exit_init uv n w) = 40"
    by (simp add: exit_measure_def exit_init_def Life_init_def EventLoop_new_def EventLoop_make_def)
  with 0 show ?case using exit_init_inv [of uv n w] by simp
next
  case (Suc k)
  then obtain r where "(exit_step uv ^^ k) (exit_init uv n w) r" and step: "exit_step uv r s" by auto
  with Suc.IH have r: "life_inv uv 1 r" "t1_only r" "exit_measure r + k \<le> 40" by auto
  from step have "life_step uv 1 r s" "t1_only s" by (simp_all add: exit_step_def)
  with exit_step_measure [OF assms(1) r(1,2) step] life_inv_step [OF assms(1) _ r(1), of s] r(3)
  show ?case by simp
qed

text \<open>C18: the loop of the loop\_exit example ends: whatever the two threads' timing, also when the function
  is handed over before \<open>run\<close>, as long as \<open>t1\<close> has signalled neither the handle that \<open>run\<close> is about to
  initialise nor the one that the stop has deleted (the race below and \<open>early_signal\<close> show that it may): a run up to
  the deletion of the loop has at most 40 steps, and it stops only when \<open>stop\<close> has run once on the loop's
  thread, \<open>run\<close> has returned with status \<open>Stop\<close> and \<open>t1\<close> is done.\<close>

theorem loop_exit_ends:
  assumes "libuv uv" and "(exit_step uv ^^ k) (exit_init uv n w) s" and "\<not> early s" and "\<not> dangling s"
  shows "k \<le> 40 \<and> ((\<nexists>s'. exit_step uv s s') \<longrightarrow>
    exit_over s \<and> life_ran s = [StopLoop] \<and> isStoped (life_loop s))"
proof -
  from exit_run [OF assms(1,2)] have inv: "life_inv uv 1 s" "t1_only s" and "k \<le> 40" by auto
  moreover have "exit_over s \<and> life_ran s = [StopLoop] \<and> isStoped (life_loop s)"
    if stuck: "\<nexists>s'. exit_step uv s s'"
  proof -
    from exit_poster_step [OF inv] stuck have out: "posters s 2 = Out" and "life_posted s \<noteq> []" by auto
    with inv(2) have posted: "life_posted s = [StopLoop]" by (auto simp: t1_only_def)
    with exit_loop_step [OF inv out] stuck have "phase s = After" by auto
    with inv out posted show ?thesis
      by (auto simp: exit_over_def life_inv_def life_hist_def life_defs t1_only_def append_eq_Cons_conv
          split: AsyncHandle.splits)
  qed
  ultimately show ?thesis by blast
qed

section \<open>A race\<close>

text \<open>
  \<open>t1\<close> is between its push and its signal while the loop's thread goes all the way: \<open>init\<close> has sent a
  wake-up of its own, which finds the function in the queue.
\<close>

lemma exit_next: "(exit_step uv)\<^sup>*\<^sup>* s0 s \<Longrightarrow> life_step uv 1 s s' \<Longrightarrow> t1_only s' \<Longrightarrow> (exit_step uv)\<^sup>*\<^sup>* s0 s'"
  by (simp add: exit_step_def rtranclp.rtrancl_into_rtrancl)

lemma exit_next_posted: "(exit_step uv)\<^sup>*\<^sup>* s0 s \<Longrightarrow> t1_only s \<Longrightarrow> life_step uv 1 s s' \<Longrightarrow>
    posters s' = posters s \<Longrightarrow> direct s' = direct s \<Longrightarrow> life_posted s' = life_posted s \<Longrightarrow>
    (exit_step uv)\<^sup>*\<^sup>* s0 s' \<and> t1_only s'"
proof -
  assume *: "(exit_step uv)\<^sup>*\<^sup>* s0 s" "life_step uv 1 s s'" and "t1_only s" "posters s' = posters s"
    "direct s' = direct s" "life_posted s' = life_posted s"
  then have "t1_only s'" by (simp add: t1_only_def)
  with exit_next [OF *] show ?thesis by simp
qed

lemma race_pushed:
  "\<exists>s. (exit_step uv)\<^sup>*\<^sup>* (exit_init uv n w) s \<and> t1_only s \<and> posters s 2 = Pushed \<and> phase s = Before
    \<and> \<not> early s \<and> life_loop s = \<lparr>loopThreadId = 0, evloop = n, async = \<lparr>async_handle = NullHandle,
        callbacks = [StopLoop], onCloseComplet = False\<rparr>, status = NotRun\<rparr>
    \<and> life_world s = uv_loop_init uv n w \<and> todo s = [] \<and> \<not> dangling s \<and> life_ran s = []"
proof -
  let ?s0 = "exit_init uv n w"
  let ?s1 = "?s0\<lparr>posters := (posters ?s0)(2 := Entered StopLoop)\<rparr>"
  let ?s2 = "?s1\<lparr>life_loop := (life_loop ?s1)\<lparr>async := async_push StopLoop (life_async ?s1)\<rparr>,
      posters := (posters ?s1)(2 := Pushed), life_posted := life_posted ?s1 @ [StopLoop]\<rparr>"
  note init = exit_init_def Life_init_def EventLoop_new_def EventLoop_make_def Async_new_def
  have "life_step uv 1 ?s0 ?s1" by (rule life_step.enter) (simp_all add: init life_ops)
  moreover have "t1_only ?s1" by (simp add: init t1_only_def)
  ultimately have "(exit_step uv)\<^sup>*\<^sup>* ?s0 ?s1" by (rule exit_next [OF rtranclp.rtrancl_refl])
  moreover have "life_step uv 1 ?s1 ?s2" by (rule life_step.push) simp
  moreover have "t1_only ?s2" by (simp add: init t1_only_def)
  ultimately have "(exit_step uv)\<^sup>*\<^sup>* ?s0 ?s2" by (rule exit_next)
  with \<open>t1_only ?s2\<close> show ?thesis by (intro exI [of _ ?s2]) (simp add: init async_push_def)
qed

text \<open>The loop starts, wakes up and is about to call the function that stops it.\<close>

definition race_async :: "AsyncHandle \<Rightarrow> unit LoopFn list \<Rightarrow> bool \<Rightarrow> unit LoopFn Async" where
  "race_async h q b = \<lparr>async_handle = h, callbacks = q, onCloseComplet = b\<rparr>"

definition race_loop :: "nat \<Rightarrow> unit LoopFn Async \<Rightarrow> unit LoopFn EventLoop" where
  "race_loop n a = \<lparr>loopThreadId = 1, evloop = n, async = a, status = Runed\<rparr>"

lemmas race_defs = race_async_def race_loop_def

lemma race_woken:
  assumes "libuv uv"
  shows "\<exists>s. (exit_step uv)\<^sup>*\<^sup>* (exit_init uv n w) s \<and> t1_only s \<and> posters s 2 = Pushed \<and> phase s = InProcess
    \<and> \<not> early s \<and> life_loop s = race_loop n (race_async (Live 5) [] False)
    \<and> \<not> uv_is_closing uv 5 (life_world s) \<and> todo s = [StopLoop] \<and> \<not> dangling s \<and> life_ran s = []"
proof -
  let ?s0 = "exit_init uv n w"
  from race_pushed [of uv n w] obtain s2 where s2: "(exit_step uv)\<^sup>*\<^sup>* ?s0 s2" "t1_only s2"
    "posters s2 2 = Pushed" "phase s2 = Before" "\<not> early s2" "life_loop s2 = \<lparr>loopThreadId = 0, evloop = n,
      async = \<lparr>async_handle = NullHandle, callbacks = [StopLoop], onCloseComplet = False\<rparr>, status = NotRun\<rparr>"
    "todo s2 = []" "\<not> dangling s2" "life_ran s2 = []" by blast
  let ?a = "async_create 5 (life_async s2)"
  let ?c = "s2\<lparr>life_loop := (life_loop s2)\<lparr>async := ?a\<rparr>, phase := Creating\<rparr>"
  have "life_step uv 1 s2 ?c" using s2 by (intro life_step.create) (simp_all add: t1_only_def)
  with s2 have c: "(exit_step uv)\<^sup>*\<^sup>* ?s0 ?c \<and> t1_only ?c" by (intro exit_next_posted [of _ _ s2]) simp_all
  let ?w3 = "uv_async_send uv 5 (uv_async_init uv 5 (life_world s2))"
  let ?l3 = "race_loop n (race_async (Live 5) [StopLoop] False)"
  let ?s3 = "s2\<lparr>life_loop := ?l3, life_world := ?w3, phase := InPoll, pending := True\<rparr>"
  have "async_start uv 5 (life_async ?c) (life_world ?c) = (race_async (Live 5) [StopLoop] False, ?w3)"
    using s2 by (simp add: async_start_def async_create_def race_defs)
  from life_step.run [OF _ _ this, of 1] s2 have "life_step uv 1 ?c ?s3"
    by (simp add: async_create_def race_defs)
  with c s2 have s3: "(exit_step uv)\<^sup>*\<^sup>* ?s0 ?s3 \<and> t1_only ?s3" by (intro exit_next_posted [of _ _ ?c]) simp_all
  have alive: "\<not> uv_is_closing uv 5 ?w3" by (simp add: libuv.closing [OF assms])
  let ?s4 = "?s3\<lparr>pending := False, phase := InWake\<rparr>"
  have "life_step uv 1 ?s3 ?s4" by (rule life_step.wakeup [of _ 5]) (use alive in \<open>simp_all add: race_defs\<close>)
  with s3 have s4: "(exit_step uv)\<^sup>*\<^sup>* ?s0 ?s4 \<and> t1_only ?s4" by (intro exit_next_posted [of _ _ ?s3]) simp_all
  let ?s5 = "?s4\<lparr>life_loop := ?l3\<lparr>async := race_async (Live 5) [] False\<rparr>, todo := [StopLoop], phase := InProcess\<rparr>"
  have "life_step uv 1 ?s4 ?s5"
    using life_step.swap [of ?s4 "[StopLoop]" "race_async (Live 5) [] False"]
    by (simp add: process_swap_def race_defs)
  with s4 have "(exit_step uv)\<^sup>*\<^sup>* ?s0 ?s5 \<and> t1_only ?s5" by (intro exit_next_posted [of _ _ ?s4]) simp_all
  with s2 alive show ?thesis by (intro exI [of _ ?s5]) (simp add: race_defs)
qed

lemma race_stopped:
  assumes "libuv uv"
  shows "\<exists>s. (exit_step uv)\<^sup>*\<^sup>* (exit_init uv n w) s \<and> phase s = After \<and> posters s 2 = Pushed
    \<and> \<not> early s \<and> async_handle (life_async s) = Deleted \<and> status (life_loop s) = Stop \<and> \<not> dangling s
    \<and> life_ran s = [StopLoop] \<and> evloop (life_loop s) = n"
proof -
  let ?s0 = "exit_init uv n w"
  from race_woken [OF assms, of n w] obtain s5 where s5: "(exit_step uv)\<^sup>*\<^sup>* ?s0 s5" "t1_only s5"
    "posters s5 2 = Pushed" "phase s5 = InProcess" "\<not> early s5" "life_loop s5 = race_loop n (race_async (Live 5) [] False)"
    "\<not> uv_is_closing uv 5 (life_world s5)" "todo s5 = [StopLoop]" "\<not> dangling s5" "life_ran s5 = []" by blast
  let ?l6 = "race_loop n (race_async (Live 5) [] True)" let ?w6 = "uv_close uv 5 (life_world s5)"
  let ?s6 = "s5\<lparr>life_loop := ?l6, life_world := ?w6, todo := [], life_ran := [StopLoop]\<rparr>"
  have "loop_stop uv (life_loop s5) (life_world s5) = Some (0, ?l6, ?w6)"
    using s5 by (simp add: loop_stop_def async_close_def race_defs)
  with s5 have "life_step uv 1 s5 ?s6" using life_step.call_stop [of s5 "[]" uv 0 ?l6 ?w6] by simp
  with s5 have s6: "(exit_step uv)\<^sup>*\<^sup>* ?s0 ?s6 \<and> t1_only ?s6" by (intro exit_next_posted [of _ _ s5]) simp_all
  let ?s7 = "?s6\<lparr>phase := InPoll\<rparr>"
  from s5 have "life_step uv 1 ?s6 ?s7" by (intro life_step.finish) simp_all
  with s6 have s7: "(exit_step uv)\<^sup>*\<^sup>* ?s0 ?s7 \<and> t1_only ?s7" by (intro exit_next_posted [of _ _ ?s6]) simp_all
  let ?l8 = "race_loop n (race_async Deleted [] True)" let ?w8 = "uv_stop uv n ?w6"
  let ?s8 = "?s7\<lparr>life_loop := ?l8, life_world := ?w8, phase := Leaving\<rparr>"
  have "uv_is_closing uv 5 ?w6" by (simp add: libuv.closing [OF assms])
  then have "life_step uv 1 ?s7 ?s8"
    using life_step.closed [of ?s7 5 uv ?l8 ?w8]
    by (simp add: loop_closed_def onCloseCompleted_def loop_handle_def race_defs)
  with s7 have s8: "(exit_step uv)\<^sup>*\<^sup>* ?s0 ?s8 \<and> t1_only ?s8" by (intro exit_next_posted [of _ _ ?s7]) simp_all
  let ?s9 = "?s8\<lparr>life_loop := ?l8\<lparr>status := Stop\<rparr>, phase := After\<rparr>"
  have "life_step uv 1 ?s8 ?s9" using life_step.leave [of ?s8] by simp
  with s8 have "(exit_step uv)\<^sup>*\<^sup>* ?s0 ?s9 \<and> t1_only ?s9" by (intro exit_next_posted [of _ _ ?s8]) simp_all
  with s5 show ?thesis by (intro exI [of _ ?s9]) (simp add: race_defs)
qed

text \<open>C35: the loop\_exit example has a race: a schedule in which \<open>run\<close> returns and the main thread deletes the
  loop with its \<open>Async\<close> while \<open>t1\<close>, in \<open>runInThisLoop\<close>, has still to test the handle and to signal it:
  the join comes after the delete.\<close>

theorem loop_exit_race:
  assumes "libuv uv" and "n \<noteq> uv_default_loop uv"
  shows "\<exists>s. (exit_step uv)\<^sup>*\<^sup>* (exit_init uv n w) s \<and> phase s = After \<and> isStoped (life_loop s)
    \<and> posters s 2 = Pushed \<and> fst (EventLoop_delete uv (life_loop s) (life_world s))
    \<and> async_signal (life_async s) = None"
proof -
  from race_stopped [OF assms(1), of n w] obtain s where "(exit_step uv)\<^sup>*\<^sup>* (exit_init uv n w) s"
    "phase s = After" "posters s 2 = Pushed" "async_handle (life_async s) = Deleted"
    "status (life_loop s) = Stop" "evloop (life_loop s) = n" by blast
  with assms(2) show ?thesis
    by (intro exI [of _ s]) (simp add: isStoped_def EventLoop_delete_def async_signal_def)
qed

theorem loop_exit_race_witness:
  "\<exists>s. (exit_step sim_uv)\<^sup>*\<^sup>* (exit_init sim_uv 1 sim_init) s \<and> phase s = After \<and> posters s 2 = Pushed
    \<and> async_signal (life_async s) = None"
  using loop_exit_race [OF sim.libuv_axioms, of 1 sim_init] by (auto simp: sim_uv_def)

text \<open>The same run is one of any threads.\<close>

lemma exit_reachable: "(exit_step uv)\<^sup>*\<^sup>* s0 s \<Longrightarrow> life_reachable uv 1 s0 s"
  by (induction rule: rtranclp.induct) (auto intro: life_reachable.intros simp: exit_step_def)

theorem loop_life_safe_witness:
  "\<exists>s. life_reachable sim_uv 1 (Life_init sim_uv 1 sim_init :: (unit, Sim) Life) s
    \<and> life_posted s = [StopLoop] \<and> phase s = After \<and> \<not> dangling s"
proof -
  from race_stopped [OF sim.libuv_axioms, of 1 sim_init] obtain s
    where s: "(exit_step sim_uv)\<^sup>*\<^sup>* (exit_init sim_uv 1 sim_init) s" "phase s = After" "\<not> dangling s"
      "life_ran s = [StopLoop]" "\<not> early s" and only: "t1_only s"
    by (metis rtranclp.cases exit_init_inv exit_step_def)
  from exit_reachable [OF s(1)] have r: "life_reachable sim_uv 1 (Life_init sim_uv 1 sim_init) s"
    by (simp add: exit_init_def)
  from loop_life_safe [OF sim.libuv_axioms r s(5)] s only have "life_posted s = [StopLoop]"
    by (auto simp: t1_only_def)
  with r s show ?thesis by blast
qed

theorem loop_exit_ends_witness:
  "\<exists>k s. (exit_step sim_uv ^^ k) (exit_init sim_uv 1 sim_init) s \<and> phase s = After \<and> k \<le> 40"
proof -
  from race_stopped [OF sim.libuv_axioms, of 1 sim_init] obtain k s
    where "(exit_step sim_uv ^^ k) (exit_init sim_uv 1 sim_init) s" and "phase s = After" "\<not> early s" "\<not> dangling s"
    by (auto dest: rtranclp_imp_relpowp)
  with loop_exit_ends [OF sim.libuv_axioms, of k 1 sim_init s] show ?thesis by blast
qed

section \<open>Functions that are lost\<close>

lemma stopping_step:
  assumes "libuv uv" and "life_step uv me s s'" and "life_inv uv me s"
    and "is_stopping uv s \<and> todo s = [] \<and> phase s \<noteq> InWake"
  shows "(is_stopping uv s' \<and> todo s' = [] \<and> phase s' \<noteq> InWake) \<and> life_ran s' = life_ran s
    \<and> (\<exists>ys. callbacks (life_async s') = callbacks (life_async s) @ ys)"
  using assms(2-4)
  by (induction rule: life_step.induct)
    (auto simp: life_inv_def life_defs libuv.closing [OF assms(1)]
      split: AsyncHandle.splits Phase.splits if_splits prod.splits)

lemma stopping_reachable:
  assumes "libuv uv" and "life_reachable uv me s s'" and "life_inv uv me s"
    and "is_stopping uv s \<and> todo s = [] \<and> phase s \<noteq> InWake"
  shows "life_inv uv me s' \<and> (is_stopping uv s' \<and> todo s' = [] \<and> phase s' \<noteq> InWake)
    \<and> life_ran s' = life_ran s \<and> (\<exists>ys. callbacks (life_async s') = callbacks (life_async s) @ ys)"
  using assms(2)
proof (induction rule: life_reachable.induct)
  case start
  show ?case using assms(3,4) by simp
next
  case (step s1 s2)
  with life_inv_step [OF assms(1) step.hyps(2)] stopping_step [OF assms(1) step.hyps(2)]
  show ?case by (metis append_assoc)
qed

text \<open>C36: what waits in the queue when the loop is stopped is lost: from the end of the round in which
  \<open>stop\<close> was called on, no function of the queue runs any more, whatever the threads do, and the
  queue only grows. Those who handed the functions over are not told: \<open>runInThisLoop\<close> returns nothing.\<close>

theorem stop_drops_queue:
  assumes "libuv uv" and "life_reachable uv me (Life_init uv n w) s"
    and "is_stopping uv s" and "todo s = []" and "phase s \<noteq> InWake"
    and "life_reachable uv me s s'"
  shows "life_ran s' = life_ran s \<and> (\<exists>ys. callbacks (life_async s') = callbacks (life_async s) @ ys)"
  using stopping_reachable [OF assms(1,6) life_reachable_inv [OF assms(1,2)]] assms(3-5) by blast

text \<open>A third thread hands a function over while the loop runs the one that stops it.\<close>

theorem stop_drops_queue_witness:
  "\<exists>s. life_reachable sim_uv 1 (Life_init sim_uv 1 sim_init) s \<and> callbacks (life_async s) = [User ()]
    \<and> (\<forall>s'. life_reachable sim_uv 1 s s' \<longrightarrow> life_ran s' = [StopLoop] \<and> User () \<in> set (callbacks (life_async s')))"
proof -
  let ?R = "life_reachable sim_uv 1 (Life_init sim_uv 1 sim_init)"
  from race_woken [OF sim.libuv_axioms, of 1 sim_init] obtain s
    where *: "(exit_step sim_uv)\<^sup>*\<^sup>* (exit_init sim_uv 1 sim_init) s" "t1_only s" "phase s = InProcess"
      "life_loop s = race_loop 1 (race_async (Live 5) [] False)" "\<not> uv_is_closing sim_uv 5 (life_world s)"
      "todo s = [StopLoop]" "life_ran s = []" by blast
  from exit_reachable [OF *(1)] have r: "?R s" by (simp add: exit_init_def)
  let ?s1 = "s\<lparr>posters := (posters s)(3 := Entered (User ()))\<rparr>"
  have "life_step sim_uv 1 s ?s1"
    using * by (intro life_step.enter) (auto simp: t1_only_def life_ops race_defs)
  with r have r1: "?R ?s1" by (rule life_reachable.step)
  let ?l = "race_loop 1 (race_async (Live 5) [User ()] False)"
  let ?s2 = "?s1\<lparr>life_loop := ?l, posters := (posters ?s1)(3 := Pushed), life_posted := life_posted s @ [User ()]\<rparr>"
  have "life_step sim_uv 1 ?s1 ?s2"
    using life_step.push [of ?s1 3 "User ()" sim_uv 1] * by (simp add: async_push_def race_defs)
  with r1 have r2: "?R ?s2" by (rule life_reachable.step)
  let ?l3 = "race_loop 1 (race_async (Live 5) [User ()] True)" let ?w = "uv_close sim_uv 5 (life_world s)"
  let ?s3 = "?s2\<lparr>life_loop := ?l3, life_world := ?w, todo := [], life_ran := [StopLoop]\<rparr>"
  have "loop_stop sim_uv (life_loop ?s2) (life_world ?s2) = Some (0, ?l3, ?w)"
    using * by (simp add: loop_stop_def async_close_def race_defs)
  with * have "life_step sim_uv 1 ?s2 ?s3" using life_step.call_stop [of ?s2 "[]" sim_uv 0 ?l3 ?w] by simp
  with r2 have r3: "?R ?s3" by (rule life_reachable.step)
  have "is_stopping sim_uv ?s3" by (simp add: is_stopping_def race_defs libuv.closing [OF sim.libuv_axioms])
  from stop_drops_queue [OF sim.libuv_axioms r3 this] * have
    "life_reachable sim_uv 1 ?s3 s' \<Longrightarrow> life_ran s' = [StopLoop] \<and> User () \<in> set (callbacks (life_async s'))" for s'
    by (fastforce simp: race_defs)
  with r3 show ?thesis by (intro exI [of _ ?s3]) (simp add: race_defs)
qed

end
