(* ===== verification/EchoRuns.thy ===== *)
theory EchoRuns
  imports ServerRuns EchoClients EchoExamples
begin

text \<open>
  The echo servers of the examples as programs: the server, libuv's events in any order, and the
  message callback that writes back. The callbacks keep the server in order, so that what ServerRuns
  proves for such callbacks holds for these servers.
\<close>

section \<open>The message callbacks\<close>

text \<open>
  \<open>EchoServer::newMessage\<close> of pingpang on the connection object \<open>i\<close>. The code writes each packet as soon as
  it has been read; since a write does not touch the buffer, the packets are written here in the same order
  after the loop. The count is in EchoServer.
\<close>

fun write_packets ::
  "('u, 'w) Env \<Rightarrow> nat \<Rightarrow> uint8 list list \<Rightarrow> ('u, 'w) TcpServer \<Rightarrow> ('u, 'w) TcpServer option"
where
  "write_packets env i [] s = Some s"
| "write_packets env i (p # ps) s =
     do { c \<leftarrow> objects s i; s \<leftarrow> write_to env i p None c s; write_packets env i ps s }"

definition pp_onMessage ::
  "('u, 'w) Env \<Rightarrow> PacketStatics \<Rightarrow> nat \<Rightarrow> uint8 list \<Rightarrow> ('u, 'w) TcpServer \<Rightarrow> ('u, 'w) TcpServer option"
where
  "pp_onMessage env st i buf s =
     do {
       c \<leftarrow> objects s i;
       if buffer_mode env = NoBuffer then write_to env i buf None c s
       else do {
         (pb, out) \<leftarrow> conn_echo (cycle_size env) st buf (conn_buffer c);
         write_packets env i out (s\<lparr>objects := (objects s)(i \<mapsto> c\<lparr>conn_buffer := pb\<rparr>)\<rparr>)
       }
     }"

text \<open>The servers with their callbacks: pingpang, and \<open>echo_server\<close>, whose count is no part of the server.\<close>

definition pp_env :: "('u, 'w) Env \<Rightarrow> PacketStatics \<Rightarrow> ('u, 'w) Env" where
  "pp_env env st = env\<lparr>user := (\<lambda>f arg s. case arg of Message i buf \<Rightarrow> pp_onMessage env st i buf s | _ \<Rightarrow> Some s)\<rparr>"

definition es_env :: "('u, 'w) Env \<Rightarrow> ('u, 'w) Env" where
  "es_env env = env\<lparr>user := (\<lambda>f arg s. case arg of
     Message i buf \<Rightarrow> map_option snd (es_onMessage env i buf (0, s)) | _ \<Rightarrow> Some s)\<rparr>"

lemma env_simps [simp]:
  "uv (pp_env env st) = uv env" "buffer_mode (pp_env env st) = buffer_mode env"
  "cycle_size (pp_env env st) = cycle_size env" "inet (pp_env env st) = inet env"
  "uv (es_env env) = uv env" "buffer_mode (es_env env) = buffer_mode env"
  "cycle_size (es_env env) = cycle_size env" "inet (es_env env) = inet env"
  by (simp_all add: pp_env_def es_env_def)

lemma user_simps [simp]:
  "user (pp_env env st) f arg s = (case arg of Message i buf \<Rightarrow> pp_onMessage env st i buf s | _ \<Rightarrow> Some s)"
  "user (es_env env) f arg s
    = (case arg of Message i buf \<Rightarrow> map_option snd (es_onMessage env i buf (0, s)) | _ \<Rightarrow> Some s)"
  by (simp_all add: pp_env_def es_env_def)

lemma effect_env [simp]:
  "bufs_ok (pp_env env st) = bufs_ok env" "bufs_ok (es_env env) = bufs_ok env"
  "user_effect (pp_env env st) = user_effect env" "user_effect (es_env env) = user_effect env"
  by (simp_all add: fun_eq_iff bufs_ok_def buf_ok_def user_effect_def)

section \<open>They keep the server in order\<close>

lemma user_effect_refl: "user_effect env s s"
  by (simp add: user_effect_def)

lemma user_effect_trans: "user_effect env s s1 \<Longrightarrow> user_effect env s1 s2 \<Longrightarrow> user_effect env s s2"
  by (simp add: user_effect_def)

lemma write_to_effect:
  assumes "libuv (uv env)"
  shows "\<exists>s'. write_to env i buf None c s = Some s' \<and> user_effect env s s' \<and> objects s' = objects s"
proof -
  obtain r w acts req where wr: "conn_write (uv env) buf None c (world s) = (r, w, acts, req)"
    by (metis prod_cases4)
  then have "w = world s \<or> w = snd (uv_write (uv env) (conn_handle c) buf (world s))"
    and req: "req = None \<or> req = Some (None, buf)"
    and acts: "acts = [] \<or> (\<exists>l m. acts = [LogAct l m])"
    by (auto simp: conn_write_def split: if_splits prod.splits)
  then have "\<And>j. uv_is_closing (uv env) j w = is_closing env s j"
    using libuv.closing [OF assms] by auto
  then show ?thesis
    using wr req acts by (auto simp: write_to_def run_act_def log_srv_def user_effect_def requests_ok_def)
qed

lemma write_packets_effect:
  assumes "libuv (uv env)" and "objects s i \<noteq> None"
  shows "\<exists>s'. write_packets env i ps s = Some s' \<and> user_effect env s s'"
  using assms(2)
proof (induction ps arbitrary: s)
  case (Cons p ps)
  then obtain c where c: "objects s i = Some c" by blast
  obtain s1 where s1: "write_to env i p None c s = Some s1" "user_effect env s s1" "objects s1 = objects s"
    using write_to_effect [OF assms(1)] by blast
  with Cons.IH [of s1] Cons.prems c show ?case by (auto intro: user_effect_trans)
qed (simp add: user_effect_refl)

lemma set_buffer_effect:
  assumes "objects s i = Some c" and "buf_ok env pb"
  shows "user_effect env s (s\<lparr>objects := (objects s)(i \<mapsto> c\<lparr>conn_buffer := pb\<rparr>)\<rparr>)"
  using assms bufs_ok_update [of env "objects s" "c\<lparr>conn_buffer := pb\<rparr>" i]
  by (auto simp: user_effect_def conn_core_def)

text \<open>The reader takes something whenever it returns 0, so that the loop over the buffer ends.\<close>

lemma bytes_reader_shrinks: "bytes_reader st (c, data) = (0, c', d') \<Longrightarrow> length c' < length c"
proof (induction "length c" arbitrary: c data rule: less_induct)
  case less
  show ?case
  proof (cases "bytes_round st (c, data)")
    case (Inl s)
    obtain c1 d1 where s: "s = (c1, d1)" by (cases s)
    with less.prems Inl have "bytes_reader st (c1, d1) = (0, c', d')"
      by (simp add: bytes_reader.simps [of st "(c, data)"])
    with less.hyps [of c1 d1] bytes_round_shrinks [of st c data c1 d1] Inl s show ?thesis by fastforce
  next
    case (Inr r)
    with less.prems have "bytes_round st (c, data) = Inr (0, c', d')"
      by (simp add: bytes_reader.simps [of st "(c, data)"])
    then show ?thesis by (auto simp: bytes_round_def Let_def split: if_splits)
  qed
qed

lemma buffer_echo_total:
  assumes "cb_valid cbs b" and "unat cbs \<le> 98299" and "length buf < 2 ^ 31"
  shows "\<exists>b' out. buffer_echo (CycleBuffer_ops cbs) st buf b = Some (b', out) \<and> cb_valid cbs b'"
proof -
  let ?ops = "CycleBuffer_ops cbs"
  obtain r b1 where b1: "append_op ?ops buf b = Some (r, b1)" "cb_valid cbs b1"
    using cycle_buf.append_total [OF assms(1), of buf] assms(3) by auto
  have round: "(\<exists>x'. newMessage_round st ?ops x = Some (Inl x') \<and> cb_valid cbs (fst x')
        \<and> length (cb_contents (fst x')) < length (cb_contents (fst x)))
      \<or> (\<exists>y. newMessage_round st ?ops x = Some (Inr y) \<and> cb_valid cbs (fst y))"
    if "cb_valid cbs (fst x)" for x
  proof -
    obtain b p out where x: "x = (b, p, out)" by (cases x)
    with that have v: "cb_valid cbs b" by simp
    have "65539 * length (cb_contents b) < 3 * 2 ^ 31"
      using cb_contents_bound [OF v] assms(2) by simp
    from cycle_echo.readFromBuffer_refines [OF v this, of st p] obtain r b' d where
      "readFromBuffer st ?ops b p = Some (r, b', if r = 0 then fst (swap d p) else p)" "cb_valid cbs b'"
      "bytes_reader st (cb_contents b, []) = (r, cb_contents b', d)" by blast
    then show ?thesis
      using bytes_reader_shrinks [of st "cb_contents b" "[]" "cb_contents b'" d] x
      by (cases "r = 0") (auto simp: newMessage_round_def)
  qed
  from endless_total [where I = "\<lambda>x. cb_valid cbs (fst x)" and m = "\<lambda>x. length (cb_contents (fst x))"
      and Q = "\<lambda>y. cb_valid cbs (fst y)" and s = "(b1, Packet_init, [])", OF _ round] b1(2)
  obtain y where "endless (newMessage_round st ?ops) (b1, Packet_init, []) = Some y" "cb_valid cbs (fst y)" by auto
  then show ?thesis
    using b1(1) assms(3) by (cases y) (simp add: buffer_echo_def append_received_def)
qed

text \<open>Circular buffers whose size keeps the reader within 31 bits.\<close>

definition pp_sized :: "('u, 'w) Env \<Rightarrow> bool" where
  "pp_sized env \<longleftrightarrow> buffer_mode env = CycleBufferMode \<and> 0 < unat (cycle_size env) \<and> unat (cycle_size env) \<le> 98299"

lemma pp_keeps:
  fixes env :: "('u, 'w) Env"
  assumes "libuv (uv env)" and "pp_sized env"
  shows "user_keeps (pp_env env st)"
  unfolding user_keeps_def
proof (intro allI impI)
  fix f arg and s :: "('u, 'w) TcpServer"
  assume ok: "arg_alive arg s \<and> bufs_ok (pp_env env st) (objects s)"
  show "\<exists>s'. user (pp_env env st) f arg s = Some s' \<and> user_effect (pp_env env st) s s'"
  proof (cases arg)
    case (Message i buf)
    with ok obtain c where c: "objects s i = Some c" and len: "length buf < 2 ^ 31" by auto
    have "buf_ok env (conn_buffer c)" using ok c by (auto simp: bufs_ok_def)
    then obtain b where b: "conn_buffer c = CycleBuf b" "cb_valid (cycle_size env) b"
      using assms(2) by (auto simp: buf_ok_def pp_sized_def)
    obtain b' out where e: "buffer_echo (CycleBuffer_ops (cycle_size env)) st buf b = Some (b', out)"
      "cb_valid (cycle_size env) b'"
      using buffer_echo_total [OF b(2) _ len, of st] assms(2) by (auto simp: pp_sized_def)
    let ?s = "s\<lparr>objects := (objects s)(i \<mapsto> c\<lparr>conn_buffer := CycleBuf b'\<rparr>)\<rparr>"
    have eff: "user_effect env s ?s"
      using e(2) by (intro set_buffer_effect [OF c]) (simp add: buf_ok_def)
    obtain s' where "write_packets env i out ?s = Some s'" "user_effect env ?s s'"
      using write_packets_effect [OF assms(1), of ?s i out] by auto
    with user_effect_trans [OF eff] show ?thesis
      using Message c b(1) e(1) assms(2) by (simp add: pp_onMessage_def pp_sized_def)
  qed (simp_all add: user_effect_refl)
qed

lemma es_keeps:
  fixes env :: "('u, 'w) Env"
  assumes "libuv (uv env)"
  shows "user_keeps (es_env env)"
  unfolding user_keeps_def
proof (intro allI impI)
  fix f arg and s :: "('u, 'w) TcpServer"
  assume ok: "arg_alive arg s \<and> bufs_ok (es_env env) (objects s)"
  show "\<exists>s'. user (es_env env) f arg s = Some s' \<and> user_effect (es_env env) s s'"
  proof (cases arg)
    case (Message i buf)
    with ok obtain c where c: "objects s i = Some c" by auto
    obtain s' where "write_to env i buf None c s = Some s'" "user_effect env s s'"
      using write_to_effect [OF assms] by blast
    then show ?thesis using Message c by (simp add: es_onMessage_def)
  qed (simp_all add: user_effect_refl)
qed

section \<open>Connections do not disturb each other\<close>

text \<open>Every connection object was there before, with the same buffer.\<close>

definition same_bufs :: "('u, 'w) TcpServer \<Rightarrow> ('u, 'w) TcpServer \<Rightarrow> bool" where
  "same_bufs s s' \<longleftrightarrow> onMessageCb s' = onMessageCb s
     \<and> (\<forall>j c'. objects s' j = Some c' \<longrightarrow> (\<exists>c. objects s j = Some c \<and> conn_buffer c = conn_buffer c'))"

lemma same_bufs_refl: "same_bufs s s"
  by (simp add: same_bufs_def)

lemma same_bufs_trans: "same_bufs s s1 \<Longrightarrow> same_bufs s1 s2 \<Longrightarrow> same_bufs s s2"
  unfolding same_bufs_def by metis

lemma same_bufs_update:
  "objects s i = Some c \<Longrightarrow> conn_buffer c' = conn_buffer c \<Longrightarrow>
    same_bufs s (s\<lparr>world := w, objects := (objects s)(i \<mapsto> c')\<rparr>)"
  by (simp add: same_bufs_def)

text \<open>The user's callbacks other than that for messages do nothing.\<close>

definition echoes_only :: "('u, 'w) Env \<Rightarrow> bool" where
  "echoes_only env \<longleftrightarrow> (\<forall>f arg s. (\<forall>i buf. arg \<noteq> Message i buf) \<longrightarrow> user env f arg s = Some s)"

lemma pp_echoes_only: "echoes_only (pp_env env st)" and es_echoes_only: "echoes_only (es_env env)"
  by (auto simp: echoes_only_def split: UserArg.split)

lemma run_user_other: "echoes_only env \<Longrightarrow> (\<And>i buf. arg \<noteq> Message i buf) \<Longrightarrow> run_user env cb arg s = Some s"
  by (simp add: echoes_only_def run_user_def split: option.split)

lemma removeConnnection_bufs: "same_bufs s (removeConnnection nm s)"
  by (simp add: same_bufs_def removeConnnection_def split: option.split)

lemma close_done_bufs: "echoes_only env \<Longrightarrow> close_done env nm s = Some s' \<Longrightarrow> same_bufs s s'"
  by (auto simp: close_done_def run_user_other removeConnnection_bufs same_bufs_refl split: option.splits)

lemma conn_close_buffer:
  "\<exists>c' w' cbs. conn_close u cb c w = Some (c', w', cbs) \<and> conn_buffer c' = conn_buffer c"
  by (auto simp: conn_close_def Let_def)

lemma closeConnection_bufs:
  assumes "echoes_only env" and "closeConnection env nm s = Some s'"
  shows "same_bufs s s'"
proof (cases "getConnnection nm s")
  case None
  with assms(2) show ?thesis by (simp add: closeConnection_def same_bufs_refl)
next
  case (Some i)
  with assms(2) obtain c where c: "objects s i = Some c"
    by (cases "objects s i") (auto simp: closeConnection_def)
  obtain c' w cbs where cl: "conn_close (uv env) (Some CloseLambda) c (world s) = Some (c', w, cbs)"
    "conn_buffer c' = conn_buffer c"
    using conn_close_buffer [of "uv env" "Some CloseLambda" c "world s"] by blast
  let ?s = "s\<lparr>world := w, objects := (objects s)(i \<mapsto> c')\<rparr>"
  have "same_bufs s ?s" using same_bufs_update [OF c cl(2)] .
  moreover have "s' = ?s \<or> close_done env (name c') ?s = Some s'"
    using assms(2) Some c cl(1) by (auto simp: closeConnection_def Let_def split: list.splits)
  ultimately show ?thesis using close_done_bufs [OF assms(1)] same_bufs_trans by blast
qed

lemma conn_socketClose_bufs: "echoes_only env \<Longrightarrow> conn_socketClose env i s = Some s' \<Longrightarrow> same_bufs s s'"
  by (cases "objects s i")
    (auto simp: conn_socketClose_def same_bufs_refl closeConnection_bufs split: list.splits Act.splits ServerCb.splits)

lemma drop_wrappers_bufs: "echoes_only env \<Longrightarrow> drop_wrappers env is s = Some s' \<Longrightarrow> same_bufs s s'"
proof (induction "is" arbitrary: s)
  case (Cons i "is")
  from Cons.prems(2) obtain s1 where s1: "drop_wrapper env i s = Some s1" "drop_wrappers env is s1 = Some s'"
    by (auto split: option.splits)
  then have "same_bufs s s1"
    using conn_socketClose_bufs [OF Cons.prems(1)] by (auto simp: drop_wrapper_def same_bufs_refl split: option.splits)
  then show ?case using Cons.IH [OF Cons.prems(1) s1(2)] by (rule same_bufs_trans)
qed (simp add: same_bufs_refl)

lemma on_tick_bufs: "echoes_only env \<Longrightarrow> on_tick env s = Some s' \<Longrightarrow> same_bufs s s'"
  using drop_wrappers_bufs [of env _ "s\<lparr>timerWheel := _\<rparr>" s']
  by (auto simp: on_tick_def same_bufs_def split: option.splits bind_splits)

lemma on_closed_bufs: "echoes_only env \<Longrightarrow> on_closed env i s = Some s' \<Longrightarrow> same_bufs s s'"
  by (cases "objects s i")
    (auto simp: on_closed_def same_bufs_refl close_done_bufs split: list.splits ServerCb.splits)

text \<open>The actions of a write or of its end.\<close>

lemma written_bufs:
  assumes "echoes_only env" and "run_acts env i acts s = Some s'"
    and "\<forall>a \<in> set acts. (\<exists>l m. a = LogAct l m) \<or> (\<exists>f info. a = RunWritten (UserWrite f) info)"
  shows "objects s' = objects s \<and> onMessageCb s' = onMessageCb s \<and> pending s' = pending s"
  using assms(2,3)
proof (induction acts arbitrary: s)
  case (Cons a acts)
  from Cons.prems obtain s1 where s1: "run_act env i a s = Some s1" "run_acts env i acts s1 = Some s'"
    by (auto split: option.splits)
  then have "objects s1 = objects s \<and> onMessageCb s1 = onMessageCb s \<and> pending s1 = pending s"
    using Cons.prems(2) assms(1) by (auto simp: run_act_def log_srv_def echoes_only_def)
  with Cons.IH [OF s1(2)] Cons.prems(2) show ?case by simp
qed simp

lemma write_to_bufs:
  assumes "echoes_only env" and "write_to env i buf cb c s = Some s'"
  shows "objects s' = objects s \<and> onMessageCb s' = onMessageCb s"
proof -
  obtain r w acts req where wr: "conn_write (uv env) buf (map_option UserWrite cb) c (world s) = (r, w, acts, req)"
    by (metis prod_cases4)
  then have "\<forall>a \<in> set acts. (\<exists>l m. a = LogAct l m) \<or> (\<exists>f info. a = RunWritten (UserWrite f) info)"
    by (auto simp: conn_write_def split: if_splits prod.splits option.splits)
  with written_bufs [OF assms(1)] assms(2) wr show ?thesis by (fastforce simp: write_to_def)
qed

lemma srv_write_name_bufs:
  assumes "echoes_only env" and "srv_write_name env nm buf cb s = Some s'"
  shows "same_bufs s s'"
proof (cases "getConnnection nm s")
  case None
  with assms show ?thesis by (simp add: srv_write_name_def srv_write_def run_user_other same_bufs_refl)
next
  case (Some i)
  with assms(2) obtain c where "write_to env i buf cb c s = Some s'"
    by (cases "objects s i") (auto simp: srv_write_name_def srv_write_def)
  from write_to_bufs [OF assms(1) this] show ?thesis by (simp add: same_bufs_def)
qed

lemma on_written_bufs:
  assumes "echoes_only env" and "requests_ok (pending s)" and "on_written env k st s = Some s'"
  shows "same_bufs s s'"
proof -
  obtain i cb buf where k: "k < length (pending s)" "pending s ! k = (i, cb, buf)"
    using assms(3) by (cases "pending s ! k") (auto simp: on_written_def index_at_def split: if_splits)
  then have "(i, cb, buf) \<in> set (pending s)" by (metis nth_mem)
  then have "cb = None \<or> (\<exists>f. cb = Some (UserWrite f))" using assms(2) by (auto simp: requests_ok_def)
  then have "\<forall>a \<in> set (write_done (cb, buf) st). (\<exists>l m. a = LogAct l m) \<or> (\<exists>f info. a = RunWritten (UserWrite f) info)"
    by (auto simp: write_done_def)
  from written_bufs [OF assms(1) _ this] assms(3) k show ?thesis
    by (auto simp: on_written_def index_at_def same_bufs_def)
qed

lemma read_end_bufs:
  assumes "echoes_only env" and "objects s i = Some c" and "conn_ok False i c" and "n \<le> 0" and "on_read env i n buf s = Some s'"
  shows "same_bufs s s'"
proof -
  consider (none) "n = 0" | (eof) "n = UV_EOF" | (err) "n < 0" "n \<noteq> UV_EOF" using assms(4) by linarith
  then show ?thesis
  proof cases
    case none
    then show ?thesis
      using assms(2,5) by (simp add: on_read_def onMesageReceive_def fun_upd_idem same_bufs_refl)
  next
    case eof
    then show ?thesis
      using assms(2,3,5) by (auto simp: on_read_def onMesageReceive_def conn_ok_def setConnectStatus_def
          run_act_def UV_EOF_def Let_def log_srv_def same_bufs_def split: if_splits)
  next
    case err
    let ?s = "log_srv Error (uv_err_name (uv env) n) (s\<lparr>objects := (objects s)(i \<mapsto> setConnectStatus False c)\<rparr>)"
    have "closeConnection env (name c) ?s = Some s'"
      using assms(2,3,5) err by (auto simp: on_read_def onMesageReceive_def onSocketClose_def conn_ok_def
          setConnectStatus_def run_act_def Let_def log_srv_def split: option.splits)
    moreover have "same_bufs s ?s"
      using assms(2) by (simp add: same_bufs_def log_srv_def setConnectStatus_def)
    ultimately show ?thesis using closeConnection_bufs [OF assms(1)] same_bufs_trans by blast
  qed
qed

section \<open>What a connection's buffer holds\<close>

text \<open>The pieces that the events of a run bring to a connection.\<close>

fun pieces :: "nat \<Rightarrow> 'u SrvEvent list \<Rightarrow> uint8 list list" where
  "pieces i [] = []"
| "pieces i (EvRead j n buf # es) = (if j = i \<and> 0 < n then [take (nat n) buf] else []) @ pieces i es"
| "pieces i (_ # es) = pieces i es"

lemma pieces_append: "pieces i (es @ es') = pieces i es @ pieces i es'"
  by (induction i es rule: pieces.induct) auto

lemma run_pieces: "srv_run env s0 es acc rep s \<Longrightarrow> i \<notin> acc \<Longrightarrow> pieces i es = []"
proof (induction rule: srv_run.induct)
  case (step es acc rep s e s')
  then show ?case by (cases e) (auto simp: pieces_append)
qed simp

text \<open>The handler of one connection alone, from an empty buffer.\<close>

definition handler ::
  "('u, 'w) Env \<Rightarrow> PacketStatics \<Rightarrow> uint8 list list \<Rightarrow> (CycleBuffer option \<times> uint8 list list \<times> EchoServer) option"
where
  "handler env st ps = newMessages CycleBufferMode st (CycleBuffer_ops (cycle_size env))
     (Some (CycleBuffer_init (cycle_size env))) ps \<lparr>cnt = 0\<rparr>"

lemma newMessages_snoc:
  "newMessages mode st ops pb (ps @ [p]) srv =
    do { (pb, out, srv) \<leftarrow> newMessages mode st ops pb ps srv;
         (pb, out', srv) \<leftarrow> newMessage mode st ops pb p srv; Some (pb, out @ out', srv) }"
  by (induction ps arbitrary: pb srv) (auto split: bind_splits prod.splits)

lemma newMessage_echo:
  "newMessage CycleBufferMode st ops (Some b) p srv
    = map_option (\<lambda>(b, out). (Some b, out, srv\<lparr>cnt := cnt srv + 1\<rparr>)) (buffer_echo ops st p b)"
  by (cases "append_received ops p b")
    (auto simp: newMessage_def buffer_echo_def Let_def split: bind_splits)

lemma handler_snoc:
  assumes "handler env st ps = Some (Some b, out, srv)" and "buffer_echo (CycleBuffer_ops (cycle_size env)) st p b = Some (b', new)"
  shows "handler env st (ps @ [p]) = Some (Some b', out @ new, srv\<lparr>cnt := cnt srv + 1\<rparr>)"
  using assms by (simp add: handler_def newMessages_snoc newMessage_echo)

text \<open>Writes without a callback.\<close>

lemma write_to_none:
  assumes "write_to env i buf None c s = Some s'"
  shows "objects s' = objects s \<and> onMessageCb s' = onMessageCb s \<and> timerWheel s' = timerWheel s
    \<and> (connected c \<and> (\<forall>d w. fst (uv_write (uv env) (conn_handle c) d w) = 0)
        \<longrightarrow> pending s' = pending s @ [(i, None, buf)])"
  using assms
  by (auto simp: write_to_def conn_write_def run_act_def log_srv_def split: if_splits prod.splits)
    (metis fst_conv)+

lemma write_packets_none:
  assumes "write_packets env i ps s = Some s'" and "objects s i = Some c"
  shows "objects s' = objects s \<and> onMessageCb s' = onMessageCb s \<and> timerWheel s' = timerWheel s
    \<and> (connected c \<and> (\<forall>d w. fst (uv_write (uv env) (conn_handle c) d w) = 0)
        \<longrightarrow> pending s' = pending s @ map (\<lambda>p. (i, None, p)) ps)"
  using assms
proof (induction ps arbitrary: s)
  case (Cons p ps)
  then obtain s1 where s1: "write_to env i p None c s = Some s1" "write_packets env i ps s1 = Some s'"
    by (auto split: bind_splits)
  note w = write_to_none [OF s1(1)]
  with Cons.IH [OF s1(2)] Cons.prems(2) show ?case by auto
qed simp

text \<open>What the server does with a piece: the handler's loop on that connection's buffer, and nothing else.\<close>

lemma pp_read:
  fixes s :: "('u, 'w) TcpServer"
  assumes "on_read (pp_env env st) i n buf s = Some s'" and "0 < n"
    and "objects s i = Some c" and "conn_ok False i c" and "conn_buffer c = CycleBuf b" and "onMessageCb s \<noteq> None"
    and "buffer_mode env = CycleBufferMode"
    and "buffer_echo (CycleBuffer_ops (cycle_size env)) st (take (nat n) buf) b = Some (b', new)"
  shows "objects s' = (objects s)(i \<mapsto> c\<lparr>conn_buffer := CycleBuf b'\<rparr>) \<and> onMessageCb s' = onMessageCb s
    \<and> (connected c \<and> (\<forall>d w. fst (uv_write (uv env) (conn_handle c) d w) = 0)
        \<longrightarrow> pending s' = pending s @ map (\<lambda>p. (i, None, p)) new)"
proof -
  let ?buf = "take (nat n) buf" and ?c = "c\<lparr>conn_buffer := CycleBuf b'\<rparr>"
  let ?s = "s\<lparr>objects := (objects s)(i \<mapsto> ?c)\<rparr>"
  have "srv_onMessage (pp_env env st) i ?buf s = Some s'"
    using assms(1) on_read_data [OF assms(3,4,2)] by simp
  moreover have "run_user (pp_env env st) (onMessageCb s) (Message i ?buf) s = write_packets env i new ?s"
    using assms(3,5-8) by (auto simp: run_user_def pp_onMessage_def)
  ultimately obtain s1 where w: "write_packets env i new ?s = Some s1"
    and s': "s' = s1 \<or> (\<exists>tw. s' = s1\<lparr>timerWheel := tw\<rparr>)"
    using assms(3) by (auto simp: srv_onMessage_def split: bind_splits if_splits)
  have "objects ?s i = Some ?c" by simp
  from write_packets_none [OF w this] s' show ?thesis by auto
qed

text \<open>In every run, a connection's buffer is that of the handler alone, run on the pieces of that connection.\<close>

definition follows :: "('u, 'w) Env \<Rightarrow> PacketStatics \<Rightarrow> 'u SrvEvent list \<Rightarrow> ('u, 'w) TcpServer \<Rightarrow> bool" where
  "follows env st es s \<longleftrightarrow> onMessageCb s \<noteq> None \<and> (\<forall>i c. objects s i = Some c \<longrightarrow>
     (\<exists>b out srv. conn_buffer c = CycleBuf b \<and> handler env st (pieces i es) = Some (Some b, out, srv)))"

lemma follows_same:
  assumes "follows env st es s" and "same_bufs s s'" and "\<And>i. pieces i es' = pieces i es"
  shows "follows env st es' s'"
  using assms unfolding follows_def same_bufs_def by metis

lemma follows_read:
  assumes "libuv (uv env)" and "pp_sized env" and "follows env st es s" and "srv_ok (pp_env env st) acc rep s"
    and "enabled (pp_env env st) acc rep s (EvRead i n buf)" and "0 < n"
    and "on_read (pp_env env st) i n buf s = Some s'"
  shows "\<exists>c b out srv b' new. objects s i = Some c \<and> conn_ok False i c \<and> conn_buffer c = CycleBuf b
    \<and> cb_valid (cycle_size env) b
    \<and> handler env st (pieces i es) = Some (Some b, out, srv)
    \<and> buffer_echo (CycleBuffer_ops (cycle_size env)) st (take (nat n) buf) b = Some (b', new)
    \<and> follows env st (es @ [EvRead i n buf]) s'"
proof -
  have i: "i \<in> acc" "i \<notin> rep" "\<not> is_closing (pp_env env st) s i" "n < 2 ^ 31" using assms(5) by auto
  obtain c where c: "objects s i = Some c" "conn_ok False i c"
    using srv_okD [OF assms(4) i(1,2)] i(3) by metis
  obtain b out srv where b: "conn_buffer c = CycleBuf b" "handler env st (pieces i es) = Some (Some b, out, srv)"
    using assms(3) c(1) unfolding follows_def by blast
  have v: "cb_valid (cycle_size env) b"
    using srv_ok_bufs [OF assms(4)] c(1) b(1) assms(2) by (fastforce simp: bufs_ok_def buf_ok_def pp_sized_def)
  have "nat n < 2 ^ 31" using i(4) assms(6) by simp
  then have "length (take (nat n) buf) < 2 ^ 31" by (simp add: min_less_iff_disj)
  then obtain b' new where e: "buffer_echo (CycleBuffer_ops (cycle_size env)) st (take (nat n) buf) b = Some (b', new)"
    using buffer_echo_total [OF v, of "take (nat n) buf" st] assms(2) by (auto simp: pp_sized_def)
  have r: "objects s' = (objects s)(i \<mapsto> c\<lparr>conn_buffer := CycleBuf b'\<rparr>)" "onMessageCb s' = onMessageCb s"
    using pp_read [OF assms(7,6) c b(1) _ _ e] assms(2,3) by (simp_all add: follows_def pp_sized_def)
  have "follows env st (es @ [EvRead i n buf]) s'"
    using assms(3,6) r handler_snoc [OF b(2) e] by (auto simp: follows_def pieces_append)
  with c b v e show ?thesis by blast
qed

lemma pieces_other:
  assumes "\<And>j n buf. e = EvRead j n buf \<Longrightarrow> n \<le> 0"
  shows "pieces i (es @ [e]) = pieces i es"
  using assms by (cases e) (fastforce simp: pieces_append)+

text \<open>A new connection starts with an empty buffer.\<close>

lemma accept_bufs:
  fixes env :: "('u, 'w) Env" and s :: "('u, 'w) TcpServer"
  assumes "echoes_only env" and "buffer_mode env = CycleBufferMode" and "enabled env acc rep s (EvAccept i)"
    and "onAccept env i s = Some s'"
  shows "\<exists>c. objects s' = (objects s)(i \<mapsto> c) \<and> conn_buffer c = CycleBuf (CycleBuffer_init (cycle_size env))
    \<and> connected c \<and> onMessageCb s' = onMessageCb s \<and> pending s' = pending s"
proof -
  obtain key where key: "AddrToStr (inet env) (uv env) i (server_ipv s) (world s) = Some key"
    "getConnnection key s = None"
    using assms(3) by (auto split: option.splits)
  define c :: "'u ServerCb TcpConnection" where "c = conn_setConnectCloseCallback (Some CloseConnectionBind) (conn_setMessageCallback (Some OnMessageBind)
    (fst (TcpConnection_new (uv env) (buffer_mode env) (cycle_size env) key i True (world s))))"
  define s1 where "s1 = addConnnection key i ((log_srv Debug (''new connect  '' @ key) s)\<lparr>
    world := uv_read_start (uv env) i (world s), objects := (objects s)(i \<mapsto> c)\<rparr>)"
  have c: "conn_buffer c = CycleBuf (CycleBuffer_init (cycle_size env))" "connected c"
    using assms(2) by (simp_all add: c_def TcpConnection_new_def conn_setConnectCloseCallback_def conn_setMessageCallback_def)
  have get: "getConnnection key (s1\<lparr>objects := ob, timerWheel := tw\<rparr>) = Some i" "getConnnection key s1 = Some i" for ob tw
    using key(2) by (simp_all add: s1_def addConnnection_def getConnnection_def map_get_insert)
  have "onAccept env i s = do {
      s2 \<leftarrow> (if 0 < getTimeout (timerWheel s)
        then map_option (\<lambda>tw. s1\<lparr>objects := (objects s1)(i \<mapsto> setWrapper (Some i) c), timerWheel := tw\<rparr>)
          (wheel_insert (Some i) (timerWheel s1))
        else Some s1);
      Some (if getConnnection key s2 = Some i then s2 else s2\<lparr>objects := (objects s2)(i := None)\<rparr>)}"
    by (simp add: onAccept_def key(1) TcpConnection_new_def Let_def addConnnection_def s1_def c_def
        run_user_other [OF assms(1)] cong: if_cong)
  with assms(4) get consider "s' = s1" | tw where " s' = s1\<lparr>objects := (objects s1)(i \<mapsto> setWrapper (Some i) c), timerWheel := tw\<rparr>"
    by (auto split: if_splits bind_splits)
  moreover have "objects s1 = (objects s)(i \<mapsto> c)" "onMessageCb s1 = onMessageCb s" "pending s1 = pending s"
    by (simp_all add: s1_def addConnnection_def log_srv_def)
  ultimately show ?thesis
  proof cases
    case 1
    with c \<open>objects s1 = _\<close> \<open>onMessageCb s1 = _\<close> \<open>pending s1 = _\<close> show ?thesis by auto
  next
    case (2 tw)
    with c \<open>objects s1 = _\<close> \<open>onMessageCb s1 = _\<close> \<open>pending s1 = _\<close> show ?thesis
      by (intro exI [of _ "setWrapper (Some i) c"]) (simp add: setWrapper_def)
  qed
qed

lemma follows_step:
  assumes "libuv (uv env)" and "pp_sized env" and "follows env st es s" and "srv_run (pp_env env st) s0 es acc rep s"
    and "enabled (pp_env env st) acc rep s e" and "srv_event (pp_env env st) e s = Some s'"
  shows "follows env st (es @ [e]) s'"
proof -
  let ?env = "pp_env env st"
  have lib: "libuv (uv ?env)" using assms(1) by simp
  note keeps = pp_keeps [OF assms(1,2), of st] and only = pp_echoes_only [of env st]
  note ok = run_ok [OF assms(4) lib keeps]
  show ?thesis
  proof (cases e)
    case (EvAccept i)
    then have new: "i \<notin> acc" using assms(5) by simp
    obtain c where c: "objects s' = (objects s)(i \<mapsto> c)" "conn_buffer c = CycleBuf (CycleBuffer_init (cycle_size env))"
      "onMessageCb s' = onMessageCb s"
      using accept_bufs [OF only, of acc rep s i s'] assms(2,5,6) EvAccept by (auto simp: pp_sized_def)
    have "handler env st [] = Some (Some (CycleBuffer_init (cycle_size env)), [], \<lparr>cnt = 0\<rparr>)"
      by (simp add: handler_def)
    then show ?thesis
      using assms(3) c run_pieces [OF assms(4) new] EvAccept by (auto simp: follows_def pieces_append)
  next
    case (EvRead i n buf)
    show ?thesis
    proof (cases "0 < n")
      case True
      with follows_read [OF assms(1-3) ok(1), of i n buf s'] assms(5,6) EvRead show ?thesis by auto
    next
      case False
      have i: "i \<in> acc" "i \<notin> rep" "\<not> is_closing ?env s i" using assms(5) EvRead by auto
      obtain c where "objects s i = Some c" "conn_ok False i c"
        using srv_okD [OF ok(1) i(1,2)] i(3) by metis
      from read_end_bufs [OF only this, of n buf s'] False assms(6) EvRead
      have "same_bufs s s'" by simp
      then show ?thesis
        using False EvRead by (intro follows_same [OF assms(3)] pieces_other) auto
    qed
  next
    case (EvShutdown i)
    then have "same_bufs s s'" using assms(6) conn_socketClose_bufs [OF only] by (simp add: on_shutdown_def)
    then show ?thesis using EvShutdown by (intro follows_same [OF assms(3)] pieces_other) auto
  next
    case (EvClosed i)
    then have "same_bufs s s'" using assms(6) on_closed_bufs [OF only] by simp
    then show ?thesis using EvClosed by (intro follows_same [OF assms(3)] pieces_other) auto
  next
    case EvTick
    then have "same_bufs s s'" using assms(6) on_tick_bufs [OF only] by simp
    then show ?thesis using EvTick by (intro follows_same [OF assms(3)] pieces_other) auto
  next
    case (EvClose nm)
    then have "same_bufs s s'" using assms(6) closeConnection_bufs [OF only] by simp
    then show ?thesis using EvClose by (intro follows_same [OF assms(3)] pieces_other) auto
  next
    case (EvWrite nm buf cb)
    then have "same_bufs s s'" using assms(6) srv_write_name_bufs [OF only] by simp
    then show ?thesis using EvWrite by (intro follows_same [OF assms(3)] pieces_other) auto
  next
    case (EvWritten k r)
    have "requests_ok (pending s)" using ok(1) by (simp add: srv_ok_def)
    then have "same_bufs s s'" using assms(6) on_written_bufs [OF only] EvWritten by simp
    then show ?thesis using EvWritten by (intro follows_same [OF assms(3)] pieces_other) auto
  qed
qed

lemma run_follows:
  assumes "libuv (uv env)" and "pp_sized env" and "srv_run (pp_env env st) s0 es acc rep s" and "onMessageCb s0 \<noteq> None"
  shows "follows env st es s"
  using assms(3)
proof induction
  case start
  then show ?case using assms(4) by (simp add: follows_def fresh_server_def)
next
  case (step es acc rep s e s')
  then show ?case using follows_step [OF assms(1,2)] by blast
qed

section \<open>Properties\<close>

text \<open>C4: the pingpang server among all its connections, in runs as of \<open>srv_run\<close> and with a cycle buffer of 1 to
  98299 bytes: a piece that arrives on a connection is defined, and the handler's answers to it are those
  of the message handler that sees only the pieces of this connection, whatever the other connections, the
  ticks and the writes did in between. If the connection is up and \<open>uv_write\<close> returns 0 for it, the write
  requests that are new are exactly these answers; the bytes of a write are those handed to the call.
  If moreover the pieces so far are whole frames of less than 65532 bytes each, and every piece together
  with every frame fits the connection's buffer (its size is 32 KiB by default, while libuv may read up to
  64 KiB at once and a failed append is ignored, so larger pieces are lost), then all answers on this
  connection so far are these frames, in order.\<close>

theorem pp_server_echoes:
  fixes s :: "('u, 'w) TcpServer"
  assumes "libuv (uv env)" and "pp_sized env" and "srv_run (pp_env env st) s0 es acc rep s" and "onMessageCb s0 \<noteq> None"
    and "enabled (pp_env env st) acc rep s (EvRead i n buf)" and "0 < n"
  shows "\<exists>c out new s' b srv b' srv'. objects s i = Some c
    \<and> handler env st (pieces i es) = Some (Some b, out, srv)
    \<and> handler env st (pieces i (es @ [EvRead i n buf])) = Some (Some b', out @ new, srv')
    \<and> srv_event (pp_env env st) (EvRead i n buf) s = Some s'
    \<and> (connected c \<and> (\<forall>d w. fst (uv_write (uv env) i d w) = 0)
        \<longrightarrow> pending s' = pending s @ map (\<lambda>p. (i, None, p)) new)
    \<and> (\<forall>ds. concat (pieces i (es @ [EvRead i n buf])) = frames st ds \<and> (\<forall>d\<in>set ds. length d < 65532)
        \<and> (\<forall>p\<in>set (pieces i (es @ [EvRead i n buf])). \<forall>d\<in>set ds. length p + length d + 3 \<le> unat (cycle_size env) - 1)
        \<longrightarrow> out @ new = map (frame st) ds)"
proof -
  let ?env = "pp_env env st" and ?e = "EvRead i n buf :: 'u SrvEvent"
  have lib: "libuv (uv ?env)" using assms(1) by simp
  note keeps = pp_keeps [OF assms(1,2), of st]
  note ok = run_ok [OF assms(3) lib keeps]
  obtain s' where ev: "srv_event ?env ?e s = Some s'"
    using event_ok [OF lib keeps ok(1,2) assms(5)] by blast
  have run: "on_read ?env i n buf s = Some s'" using ev by simp
  note fol = run_follows [OF assms(1-4)]
  obtain c b out srv b' new where c: "objects s i = Some c" "conn_ok False i c" "conn_buffer c = CycleBuf b"
    and h: "handler env st (pieces i es) = Some (Some b, out, srv)"
    and e: "buffer_echo (CycleBuffer_ops (cycle_size env)) st (take (nat n) buf) b = Some (b', new)"
    using follows_read [OF assms(1,2) fol ok(1) assms(5,6) run] by blast
  have snoc: "handler env st (pieces i (es @ [?e])) = Some (Some b', out @ new, srv\<lparr>cnt := cnt srv + 1\<rparr>)"
    using handler_snoc [OF h e] assms(6) by (simp add: pieces_append)
  have "pending s' = pending s @ map (\<lambda>p. (i, None, p)) new"
    if "connected c" "\<forall>d w. fst (uv_write (uv env) i d w) = 0"
    using pp_read [OF run assms(6) c _ _ e] assms(2) fol that c(2) by (simp add: follows_def pp_sized_def conn_ok_def)
  moreover have "out @ new = map (frame st) ds"
    if "concat (pieces i (es @ [?e])) = frames st ds" "\<forall>d\<in>set ds. length d < 65532"
      "\<forall>p\<in>set (pieces i (es @ [?e])). \<forall>d\<in>set ds. length p + length d + 3 \<le> unat (cycle_size env) - 1" for ds
  proof -
    have v: "cb_valid (cycle_size env) (CycleBuffer_init (cycle_size env))" "cb_contents (CycleBuffer_init (cycle_size env)) = []"
      using CycleBuffer_init_valid [of "cycle_size env"] assms(2) by (auto simp: pp_sized_def)
    have "\<forall>p\<in>set (pieces i (es @ [?e])). \<forall>d\<in>set ds. length p + length d + 3 \<le> min (unat (cycle_size env) - 1) 98299"
      using that(3) assms(2) by (fastforce simp: pp_sized_def)
    from cycle_echo.newMessages_frames [OF v(1) _ _ that(2) this, where st = st and server = "\<lparr>cnt = 0\<rparr>"] that(1) v(2) snoc
    show ?thesis by (auto simp: handler_def)
  qed
  ultimately show ?thesis using c(1) h snoc ev by blast
qed

text \<open>A server with a buffer of 4 KiB: a client connects, and sends a frame of one byte.\<close>

definition pp_sim :: "(unit, Sim) Env" where
  "pp_sim = sim_env\<lparr>buffer_mode := CycleBufferMode, cycle_size := 4096\<rparr>"

theorem pp_server_echoes_witness:
  "\<exists>s s'. srv_run (pp_env pp_sim Packet_statics_init) (srv_setMessageCallback (Some ()) (sim_server 5)) [EvAccept 7] {7} {} s
     \<and> srv_event (pp_env pp_sim Packet_statics_init) (EvRead 7 5 [0x7e, 1, 0, 65, 0xe7]) s = Some s'
     \<and> pending s' = [(7, None, [0x7e, 1, 0, 65, 0xe7])]"
proof -
  let ?env = "pp_env pp_sim Packet_statics_init" and ?s0 = "srv_setMessageCallback (Some ()) (sim_server 5)"
  let ?e = "EvRead 7 5 [0x7e, 1, 0, 65, 0xe7] :: unit SrvEvent"
  have lib: "libuv (uv pp_sim)" using sim_env(1) by (simp add: pp_sim_def)
  then have lib': "libuv (uv ?env)" by simp
  have sized: "pp_sized pp_sim" by (simp add: pp_sized_def pp_sim_def)
  note keeps = pp_keeps [OF lib sized, of Packet_statics_init]
  have "fresh_server ?s0" using sim_fresh [of 5] by (simp add: fresh_server_def srv_setMessageCallback_def)
  note run0 = srv_run.start [OF this, of ?env]
  have "enabled sim_env {} {} (sim_server 5) (EvAccept 7)" by code_simp
  then have acc: "enabled ?env {} {} ?s0 (EvAccept 7)"
    by (simp add: pp_sim_def srv_setMessageCallback_def getConnnection_def split: option.splits)
  from accept_ok [OF lib' keeps run_ok(1,2) [OF run0 lib' keeps] acc] obtain s
    where s: "onAccept ?env 7 ?s0 = Some s" "\<forall>j. is_closing ?env s j = is_closing ?env ?s0 j" by blast
  from accept_bufs [OF pp_echoes_only _ acc s(1)] obtain c where c: "objects s 7 = Some c" "connected c"
    "pending s = pending ?s0"
    by (auto simp: pp_sim_def)
  have run: "srv_run ?env ?s0 [EvAccept 7] {7} {} s"
    using srv_run.step [OF run0 acc] s(1) by simp
  have en: "enabled ?env {7} {} s ?e" using s(2) acc by simp
  have msg: "onMessageCb ?s0 \<noteq> None" by (simp add: srv_setMessageCallback_def)
  have pos: "0 < (5 :: int)" by simp
  from pp_server_echoes [OF lib sized run msg en pos] obtain c' out new s' b srv where h:
    "objects s 7 = Some c'"
    "handler pp_sim Packet_statics_init (pieces 7 [EvAccept 7 :: unit SrvEvent]) = Some (Some b, out, srv)"
    "srv_event ?env ?e s = Some s'"
    "connected c' \<and> (\<forall>d w. fst (uv_write (uv pp_sim) 7 d w) = 0)
        \<longrightarrow> pending s' = pending s @ map (\<lambda>p. (7, None, p)) new"
    "\<forall>ds. concat (pieces 7 ([EvAccept 7] @ [?e])) = frames Packet_statics_init ds \<and> (\<forall>d\<in>set ds. length d < 65532)
        \<and> (\<forall>p\<in>set (pieces 7 ([EvAccept 7] @ [?e])). \<forall>d\<in>set ds. length p + length d + 3 \<le> unat (cycle_size pp_sim) - 1)
        \<longrightarrow> out @ new = map (frame Packet_statics_init) ds" by blast
  have "connected c'" using h(1) c(1,2) by simp
  have "frame Packet_statics_init [65] = [0x7e, 1, 0, 65, 0xe7]" by code_simp
  with h(5) [rule_format, of "[[65]]"] have "out @ new = [[0x7e, 1, 0, 65, 0xe7]]" by (simp add: pp_sim_def)
  moreover have "out = []" using h(2) by (simp add: handler_def)
  moreover have "pending ?s0 = []" using sim_fresh [of 5] by (simp add: fresh_server_def srv_setMessageCallback_def)
  moreover have "fst (uv_write (uv pp_sim) 7 d w) = 0" for d w by (simp add: pp_sim_def sim_env_def sim_uv_def)
  ultimately show ?thesis using run h(3,4) c(3) \<open>connected c'\<close> by auto
qed

end
