(* ===== verification/Mains.thy ===== *)
theory Mains
  imports PingPong AllExample EchoExamples EchoRuns HttpExample Rpc
begin

text \<open>
  The \<open>main\<close> functions of the examples up to \<open>loop.run ()\<close>, and that they lead to the states in which the
  runs of the server and of the client start. A handle that a constructor makes is an argument, and so
  is the value that stands for a callback. The status of \<open>bindAndListen\<close>, which no \<open>main\<close> looks at, is
  part of the result.
\<close>

section \<open>Programs\<close>

definition es_main ::
  "('u, 'w) Env \<Rightarrow> handle \<Rightarrow> handle \<Rightarrow> handle \<Rightarrow> 'u \<Rightarrow> 'w \<Rightarrow> int \<times> ('u, 'w) TcpServer \<times> unit Timer \<times> 'w"
where
  "es_main env hwheel hacc htimer cb w =
     (let addr = SocketAddr_new (inet env) ''0.0.0.0'' 10005 Ipv4;
          server = srv_setMessageCallback (Some cb) (TcpServer_new (uv env) hwheel True w);
          (rst, server) = bindAndListen env hacc addr server;
          (tm, w) = Timer_new (uv env) htimer 1000 1000 (Some ()) (world server);
          (tm, w) = timer_start (uv env) tm w
      in (rst, server, tm, w))"

definition ec_main :: "(StartBind, 'w) ClientEnv \<Rightarrow> handle \<Rightarrow> 'w \<Rightarrow> (StartBind, 'w) TcpClient list \<times> 'w" where
  "ec_main env h w =
     (let serverAddr = SocketAddr_new (cl_inet env) ''127.0.0.1'' 10005 Ipv4
      in startClients env serverAddr True [h] [] w)"

definition hw_main ::
  "('u, 'w) Env \<Rightarrow> ('v, 'w) ClientEnv \<Rightarrow> handle \<Rightarrow> handle \<Rightarrow> handle \<Rightarrow> 'u \<Rightarrow> 'v \<Rightarrow> 'w \<Rightarrow>
    int \<times> ('u, 'w) TcpServer \<times> ('v, 'w) TcpClient"
where
  "hw_main env cenv hwheel hacc hsock cb ccb w =
     (let serverAddr = SocketAddr_new (inet env) ''127.0.0.1'' 10000 Ipv4;
          server = srv_setMessageCallback (Some cb) (TcpServer_new (uv env) hwheel True w);
          (rst, server) = bindAndListen env hacc serverAddr server;
          client = setConnectStatusCallback (Some ccb) (TcpClient_new True (world server))
      in (rst, server, cl_connect cenv hsock serverAddr client))"

text \<open>The assignment to \<open>BufferModeStatus\<close> is seen by both sides.\<close>

definition pp_main ::
  "('u, 'w) Env \<Rightarrow> (ClientBind, 'w) ClientEnv \<Rightarrow> handle \<Rightarrow> handle \<Rightarrow> handle \<Rightarrow> handle \<Rightarrow> 'u \<Rightarrow> 'w \<Rightarrow>
    ('u, 'w) Env \<times> (ClientBind, 'w) ClientEnv \<times> int \<times> ('u, 'w) TcpServer \<times> 'w EchoClient \<times> unit Timer \<times> 'w"
where
  "pp_main env cenv hwheel hacc hsock htimer cb w =
     (let env = SetBufferMode CycleBufferMode env;
          cenv = cenv\<lparr>cl_mode := CycleBufferMode\<rparr>;
          addr1 = SocketAddr_new (inet env) ''0.0.0.0'' 10002 Ipv4;
          server = srv_setMessageCallback (Some cb) (TcpServer_new (uv env) hwheel True w);
          server = srv_setTimeout 60 server;
          (rst, server) = bindAndListen env hacc addr1 server;
          addr2 = SocketAddr_new (cl_inet cenv) ''127.0.0.1'' 10002 Ipv4;
          client = connectToServer cenv hsock addr2 (EchoClient_new True (world server));
          (tm, w) = Timer_new (uv env) htimer 1000 1000 (Some ()) (cl_world (tcp client));
          (tm, w) = timer_start (uv env) tm w
      in (env, cenv, rst, server, client, tm, w))"

definition http_main ::
  "('u HttpCb, 'w) Env \<Rightarrow> handle \<Rightarrow> handle \<Rightarrow> 'w \<Rightarrow>
    ('u HttpCb, 'w) Env \<times> OnHttpReqCallback HttpServer \<times> int \<times> ('u HttpCb, 'w) TcpServer"
where
  "http_main env hwheel hacc w =
     (let env = SetBufferMode CycleBufferMode env;
          server = http_server (uv env) hwheel w;
          routes = example_routes;
          addr = SocketAddr_new (inet env) ''127.0.0.1'' 10010 Ipv4;
          (rst, server) = bindAndListen env hacc addr server
      in (env, routes, rst, server))"

text \<open>The thread that \<open>runRpcServer\<close> starts.\<close>

definition runRpcServer ::
  "(RpcServerCb, 'w) Env \<Rightarrow> nat \<Rightarrow> handle \<Rightarrow> handle \<Rightarrow> SocketAddr \<Rightarrow> 'w \<Rightarrow>
    unit EventLoop \<times> int \<times> (RpcServerCb, 'w) TcpServer"
where
  "runRpcServer env n hwheel hacc addr w =
     (let (lp, w) = EventLoop_new (uv env) n w;
          server = RpcServer_new (uv env) hwheel True w;
          (rst, server) = bindAndListen env hacc addr server
      in (lp, rst, server))"

text \<open>all\_example: a function handed to the loop prints one line; the handles are \<open>h 0\<close>, \<open>h 1\<close> and so on.\<close>

record ('u, 'w) AllMain =
  all_loop :: "string EventLoop"
  all_signal :: "unit Signal"
  all_bound :: int
  all_server :: "('u, 'w) TcpServer"
  all_client :: "'w EchoClient"
  all_tick :: "MainTimer Timer"
  all_once :: "MainTimer Timer"
  all_sockets :: "unit Udp \<times> unit Udp"
  all_printed :: "string list"
  all_world :: 'w

definition ae_main ::
  "('u, 'w) Env \<Rightarrow> (ClientBind, 'w) ClientEnv \<Rightarrow> nat \<Rightarrow> nat \<Rightarrow> (nat \<Rightarrow> handle) \<Rightarrow> 'u \<Rightarrow> 'w \<Rightarrow> ('u, 'w) AllMain option"
where
  "ae_main env cenv self n h cb w =
     do {
       let (lp, w) = EventLoop_new (uv env) n w;
       let (sg, w) = Signal_new (uv env) (h 0) 13 (Some ()) w;
       let addr1 = SocketAddr_new (inet env) ''0.0.0.0'' 10002 Ipv4;
       let server = srv_setMessageCallback (Some cb) (TcpServer_new (uv env) (h 1) True w);
       let server = srv_setTimeout 40 server;
       let (rst, server) = bindAndListen env (h 2) addr1 server;
       let addr2 = SocketAddr_new (cl_inet cenv) ''127.0.0.1'' 10002 Ipv4;
       let client = connectToServer cenv (h 3) addr2 (EchoClient_new True (world server));
       (lp, w, now1) \<leftarrow> runInThisLoop (uv env) self (Some ''run function in loop thread one.'') lp
         (cl_world (tcp client));
       (lp, w, now2) \<leftarrow> runInThisLoop (uv env) self (Some ''run function in loop thread two.'') lp w;
       let (tick, w) = tick_new (uv env) (h 4) w;
       let (once, w) = once_new (uv env) (h 5) w;
       lines \<leftarrow> main_log;
       let (_, udpReceive, w) = ae_socket (uv env) (h 6) (ae_addr3 (inet env)) w;
       let (_, udpSend, w) = ae_socket (uv env) (h 7) (ae_addr4 (inet env)) w;
       let (_, w) = ae_udp_start (uv env) (inet env) udpSend w;
       Some \<lparr>all_loop = lp, all_signal = sg, all_bound = rst, all_server = server, all_client = client,
         all_tick = tick, all_once = once, all_sockets = (udpReceive, udpSend),
         all_printed = now1 @ now2 @ lines, all_world = w\<rparr>
     }"

text \<open>all\_example's other thread, 2 seconds later, and the callback of its write; the text has a wide colon.\<close>

definition ae_thread ::
  "(ClientBind, 'w) ClientEnv \<Rightarrow> nat \<Rightarrow> ClientBind \<Rightarrow> 'w EchoClient \<Rightarrow>
    ('w EchoClient \<times> (uint8 list \<times> ClientBind option) option) option"
where
  "ae_thread env sizeof_ptr cb client =
     do {
       data \<leftarrow> cross_write_data sizeof_ptr;
       (cl, task) \<leftarrow> cl_writeInLoop env data (Some cb) (tcp client);
       Some (client\<lparr>tcp := cl\<rparr>, task)
     }"

definition ae_written :: "'w Libuv \<Rightarrow> WriteInfo \<Rightarrow> string list" where
  "ae_written u info =
     (if wi_status info \<noteq> 0
      then [''Write error '' @ [CHR 0xEF, CHR 0xBC, CHR 0x9A] @ GetErrorMessage u (wi_status info)] else [])"

section \<open>What they start\<close>

text \<open>Binding looks at the libuv of the environment only.\<close>

lemma bindAndListen_env:
  assumes "uv env' = uv env"
  shows "bindAndListen env' = bindAndListen env"
  unfolding bindAndListen_def [abs_def] assms ..

text \<open>
  The servers without a time-out: the run starts, the wheel is off, so that no tick closes anything. The
  timer of \<open>echo_server\<close> runs.
\<close>

lemma es_main_starts:
  assumes "es_main env hwheel hacc htimer cb w = (0, s0, tm, w')"
  shows "srv_run (es_env env) s0 [] {} {} s0 \<and> timeoutSec (timerWheel s0) = 0
    \<and> map_option isListen (accetper s0) = Some True \<and> onMessageCb s0 = Some cb \<and> started tm \<and> onTimeOut tm = [()]"
proof -
  have "bindAndListen (es_env env) hacc (SocketAddr_new (inet env) ''0.0.0.0'' 10005 Ipv4)
      (srv_setMessageCallback (Some cb) (TcpServer_new (uv (es_env env)) hwheel True w)) = (0, s0)"
    and "started tm" "onTimeOut tm = [()]"
    using assms by (auto simp: es_main_def bindAndListen_env [of "es_env env" env] Timer_new_def timer_start_def
        onTimeOut_def run_if_def Let_def split: prod.splits)
  with server_starts_off show ?thesis by metis
qed

lemma es_main_run:
  assumes "libuv (uv env)" and "es_main env hwheel hacc htimer cb w = (0, s0, tm, w')"
    and "srv_run (es_env env) s0 es acc rep s" and "enabled (es_env env) acc rep s e"
  shows "\<exists>s'. srv_event (es_env env) e s = Some s'"
proof -
  have "libuv (uv (es_env env))" using assms(1) by simp
  note run_ok = run_ok [OF assms(3) this es_keeps [OF assms(1)]]
  from event_ok [OF \<open>libuv (uv (es_env env))\<close> es_keeps [OF assms(1)] run_ok(1,2) assms(4)] show ?thesis by blast
qed

lemma http_main_starts:
  assumes "http_main env hwheel hacc w = (env', routes, 0, s0)"
  shows "env' = env\<lparr>buffer_mode := CycleBufferMode\<rparr> \<and> routes = example_routes \<and> srv_run env' s0 [] {} {} s0
    \<and> timeoutSec (timerWheel s0) = 0 \<and> onMessageCb s0 = Some HttpMessage"
proof -
  have env: "env' = SetBufferMode CycleBufferMode env" "routes = example_routes"
    and "bindAndListen env' hacc (SocketAddr_new (inet env') ''127.0.0.1'' 10010 Ipv4)
      (srv_setMessageCallback (Some HttpMessage) (TcpServer_new (uv env') hwheel True w)) = (0, s0)"
    using assms by (auto simp: http_main_def http_server_def Let_def split: prod.splits)
  from server_starts_off [OF this(3)] env show ?thesis by (simp add: SetBufferMode_def)
qed

lemma runRpcServer_starts:
  assumes "runRpcServer env n hwheel hacc addr w = (lp, 0, s0)"
  shows "status lp = NotRun \<and> srv_run env s0 [] {} {} s0 \<and> onMessageCb s0 = Some RpcMessage"
proof -
  obtain w1 where "bindAndListen env hacc addr
      (srv_setMessageCallback (Some RpcMessage) (TcpServer_new (uv env) hwheel True w1)) = (0, s0)" "status lp = NotRun"
    using assms by (auto simp: runRpcServer_def RpcServer_new_def EventLoop_new_def EventLoop_make_def Let_def split: prod.splits)
  with server_starts_off [OF this(1)] show ?thesis by simp
qed

text \<open>
  all\_example: the loop has not run, so that both functions wait in its queue, in order, and nothing but
  the four log lines has been printed. The server has a time-out of 40 seconds, and the client connects.
\<close>

lemma ae_main_starts:
  "\<exists>m. ae_main env cenv self n h cb w = Some m \<and> status (all_loop m) = NotRun
     \<and> callbacks (async (all_loop m)) = [''run function in loop thread one.'', ''run function in loop thread two.'']
     \<and> all_printed m = [''Debug :debug message'', ''Info :info message'', ''Warn :warn message'', ''Error :error message'']
     \<and> (all_bound m = 0 \<longrightarrow> srv_run env (all_server m) [] {} {} (all_server m)
          \<and> timeoutSec (timerWheel (all_server m)) = 40 \<and> onMessageCb (all_server m) = Some cb)
     \<and> (\<exists>w'. all_client m = connectToServer cenv (h 3) (SocketAddr_new (cl_inet cenv) ''127.0.0.1'' 10002 Ipv4)
          (EchoClient_new True w'))"
proof -
  obtain lp :: "string EventLoop" and w1 where lp: "EventLoop_new (uv env) n w = (lp, w1)" by (metis prod.exhaust)
  then have "status lp = NotRun" "async lp = Async_new"
    by (auto simp: EventLoop_new_def EventLoop_make_def split: prod.splits)
  then have post: "runInThisLoop (uv env) self (Some f) lp' w = Some (lp'\<lparr>async := async_push f (async lp')\<rparr>, w, [])"
    if "status lp' = NotRun" "async_handle (async lp') = NullHandle" for f lp' w
    using that by (simp add: runInThisLoop_def isRunInLoopThread_def isStoped_def async_runInThisLoop_def
        async_push_def async_signal_def)
  obtain sg w2 where sg: "Signal_new (uv env) (h 0) 13 (Some ()) w1 = (sg, w2)" by (metis prod.exhaust)
  obtain rst server where server: "bindAndListen env (h 2) (SocketAddr_new (inet env) ''0.0.0.0'' 10002 Ipv4)
      (srv_setTimeout 40 (srv_setMessageCallback (Some cb) (TcpServer_new (uv env) (h 1) True w2))) = (rst, server)"
    by (metis prod.exhaust)
  have "rst = 0 \<longrightarrow> srv_run env server [] {} {} server \<and> timeoutSec (timerWheel server) = 40 \<and> onMessageCb server = Some cb"
    using server_starts [of env "h 2" _ 40 "Some cb" "h 1" True w2 server] server by auto
  then show ?thesis
    using \<open>status lp = NotRun\<close> \<open>async lp = Async_new\<close>
    by (auto simp: ae_main_def lp sg server [simplified] post main_log Async_new_def async_push_def Let_def split: prod.split)
qed

text \<open>pingpang: the server with its time-out, the client and the timer.\<close>

lemma pp_main_starts:
  assumes "pp_main env cenv hwheel hacc hsock htimer cb w = (env', cenv', 0, s0, client, tm, w')"
  shows "env' = SetBufferMode CycleBufferMode env" and "srv_run (pp_env env' st) s0 [] {} {} s0"
    and "timeoutSec (timerWheel s0) = 60" and "map_option isListen (accetper s0) = Some True"
    and "\<not> uv_is_closing (cl_uv cenv) hsock (world s0) \<Longrightarrow> echo_run cenv' st pingpang_kind (Connecting hsock) client"
    and "started tm" and "onTimeOut tm = [()]"
proof -
  let ?env = "pp_env env' st"
  show env': "env' = SetBufferMode CycleBufferMode env" and "started tm" "onTimeOut tm = [()]"
    and "\<not> uv_is_closing (cl_uv cenv) hsock (world s0) \<Longrightarrow> echo_run cenv' st pingpang_kind (Connecting hsock) client"
    using assms by (auto simp: pp_main_def Timer_new_def timer_start_def onTimeOut_def run_if_def Let_def
        split: prod.splits intro: echo_start)
  have "bindAndListen ?env hacc (SocketAddr_new (inet env') ''0.0.0.0'' 10002 Ipv4)
      (srv_setTimeout 60 (srv_setMessageCallback (Some cb) (TcpServer_new (uv ?env) hwheel True w))) = (0, s0)"
    using assms by (auto simp: pp_main_def bindAndListen_env [of ?env env'] Let_def split: prod.splits)
  from server_starts [OF this] show "srv_run ?env s0 [] {} {} s0" "timeoutSec (timerWheel s0) = 60"
    "map_option isListen (accetper s0) = Some True" by simp_all
qed

text \<open>
  Where a pointer has eight bytes, the other thread of all\_example reads beyond its array; where it has
  four, the loop gets the array. A connection that is gone makes the callback print.
\<close>

lemma ae_thread_cases:
  "ae_thread env 8 cb client = None"
  "connection (tcp client) = Some c \<Longrightarrow> ae_thread env 4 cb client = Some (client, Some (bytes_of ''test'', Some cb))"
  by (simp_all add: ae_thread_def cross_write cl_writeInLoop_def)

lemma ae_written_gone:
  "ae_written u \<lparr>wi_status = Disconnected, wi_buf = buf\<rparr>
    = [''Write error '' @ [CHR 0xEF, CHR 0xBC, CHR 0x9A] @ ''the connection is disconnected'']"
  by (simp add: ae_written_def GetErrorMessage_def Disconnected_def)

section \<open>Property\<close>

text \<open>C20: the pingpang program: when \<open>bindAndListen\<close> returns 0, \<open>main\<close> leaves a listening server on which the
  runs start, a client that connects unless libuv has just closed its handle, and a running timer. From
  then on, with the message callback that cuts frames and writes them back, every event that may come (as of
  \<open>enabled\<close>, hence without two peers under one name or a second close) is defined in every state, and a tick closes exactly the open connections without activity for 60 ticks.\<close>

theorem pingpang_program:
  assumes "libuv (uv env)" and "0 < unat (cycle_size env)" and "unat (cycle_size env) \<le> 98299"
    and "pp_main env cenv hwheel hacc hsock htimer cb w = (env', cenv', 0, s0, client, tm, w')"
    and "srv_run (pp_env env' st) s0 es acc rep s"
  shows "srv_run (pp_env env' st) s0 [] {} {} s0 \<and> map_option isListen (accetper s0) = Some True
    \<and> (\<forall>e. enabled (pp_env env' st) acc rep s e \<longrightarrow> (\<exists>s'. srv_event (pp_env env' st) e s = Some s'))
    \<and> (\<forall>i\<in>acc - rep. \<not> is_closing (pp_env env' st) s i \<longrightarrow> (\<exists>s'. on_tick (pp_env env' st) s = Some s'
        \<and> (is_closing (pp_env env' st) s' i \<longleftrightarrow> i \<notin> recent 60 (rev (activities (es @ [EvTick]))))))
    \<and> (\<not> uv_is_closing (cl_uv cenv) hsock (world s0) \<longrightarrow> echo_run cenv' st pingpang_kind (Connecting hsock) client)
    \<and> started tm \<and> onTimeOut tm = [()]"
proof -
  let ?env = "pp_env env' st"
  note start = pp_main_starts(1,3,4,6,7) [OF assms(4)] pp_main_starts(2,5) [OF assms(4), of st]
  have lib: "libuv (uv ?env)" and sized: "pp_sized env'" and lib': "libuv (uv env')"
    using assms(1-3) start(1) by (simp_all add: SetBufferMode_def pp_sized_def)
  note keeps = pp_keeps [OF lib' sized, of st]
  note run = run_ok [OF assms(5) lib keeps]
  have T: "timeoutSec (timerWheel s0) = 60" "0 < getTimeout (timerWheel s0)" using start(2) by (simp_all add: getTimeout_def)
  have "\<exists>s'. srv_event ?env e s = Some s'" if "enabled ?env acc rep s e" for e
    using event_ok [OF lib keeps run(1,2) that] by blast
  moreover have "\<exists>s'. on_tick ?env s = Some s' \<and> (is_closing ?env s' i \<longleftrightarrow> i \<notin> recent 60 (rev (activities (es @ [EvTick]))))"
    if "i \<in> acc - rep" "\<not> is_closing ?env s i" for i
    using tick_of_run [OF lib keeps assms(5) T(2), of i] that T(1) by simp
  ultimately show ?thesis using start(3-7) by blast
qed

theorem pingpang_program_witness:
  "\<exists>env' cenv' s0 client tm w' s1.
     pp_main (sim_env\<lparr>cycle_size := 4096\<rparr>) sim_echo_env 1 0 3 4 () sim_init = (env', cenv', 0, s0, client, tm, w')
     \<and> srv_event (pp_env env' Packet_statics_init) (EvAccept 7) s0 = Some s1
     \<and> echo_run cenv' Packet_statics_init pingpang_kind (Connecting 3) client"
proof -
  let ?env = "sim_env\<lparr>cycle_size := 4096\<rparr>" and ?st = Packet_statics_init
  obtain env' cenv' rst s0 client tm w' where
    m: "pp_main ?env sim_echo_env 1 0 3 4 () sim_init = (env', cenv', rst, s0, client, tm, w')"
    by (metis prod.exhaust)
  have "case pp_main ?env sim_echo_env 1 0 3 4 () sim_init of (env', cenv', rst, s0, client, tm, w') \<Rightarrow>
      rst = 0 \<and> enabled (pp_env env' ?st) {} {} s0 (EvAccept 7) \<and> \<not> uv_is_closing (cl_uv sim_echo_env) 3 (world s0)"
    by code_simp
  with m have c: "rst = 0" "enabled (pp_env env' ?st) {} {} s0 (EvAccept 7)" "\<not> uv_is_closing (cl_uv sim_echo_env) 3 (world s0)"
    by simp_all
  have lib: "libuv (uv ?env)" using sim_env(1) by simp
  have size: "0 < unat (cycle_size ?env)" "unat (cycle_size ?env) \<le> 98299" by simp_all
  note m = m [unfolded c(1)]
  from pingpang_program [OF lib size m pp_main_starts(2) [OF m, of ?st]] c(2,3) obtain s1 where
    "srv_event (pp_env env' ?st) (EvAccept 7) s0 = Some s1" "echo_run cenv' ?st pingpang_kind (Connecting 3) client"
    by blast
  with m show ?thesis by blast
qed

end
