(* ===== verification/Spec2Isabelle.thy ===== *)
theory Spec2Isabelle
  imports PingPong RadixDemo HttpExample HttpGet RpcThreads AllExample CrossThread EchoExamples ServerQuit
    LoopThreads LogWriter EchoRuns Mains
begin

text \<open>
  \<^bold>\<open>A model of uv-cpp.\<close>

  uv-cpp is a C++ network library over libuv: an event loop that other threads can hand functions to,
  TCP servers and clients with framing buffers and a timing wheel that closes idle connections,
  datagrams, name lookup, and HTTP with routes in a radix tree. This development translates the library
  (\<open>src/uv\<close>) and its example programs (\<open>src/examples\<close>) into HOL, one theory for each class or group of
  classes, and proves what makes them correct, as well as where they are not.

  \<^bold>\<open>How the parts interact.\<close> An \<open>EventLoop\<close> owns the libuv loop and an \<open>Async\<close>, the queue behind
  \<open>runInThisLoop\<close>. A \<open>TcpServer\<close> owns a \<open>TcpAccepter\<close>, a map from names to connections and a
  \<open>TimerWheel\<close> whose slots hold wrappers of connections; a wrapper that is dropped closes its
  connection. A \<open>TcpConnection\<close> owns a \<open>CycleBuffer\<close> or a \<open>ListBuffer\<close> when the global mode asks for
  one; \<open>Packet\<close> objects are read from these through the interface \<open>PacketBuffer\<close>. A \<open>TcpClient\<close> owns
  one connection. \<open>HttpServer\<close> is a \<open>TcpServer\<close> whose message callback collects a request and calls the
  handler of its route; \<open>HttpClient\<close> owns a \<open>TcpClient\<close>. Everything but \<open>runInThisLoop\<close> and the classes
  built on it runs on the loop's thread, in callbacks of libuv.

  \<^bold>\<open>Conventions.\<close>
  \<^item> A class is a record of its data members, a method a function from the object and its arguments to
    the changed object and the result, in the order in which the code declares them.
  \<^item> A result of type \<open>option\<close> is \<open>None\<close> where the C++ has no defined continuation: an access outside an
    array, a null or destroyed object, an exception that nothing catches, or a loop that never ends.
    Status codes and \<open>false\<close> are ordinary results.
  \<^item> \<open>while (true)\<close> is the combinator \<open>endless\<close> of UvPrelude, which iterates a round and is \<open>None\<close> when no
    round leaves the loop; there is no fuel. Theorems that a loop ends therefore state \<open>Some\<close>.
  \<^item> Integers have the width of the code (\<open>8 word\<close> to \<open>64 word\<close>); a conversion to \<open>int\<close> is \<open>c_int\<close>, which wraps.
    Strings of HTTP and of addresses are HOL strings, buffers are lists of bytes.
  \<^item> A callback is a value of a type \<open>'u\<close> or \<open>'cb\<close> that the owner chooses, and an operation returns the
    callbacks that it runs, in order; where the code that follows depends on what the user's callback does,
    the callback is a parameter that acts on the whole state (\<open>user\<close> of TcpServer and TcpClient).
  \<^item> Objects that are shared and destroyed (the connections of a server) live in a store, a partial map from
    handles, so that the use of a destroyed object is \<open>None\<close>.
  \<^item> libuv is the parameter \<open>'w Libuv\<close> (theory Libuv): a record of the functions that the program calls, on
    an abstract world. The locale \<open>libuv\<close> states the one documented fact that proofs rely on: a handle
    is closing from \<open>uv_close\<close> on, and nothing else changes that until it is initialised again.
    The interpretation \<open>sim\<close> is a simulated libuv on which the witnesses run.
  \<^item> \<open>uv_write\<close> is given the bytes that the caller's memory holds at the call. In the C++ libuv keeps a pointer
    and reads them when the socket takes them, so what is proved of written bytes holds for callers that leave
    their memory alone until the write is done; the findings list those that do not.

  \<^bold>\<open>Theories.\<close>

  Shared: UvPrelude (machine types, memory copies, \<open>endless\<close>), StdLib (\<open>std::string\<close>, \<open>std::map\<close>, \<open>stoi\<close>),
  Libuv (the parameter, its locale, its simulation, and the locale \<open>close_protocol\<close> of closing an object).

  Bytes and frames:
  \<^item> PacketBuffer (\<open>PacketBuffer.hpp\<close>, \<open>GlobalConfig.cpp\<close>): the virtual functions as a record, and the
    locales \<open>packet_buffer\<close> and \<open>bounded_packet_buffer\<close>, the contract of a byte queue.
  \<^item> CycleBuffer, ListBuffer (\<open>CycleBuffer.cpp\<close>, \<open>ListBuffer.cpp\<close>): every operation, on the raw array with its
    two 64-bit indices and on the list. The interpretations \<open>cycle_buf\<close> and \<open>list_buf\<close> discharge the
    contract; a cycle buffer refines the queue with one byte less than its size, error codes included.
  \<^item> Packet (\<open>Packet.cpp\<close>): packing, byte order, and the reader \<open>readFromBuffer\<close>, in the locale
    \<open>packet_reader\<close> over any buffer.
  \<^item> EchoServer, PingPong (\<open>examples/pingpang\<close>): the message handler over either buffer (locale
    \<open>framed_connection\<close>, interpretations \<open>cycle_echo\<close> and \<open>list_echo\<close>). Frames that arrive in any pieces are
    delivered once, in order; the reader always returns and finds the next frame behind noise; the
    exchange between server and client never loses its packet; and the reader's two faults.

  Loop and handles:
  \<^item> LogWriter, Watchers (\<open>Timer.cpp\<close>, \<open>Idle.cpp\<close>, \<open>Signal.cpp\<close>), TimerWheel (\<open>TimerWheel.hpp\<close>): the wheel
    holds exactly what was inserted during its last ticks. The sublocale declarations of Watchers,
    TcpConnection, TcpServer and UdpDns show that timers, signals, connections, the acceptor and sockets all
    obey \<open>close_protocol\<close>, with what that means for a second \<open>close\<close>.
  \<^item> EventLoop (\<open>EventLoop.cpp\<close>, \<open>Async.cpp\<close>): every operation, and the hand-over among any number of threads as
    a step relation (\<open>hub_step\<close>). \<open>init\<close> publishes its handle before libuv has initialised it: the two halves
    are two steps, a signal in between is undefined and sets \<open>misused\<close>, and \<open>handover_before_init\<close> reaches it.
  \<^item> LoopThreads (\<open>EventLoop.cpp\<close>, \<open>examples/loop_exit\<close>): the whole life of a loop (\<open>life_step\<close>) from its
    constructor to the end of \<open>run\<close>, with calls of \<open>stop\<close>; its invariant, and the example that stops a loop
    from another thread. The state remembers a signal on a handle that is not initialised yet (\<open>early\<close>) and one
    on a handle that is deleted (\<open>dangling\<close>); the theorems about good runs exclude them by name.

  TCP and datagrams:
  \<^item> SocketAddr, TcpConnection, TcpServer (with \<open>TcpAccepter.cpp\<close>), TcpClient: every method, and every
    callback that libuv may run.
  \<^item> ServerRuns: runs of a server (\<open>srv_run\<close>) over all events in any order, with the invariants \<open>srv_ok\<close> of
    store, map and wrappers and \<open>wheel_ok\<close> of wheel and activity; no event uses a destroyed connection, idle
    connections and only those are closed, closing a server reaches all of them. In a run no connection is
    accepted under a name that the map still holds, and none is closed a second time by the user: the code is
    wrong in both cases, as two theorems outside the runs show. The user's callbacks may
    write and may fill and read the buffers (\<open>user_keeps\<close>); a callback that does not return, or that closes
    or replaces objects, is outside (HttpServer shows what one that closes does). \<open>user_quiet\<close> is the stronger
    condition that they only compute, under which the queue of writes is unchanged as well.
  \<^item> TcpClient also has the abstract machine of a client's life (\<open>spec_event\<close>), which the methods refine.
  \<^item> UdpDns (\<open>Udp.cpp\<close>, \<open>DnsGet.cpp\<close>).

  HTTP:
  \<^item> HttpCommon, Request, Response: packing and parsing with round trips, completeness, chunked bodies.
  \<^item> RadixTree, RadixDemo (\<open>RadixTree.hpp\<close>, \<open>examples/radix_tree\<close>): the tree is a map for keys without wildcard.
  \<^item> HttpServer, HttpClient, HttpExample, HttpGet (\<open>examples/http_server\<close>, \<open>http_client\<close>, \<open>dns\<close>): requests
    and responses in any pieces are answered and delivered once; two ways to bring a server down. What the
    server answers is any text that parses as a request and whose end can be told (\<open>request_text\<close>), among
    them what \<open>pack\<close> makes of a well-formed request. The status of a response is an \<open>int\<close>, also beyond
    the range of the enumeration.

  Further examples:
  \<^item> EchoClients (\<open>Clinet.hpp\<close> of the examples): a client that always connects again.
  \<^item> EchoExamples (\<open>echo_server\<close>, \<open>echo_client\<close>, \<open>helloworld\<close>), AllExample (\<open>all_example\<close>), ServerQuit
    (\<open>server_quit\<close>): their callbacks, and what they achieve.
  \<^item> EchoRuns: the echo servers with their message callbacks inside the server. The callbacks satisfy
    \<open>user_keeps\<close>, so that what ServerRuns proves holds for these programs; and among all its
    connections, the pingpang server answers each of them as the handler of EchoServer does alone.
  \<^item> Mains: the \<open>main\<close> functions of the examples up to \<open>loop.run ()\<close>, and that they lead to the states in which
    the runs start.
  \<^item> CrossThread (\<open>clients_cross_thread\<close>): two threads that meet through a mutex and a condition variable.
  \<^item> Rpc, RpcThreads (\<open>examples/rpc\<close>): the protocol, and \<open>RpcCtrl::sum\<close> among the caller, the background
    thread, the server and the network (\<open>rpc_step\<close>), which is a stream of bytes in each direction that TCP
    may cut and join anywhere: that sets \<open>fragmented\<close>. What holds while it is not set is proved, and what a cut
    does to a call (\<open>rpc_sum_cut\<close>).

  \<^bold>\<open>Step relations.\<close> A step is what a thread does between two operations on a mutex, a condition variable or
  an atomic field; a callback of libuv is one step where it is run by one thread only. Invariants are proved
  by rule induction. Progress is proved by a measure, with the bound of the number of steps in the
  statement: 40 for the loop that is stopped from another thread, 101 for a call of \<open>sum\<close> on a connection
  that stays up, \<open>n + 11\<close> for the start of \<open>n\<close> clients; the states without a step are then the good ones.
  Spurious wake-ups are steps too, and excluded only where a number of steps is claimed.

  \<^bold>\<open>Bounds.\<close> Frames carry less than 65532 bytes, since \<open>DataSize\<close> plus its four bytes of frame must fit 16 bits
  (a theorem shows what happens beyond). The reader never clears the
  packet it collects: a round may add 65539 bytes to it and takes at least three from the buffer, so a
  cycle buffer of at most 98300 bytes (the default is 32768) keeps it below \<open>2 ^ 31\<close>. Message lengths are below \<open>2 ^ 31\<close> where
  the code converts them to \<open>int\<close>, and an RPC request has fewer than \<open>2 ^ 29\<close> parameters, whose sum is exact in
  64 bits.

  \<^bold>\<open>Not modelled.\<close> The headers of libuv under \<open>src/libuv1.30.0\<close> are third-party; what \<open>uv_run\<close> does
  appears as the order of events, over which the theorems quantify. The programs that compare with Boost.Asio
  use none of this library. What a \<open>main\<close> does after the loop has ended, deleting the loop and returning, is
  modelled for \<open>loop_exit\<close> only. Allocation never fails. Threads are sequentially consistent: unsynchronised reads, such as that of
  \<open>TcpClient::writeInLoop\<close> on another thread, are findings and not part of a step relation. A client that
  \<open>uv_accept\<close> refuses is released while it closes: the model has only the call of \<open>uv_close\<close>.
\<close>

end
